(* ===== verification/Prelude.thy ===== *)
theory Prelude
  imports Main "HOL-Library.Word" "HOL-Library.Option_ord" "HOL-Library.List_Lexorder"
    "HOL-Library.Char_ord"
begin

text \<open>
  Shared vocabulary of the development: Go's scalar types, Go error values with their wrapping
  chains, the three-way outcome of a Go call (a value, an error, a panic), the combinator that
  models the idiom \<open>x, err := f(); if err != nil { ... }\<close> over an explicit world, and a small
  calculus of facts "every run of this operation relates the world before to the world after".
\<close>

section \<open>Scalars\<close>

text \<open>
  \<open>uuid.UUID\<close> is an array of 16 bytes, \<open>int64\<close> a 64-bit word read with \<open>sint\<close>; instants are
  integers (at the resolution the database stores). A Go \<open>string\<close> is a sequence of bytes.
\<close>

type_synonym uuid = "128 word"
type_synonym i64 = "64 word"
type_synonym time = int

named_theorems res_simps \<open>equations that run the outcome combinators\<close>
named_theorems pres_intros \<open>introduction rules for relations kept by an operation\<close>
named_theorems pf_intros \<open>introduction rules for operations that never panic\<close>
named_theorems row_simps \<open>lookup after update laws of the tables\<close>

section \<open>Decimal text\<close>

text \<open>What \<open>%d\<close> prints.\<close>

fun dec_digits :: "nat \<Rightarrow> string" where
  "dec_digits n = (if n < 10 then [char_of (48 + n)]
                   else dec_digits (n div 10) @ [char_of (48 + n mod 10)])"

declare dec_digits.simps [simp del]

definition itoa :: "int \<Rightarrow> string" where
  "itoa i = (if i < 0 then ''-'' @ dec_digits (nat (- i)) else dec_digits (nat i))"

section \<open>Go errors\<close>

text \<open>
  A message is a list of fragments: literal text, a rendered \<open>uuid\<close> (\<open>%s\<close> calls its
  \<open>String\<close> method, a third-party function, so rendering takes it as a parameter) or a rendered
  integer. \<open>ErrText\<close> is \<open>errors.New\<close> or \<open>fmt.Errorf\<close> without \<open>%w\<close>; \<open>Wrap\<close> is \<open>fmt.Errorf\<close>
  whose last verb is \<open>%w\<close>. The others are the values the code inspects, plus every other error
  of a library, which the code only prints.
\<close>

datatype frag = Lit string | Uid uuid | Num int

datatype goerr =
    ErrText "frag list"
  | Wrap "frag list" goerr
  | HTTPError int string
  | DeadlineExceeded
  | Canceled
  | EOF
  | ErrNoRows
  | Foreign string

primrec frag_text :: "(uuid \<Rightarrow> string) \<Rightarrow> frag \<Rightarrow> string" where
  "frag_text us (Lit s) = s"
| "frag_text us (Uid u) = us u"
| "frag_text us (Num n) = itoa n"

definition msg_text :: "(uuid \<Rightarrow> string) \<Rightarrow> frag list \<Rightarrow> string" where
  "msg_text us fs = concat (map (frag_text us) fs)"

text \<open>The \<open>Error()\<close> method.\<close>

primrec err_msg :: "(uuid \<Rightarrow> string) \<Rightarrow> goerr \<Rightarrow> string" where
  "err_msg us (ErrText fs) = msg_text us fs"
| "err_msg us (Wrap fs e) = msg_text us fs @ err_msg us e"
| "err_msg us (HTTPError c t) = t"
| "err_msg us DeadlineExceeded = ''context deadline exceeded''"
| "err_msg us Canceled = ''context canceled''"
| "err_msg us EOF = ''EOF''"
| "err_msg us ErrNoRows = ''no rows in result set''"
| "err_msg us (Foreign t) = t"

text \<open>\<open>errors.Is\<close> and \<open>errors.As\<close> walk the \<open>%w\<close> chain from the outside in.\<close>

primrec errors_Is :: "goerr \<Rightarrow> goerr \<Rightarrow> bool" where
  "errors_Is (ErrText fs) t = (t = ErrText fs)"
| "errors_Is (Wrap fs e) t = (t = Wrap fs e \<or> errors_Is e t)"
| "errors_Is (HTTPError c x) t = (t = HTTPError c x)"
| "errors_Is DeadlineExceeded t = (t = DeadlineExceeded)"
| "errors_Is Canceled t = (t = Canceled)"
| "errors_Is EOF t = (t = EOF)"
| "errors_Is ErrNoRows t = (t = ErrNoRows)"
| "errors_Is (Foreign x) t = (t = Foreign x)"

fun errors_As_HTTPError :: "goerr \<Rightarrow> int option" where
  "errors_As_HTTPError (HTTPError c x) = Some c"
| "errors_As_HTTPError (Wrap fs e) = errors_As_HTTPError e"
| "errors_As_HTTPError e = None"

text \<open>The error at the end of a chain.\<close>

fun root_err :: "goerr \<Rightarrow> goerr" where
  "root_err (Wrap fs e) = root_err e"
| "root_err e = e"

section \<open>Outcomes\<close>

text \<open>
  \<open>Panic\<close> is a Go run-time panic (a nil dereference, an index out of range). No function of the
  repository recovers, so a panic ends whatever calls it (chi's Recoverer, third-party, then answers the
  HTTP request with 500).
\<close>

datatype 'a res = Ok 'a | Error goerr | Panic

primrec of_sum :: "goerr + 'a \<Rightarrow> 'a res" where
  "of_sum (Inl e) = Error e"
| "of_sum (Inr a) = Ok a"

text \<open>An operation on a world: an outcome and the world it leaves.\<close>

type_synonym ('w, 'a) op = "'w \<Rightarrow> 'a res \<times> 'w"

definition ret :: "'a res \<Rightarrow> ('w, 'a) op" where
  "ret r w = (r, w)"

text \<open>\<open>x, err := m(); if err != nil { on_err } else { on_ok }\<close>; a panic goes straight up.\<close>

definition try_call ::
  "('w, 'a) op \<Rightarrow> ('a \<Rightarrow> ('w, 'b) op) \<Rightarrow> (goerr \<Rightarrow> ('w, 'b) op) \<Rightarrow> ('w, 'b) op" where
  "try_call m on_ok on_err w =
     (case m w of
        (Ok a, w') \<Rightarrow> on_ok a w'
      | (Error e, w') \<Rightarrow> on_err e w'
      | (Panic, w') \<Rightarrow> (Panic, w'))"

text \<open>\<open>if err := m(); err != nil { log }\<close>: the error is only logged (or dropped).\<close>

definition log_err :: "('w, 'a) op \<Rightarrow> ('w, 'b) op \<Rightarrow> ('w, 'b) op" where
  "log_err m k = try_call m (\<lambda>_. k) (\<lambda>_. k)"

text \<open>\<open>if err != nil { return fmt.Errorf("<fs>%w", err) }\<close>.\<close>

definition wrap_err :: "frag list \<Rightarrow> ('w, 'a) op \<Rightarrow> ('w, 'a) op" where
  "wrap_err fs m = try_call m (\<lambda>a. ret (Ok a)) (\<lambda>e. ret (Error (Wrap fs e)))"

lemma ret_apply [simp, res_simps]: "ret r w = (r, w)"
  by (simp add: ret_def)

lemma try_call_Ok [res_simps]: "m w = (Ok a, w') \<Longrightarrow> try_call m f g w = f a w'"
  by (simp add: try_call_def)

lemma try_call_Error [res_simps]: "m w = (Error e, w') \<Longrightarrow> try_call m f g w = g e w'"
  by (simp add: try_call_def)

lemma try_call_Panic [res_simps]: "m w = (Panic, w') \<Longrightarrow> try_call m f g w = (Panic, w')"
  by (simp add: try_call_def)

lemma log_err_Ok [res_simps]: "m w = (Ok a, w') \<Longrightarrow> log_err m k w = k w'"
  by (simp add: log_err_def try_call_Ok)

lemma log_err_Error [res_simps]: "m w = (Error e, w') \<Longrightarrow> log_err m k w = k w'"
  by (simp add: log_err_def try_call_Error)

lemma wrap_err_Ok [res_simps]: "m w = (Ok a, w') \<Longrightarrow> wrap_err fs m w = (Ok a, w')"
  by (simp add: wrap_err_def try_call_Ok)

lemma wrap_err_Error [res_simps]:
  "m w = (Error e, w') \<Longrightarrow> wrap_err fs m w = (Error (Wrap fs e), w')"
  by (simp add: wrap_err_def try_call_Error)

lemma snd_wrap_err [simp]: "snd (wrap_err fs m w) = snd (m w)"
  by (auto simp: wrap_err_def try_call_def split: prod.splits res.splits)

section \<open>Relations kept by operations\<close>

text \<open>
  \<open>keeps R m\<close>: whatever \<open>m\<close> returns, it leaves a world related to the one it started from. For a
  preorder \<open>R\<close> this composes along \<open>try_call\<close>, so a property of a whole handler follows from the
  same property of the calls it makes, on every branch.
\<close>

definition keeps :: "('w \<Rightarrow> 'w \<Rightarrow> bool) \<Rightarrow> ('w, 'a) op \<Rightarrow> bool" where
  "keeps R m \<longleftrightarrow> (\<forall>w. R w (snd (m w)))"

definition preorder_on_worlds :: "('w \<Rightarrow> 'w \<Rightarrow> bool) \<Rightarrow> bool" where
  "preorder_on_worlds R \<longleftrightarrow> reflp R \<and> transp R"

lemma keepsI: "(\<And>w. R w (snd (m w))) \<Longrightarrow> keeps R m"
  by (simp add: keeps_def)

lemma keepsD: "keeps R m \<Longrightarrow> R w (snd (m w))"
  by (simp add: keeps_def)

lemma keeps_result: "keeps R m \<Longrightarrow> m w = (r, w') \<Longrightarrow> R w w'"
  by (metis keepsD snd_conv)

lemma keeps_ret [pres_intros]: "preorder_on_worlds R \<Longrightarrow> keeps R (ret r)"
  by (simp add: keeps_def preorder_on_worlds_def reflpD)

lemma keeps_try_call [pres_intros]:
  assumes "preorder_on_worlds R" "keeps R m" "\<And>a. keeps R (f a)" "\<And>e. keeps R (g e)"
  shows "keeps R (try_call m f g)"
proof (rule keepsI)
  fix w
  obtain r w1 where m: "m w = (r, w1)" by (cases "m w")
  have "R w w1" using keeps_result [OF assms(2) m] .
  moreover have "R w1 (snd (f a w1))" "R w1 (snd (g e w1))" for a e
    using assms(3,4) by (simp_all add: keepsD)
  ultimately show "R w (snd (try_call m f g w))"
    using assms(1) m unfolding preorder_on_worlds_def try_call_def
    by (cases r) (auto dest: transpD)
qed

lemma keeps_log_err [pres_intros]:
  assumes "preorder_on_worlds R" "keeps R m" "keeps R k"
  shows "keeps R (log_err m k)"
  unfolding log_err_def using assms by (intro keeps_try_call)

lemma keeps_wrap_err [pres_intros]: "keeps R m \<Longrightarrow> keeps R (wrap_err fs m)"
  by (simp add: keeps_def)

lemma keeps_if [pres_intros]: "keeps R m \<Longrightarrow> keeps R n \<Longrightarrow> keeps R (if b then m else n)"
  by simp

lemma preorder_on_worldsI:
  assumes "\<And>w. R w w" "\<And>u v w. R u v \<Longrightarrow> R v w \<Longrightarrow> R u w"
  shows "preorder_on_worlds R"
  unfolding preorder_on_worlds_def using assms by (blast intro: reflpI transpI)

section \<open>Operations that never panic\<close>

definition panic_free :: "('w, 'a) op \<Rightarrow> bool" where
  "panic_free m \<longleftrightarrow> (\<forall>w. fst (m w) \<noteq> Panic)"

lemma panic_freeI: "(\<And>w. fst (m w) \<noteq> Panic) \<Longrightarrow> panic_free m"
  by (simp add: panic_free_def)

lemma panic_freeD: "panic_free m \<Longrightarrow> fst (m w) \<noteq> Panic"
  by (simp add: panic_free_def)

lemma panic_free_ret [pf_intros]: "r \<noteq> Panic \<Longrightarrow> panic_free (ret r)"
  by (simp add: panic_free_def)

lemma panic_free_try_call [pf_intros]:
  assumes "panic_free m" "\<And>a. panic_free (f a)" "\<And>e. panic_free (g e)"
  shows "panic_free (try_call m f g)"
proof (rule panic_freeI)
  fix w
  obtain r w1 where m: "m w = (r, w1)" by (cases "m w")
  then have "r \<noteq> Panic" using panic_freeD [OF assms(1), of w] by simp
  then show "fst (try_call m f g w) \<noteq> Panic"
    using m assms(2,3) by (cases r) (simp_all add: try_call_def panic_freeD)
qed

lemma panic_free_log_err [pf_intros]: "panic_free m \<Longrightarrow> panic_free k \<Longrightarrow> panic_free (log_err m k)"
  unfolding log_err_def by (intro panic_free_try_call)

lemma panic_free_wrap_err [pf_intros]: "panic_free m \<Longrightarrow> panic_free (wrap_err fs m)"
  unfolding wrap_err_def by (intro panic_free_try_call panic_free_ret) simp_all

lemma panic_free_if [pf_intros]:
  "panic_free m \<Longrightarrow> panic_free n \<Longrightarrow> panic_free (if b then m else n)"
  by simp

section \<open>Facts about errors\<close>

lemma errors_Is_root:
  assumes "\<And>fs e. t \<noteq> Wrap fs e"
  shows "errors_Is e t \<longleftrightarrow> root_err e = t"
  using assms by (induction e) auto

lemma errors_As_root:
  "errors_As_HTTPError e = (case root_err e of HTTPError c x \<Rightarrow> Some c | _ \<Rightarrow> None)"
  by (induction e rule: root_err.induct) auto

section \<open>Facts about lists used as tables\<close>

lemma find_append:
  "find P (xs @ ys) = (case find P xs of None \<Rightarrow> find P ys | Some x \<Rightarrow> Some x)"
  by (induction xs) auto

lemma find_map_if:
  assumes "\<And>x. key (f x) = key x"
  shows "find (\<lambda>x. key x = k) (map (\<lambda>x. if P x then f x else x) xs)
       = map_option (\<lambda>x. if P x then f x else x) (find (\<lambda>x. key x = k) xs)"
  using assms by (induction xs) auto

lemma find_Some_iff_distinct:
  "distinct (map key xs) \<Longrightarrow> find (\<lambda>x. key x = k) xs = Some x \<longleftrightarrow> x \<in> set xs \<and> key x = k"
  by (induction xs) (auto simp: image_iff)

lemma find_None_keys: "find (\<lambda>x. key x = k) xs = None \<longleftrightarrow> k \<notin> key ` set xs"
  by (auto simp: find_None_iff)

lemma map_keys_map_if:
  "(\<And>x. key (f x) = key x) \<Longrightarrow> map key (map (\<lambda>x. if P x then f x else x) xs) = map key xs"
  by (induction xs) auto

lemma ball_map_if:
  assumes "\<And>x. Q x \<Longrightarrow> Q (f x)" "\<forall>x \<in> set xs. Q x"
  shows "\<forall>x \<in> set (map (\<lambda>x. if P x then f x else x) xs). Q x"
  using assms by (induction xs) auto

lemma filter_key_empty: "filter (\<lambda>x. key x = k) xs = [] \<longleftrightarrow> find (\<lambda>x. key x = k) xs = None"
  by (induction xs) auto

text \<open>The head of a list sorted by a key is a minimum, the first of its equals.\<close>

lemma sort_key_eq_Nil [simp]: "sort_key f xs = [] \<longleftrightarrow> xs = []"
  by (metis set_empty set_sort)

lemma hd_sort_key_in: "xs \<noteq> [] \<Longrightarrow> hd (sort_key f xs) \<in> set xs"
  by (metis hd_in_set set_sort sort_key_eq_Nil)

lemma hd_sort_key_least:
  assumes "x \<in> set xs"
  shows "f (hd (sort_key f xs)) \<le> f x"
proof -
  obtain y ys where ys: "sort_key f xs = y # ys"
    using assms by (metis empty_iff empty_set neq_Nil_conv sort_key_eq_Nil)
  have "sorted (map f (y # ys))" by (metis sorted_sort_key ys)
  moreover have "x \<in> set (y # ys)" using assms by (metis set_sort ys)
  ultimately show ?thesis using ys by auto
qed

end
