(* ===== verification/Interfaces.thy ===== *)
theory Interfaces
  imports Prelude
begin

text \<open>
  The Go structs that cross component boundaries and the four Go interfaces of the program. A Go
  interface value is a record of its methods over a world \<open>'w\<close>: \<open>TxStore\<close> and \<open>Submitter\<close> of
  internal/submission/engine.go, \<open>Store\<close> and \<open>HorizonClient\<close> of internal/channelaccounts/pool.go.
  The locales below state what a client may rely on when no fault strikes; the clients' lemmas are
  proved in them, and the theories that provide the operations interpret them.
\<close>

section \<open>Transactions\<close>

text \<open>\<open>TxStatus\<close> is a named string type with five constants.\<close>

type_synonym TxStatus = string

definition TxStatusPending :: TxStatus where
  "TxStatusPending = ''pending''"

definition TxStatusSubmitting :: TxStatus where
  "TxStatusSubmitting = ''submitting''"

definition TxStatusSubmitted :: TxStatus where
  "TxStatusSubmitted = ''submitted''"

definition TxStatusFailed :: TxStatus where
  "TxStatusFailed = ''failed''"

definition TxStatusConfirmed :: TxStatus where
  "TxStatusConfirmed = ''confirmed''"

lemmas TxStatus_defs = TxStatusPending_def TxStatusSubmitting_def TxStatusSubmitted_def
  TxStatusFailed_def TxStatusConfirmed_def

lemma TxStatus_distinct [simp]:
  "distinct [TxStatusPending, TxStatusSubmitting, TxStatusSubmitted, TxStatusFailed,
     TxStatusConfirmed]"
  by (simp add: TxStatus_defs)

lemma TxStatus_neq [simp]:
  "TxStatusPending \<noteq> TxStatusSubmitting" "TxStatusPending \<noteq> TxStatusSubmitted"
  "TxStatusPending \<noteq> TxStatusFailed" "TxStatusPending \<noteq> TxStatusConfirmed"
  "TxStatusSubmitting \<noteq> TxStatusPending" "TxStatusSubmitting \<noteq> TxStatusSubmitted"
  "TxStatusSubmitting \<noteq> TxStatusFailed" "TxStatusSubmitting \<noteq> TxStatusConfirmed"
  "TxStatusSubmitted \<noteq> TxStatusPending" "TxStatusSubmitted \<noteq> TxStatusSubmitting"
  "TxStatusSubmitted \<noteq> TxStatusFailed" "TxStatusSubmitted \<noteq> TxStatusConfirmed"
  "TxStatusFailed \<noteq> TxStatusPending" "TxStatusFailed \<noteq> TxStatusSubmitting"
  "TxStatusFailed \<noteq> TxStatusSubmitted" "TxStatusFailed \<noteq> TxStatusConfirmed"
  "TxStatusConfirmed \<noteq> TxStatusPending" "TxStatusConfirmed \<noteq> TxStatusSubmitting"
  "TxStatusConfirmed \<noteq> TxStatusSubmitted" "TxStatusConfirmed \<noteq> TxStatusFailed"
  by (simp_all add: TxStatus_defs)

record Transaction =
  tx_ID :: uuid
  tx_EnvelopeXDR :: string
  tx_Status :: TxStatus
  tx_ChannelAccount :: string
  tx_RetryCount :: int
  tx_LastError :: string
  tx_CreatedAt :: time
  tx_UpdatedAt :: time

section \<open>Channel accounts\<close>

type_synonym AccountStatus = string

definition AccountStatusIdle :: AccountStatus where
  "AccountStatusIdle = ''idle''"

definition AccountStatusLeased :: AccountStatus where
  "AccountStatusLeased = ''leased''"

lemma AccountStatus_neq [simp]:
  "AccountStatusIdle \<noteq> AccountStatusLeased" "AccountStatusLeased \<noteq> AccountStatusIdle"
  by (simp_all add: AccountStatusIdle_def AccountStatusLeased_def)

text \<open>\<open>LastUsedAt\<close> is a pointer, nil before the first release.\<close>

record ChannelAccount =
  ca_PublicKey :: string
  ca_EncryptedSecret :: string
  ca_Status :: AccountStatus
  ca_SequenceNumber :: i64
  ca_LastUsedAt :: "time option"

text \<open>What the pool hands to its callers.\<close>

record Account =
  acc_PublicKey :: string
  acc_EncryptedSecret :: string
  acc_SequenceNumber :: i64

section \<open>Results of the network\<close>

text \<open>The one field of \<open>stellar.TransactionResult\<close> the code reads: \<open>ResultCodes.Operation\<close>.\<close>

record TransactionResult =
  rc_Operation :: bool

section \<open>The interfaces as records of methods\<close>

record 'w TxStore =
  ts_SaveTransaction :: "Transaction \<Rightarrow> ('w, unit) op"
  ts_UpdateTransactionStatus :: "uuid \<Rightarrow> TxStatus \<Rightarrow> string \<Rightarrow> string \<Rightarrow> ('w, unit) op"
  ts_IncrementRetry :: "uuid \<Rightarrow> ('w, unit) op"
  ts_GetPendingTransactions :: "int \<Rightarrow> ('w, Transaction list) op"
  ts_GetTransaction :: "uuid \<Rightarrow> ('w, Transaction) op"
  ts_GetTransactionForRetry :: "uuid \<Rightarrow> ('w, Transaction) op"
  ts_UpdateSequenceNumber :: "string \<Rightarrow> i64 \<Rightarrow> ('w, unit) op"

text \<open>\<open>LeaseChannelAccount\<close> returns a pointer, which may be nil.\<close>

record 'w PoolStore =
  ps_LeaseChannelAccount :: "('w, ChannelAccount option) op"
  ps_ReleaseChannelAccount :: "string \<Rightarrow> time \<Rightarrow> ('w, unit) op"
  ps_ListChannelAccounts :: "('w, ChannelAccount list) op"
  ps_UpdateSequenceNumberIfIdle :: "string \<Rightarrow> i64 \<Rightarrow> ('w, unit) op"
  ps_SaveChannelAccount :: "ChannelAccount \<Rightarrow> ('w, unit) op"

record 'w Submitter =
  sm_SubmitTransaction :: "string \<Rightarrow> ('w, TransactionResult option) op"

record 'w HorizonAPI =
  hz_Account :: "string \<Rightarrow> ('w, i64) op"

section \<open>Abstract views\<close>

text \<open>
  What a client can say about a stored transaction or account, without the table that holds it.
  \<open>av_chan\<close> and \<open>av_err\<close> are None while the columns are NULL.
\<close>

record tx_view =
  av_env :: string
  av_status :: TxStatus
  av_chan :: "string option"
  av_retry :: int
  av_err :: "string option"

record acct_view =
  aw_secret :: string
  aw_status :: AccountStatus
  aw_seq :: i64
  aw_last :: "time option"

text \<open>The largest value of an INT column, where the retry counter is stored.\<close>

definition int4_max :: int where
  "int4_max = 2147483647"

section \<open>What a transaction store promises when no fault strikes\<close>

text \<open>
  \<open>quiet w\<close>: from here on every call to the database succeeds and no other session holds a lock.
  \<open>txs\<close> and \<open>accts\<close> are the contents a client can observe.
\<close>

locale tx_store =
  fixes S :: "'w TxStore"
    and quiet :: "'w \<Rightarrow> bool"
    and txs :: "'w \<Rightarrow> uuid \<Rightarrow> tx_view option"
    and accts :: "'w \<Rightarrow> string \<Rightarrow> acct_view option"
  assumes update_found: "quiet w \<Longrightarrow> txs w i = Some t \<Longrightarrow>
      \<exists>w'. ts_UpdateTransactionStatus S i st ch er w = (Ok (), w') \<and> quiet w' \<and>
        txs w' = (txs w)(i \<mapsto> t\<lparr>av_status := st, av_chan := Some ch, av_err := Some er\<rparr>) \<and>
        accts w' = accts w"
    and update_missing: "quiet w \<Longrightarrow> txs w i = None \<Longrightarrow>
      \<exists>e w'. ts_UpdateTransactionStatus S i st ch er w = (Error e, w') \<and> quiet w' \<and>
        txs w' = txs w \<and> accts w' = accts w"
    and increment: "quiet w \<Longrightarrow> txs w i = Some t \<Longrightarrow> 0 \<le> av_retry t \<Longrightarrow> av_retry t < int4_max \<Longrightarrow>
      \<exists>w'. ts_IncrementRetry S i w = (Ok (), w') \<and> quiet w' \<and>
        txs w' = (txs w)(i \<mapsto> t\<lparr>av_retry := av_retry t + 1\<rparr>) \<and> accts w' = accts w"
    and pending_frame: "quiet w \<Longrightarrow> ts_GetPendingTransactions S n w = (r, w') \<Longrightarrow>
      quiet w' \<and> txs w' = txs w \<and> accts w' = accts w"
    and pending_sound: "quiet w \<Longrightarrow> ts_GetPendingTransactions S n w = (Ok ts, w') \<Longrightarrow>
      tx \<in> set ts \<Longrightarrow>
      \<exists>t. txs w (tx_ID tx) = Some t \<and> av_status t = TxStatusPending \<and>
        av_env t = tx_EnvelopeXDR tx \<and> av_retry t = tx_RetryCount tx"
    and for_retry_frame: "quiet w \<Longrightarrow> ts_GetTransactionForRetry S i w = (rt, w') \<Longrightarrow>
      quiet w' \<and> txs w' = txs w \<and> accts w' = accts w"
    and for_retry_sound: "quiet w \<Longrightarrow> ts_GetTransactionForRetry S i w = (Ok tx, w') \<Longrightarrow>
      \<exists>t. txs w i = Some t \<and> tx_ID tx = i \<and> tx_Status tx = av_status t \<and>
        tx_EnvelopeXDR tx = av_env t \<and> tx_RetryCount tx = av_retry t"
    and for_retry_scannable: "quiet w \<Longrightarrow> txs w i = Some t \<Longrightarrow> av_chan t = Some ch \<Longrightarrow>
      av_err t = Some er \<Longrightarrow> \<exists>tx w'. ts_GetTransactionForRetry S i w = (Ok tx, w')"
    and set_seq: "quiet w \<Longrightarrow> accts w k = Some a \<Longrightarrow>
      \<exists>w'. ts_UpdateSequenceNumber S k q w = (Ok (), w') \<and> quiet w' \<and>
        accts w' = (accts w)(k \<mapsto> a\<lparr>aw_seq := q\<rparr>) \<and> txs w' = txs w"

section \<open>What an account store promises when no fault strikes\<close>

locale pool_store =
  fixes P :: "'w PoolStore"
    and quiet :: "'w \<Rightarrow> bool"
    and txs :: "'w \<Rightarrow> uuid \<Rightarrow> tx_view option"
    and accts :: "'w \<Rightarrow> string \<Rightarrow> acct_view option"
  assumes lease_ok: "quiet w \<Longrightarrow> ps_LeaseChannelAccount P w = (Ok ra, w') \<Longrightarrow>
      \<exists>r v. ra = Some r \<and> accts w (ca_PublicKey r) = Some v \<and> aw_status v = AccountStatusIdle \<and>
        ca_SequenceNumber r = aw_seq v \<and> ca_EncryptedSecret r = aw_secret v \<and> quiet w' \<and>
        accts w' = (accts w)(ca_PublicKey r \<mapsto> v\<lparr>aw_status := AccountStatusLeased\<rparr>) \<and>
        txs w' = txs w"
    and lease_err: "quiet w \<Longrightarrow> ps_LeaseChannelAccount P w = (Error e, w') \<Longrightarrow>
      quiet w' \<and> accts w' = accts w \<and> txs w' = txs w"
    and lease_progress: "quiet w \<Longrightarrow> accts w k = Some v \<Longrightarrow> aw_status v = AccountStatusIdle \<Longrightarrow>
      \<exists>ra w'. ps_LeaseChannelAccount P w = (Ok ra, w')"
    and lease_no_panic: "fst (ps_LeaseChannelAccount P w) \<noteq> Panic"
    and release: "quiet w \<Longrightarrow> accts w k = Some v \<Longrightarrow>
      \<exists>w'. ps_ReleaseChannelAccount P k t w = (Ok (), w') \<and> quiet w' \<and>
        accts w' = (accts w)(k \<mapsto> v\<lparr>aw_status := AccountStatusIdle, aw_last := Some t\<rparr>) \<and>
        txs w' = txs w"
    and list_ok: "quiet w \<Longrightarrow> \<exists>rs w'. ps_ListChannelAccounts P w = (Ok rs, w') \<and> quiet w' \<and>
        accts w' = accts w \<and> txs w' = txs w \<and> distinct (map ca_PublicKey rs) \<and>
        (\<forall>k v. accts w k = Some v \<longleftrightarrow> (\<exists>r \<in> set rs. ca_PublicKey r = k \<and>
           v = \<lparr>aw_secret = ca_EncryptedSecret r, aw_status = ca_Status r,
                aw_seq = ca_SequenceNumber r, aw_last = ca_LastUsedAt r\<rparr>))"
    and set_seq_if_idle: "quiet w \<Longrightarrow> accts w k = Some v \<Longrightarrow>
      \<exists>w'. ps_UpdateSequenceNumberIfIdle P k n w = (Ok (), w') \<and> quiet w' \<and> txs w' = txs w \<and>
        accts w' = (if aw_status v = AccountStatusIdle
                    then (accts w)(k \<mapsto> v\<lparr>aw_seq := n\<rparr>) else accts w)"
    and save_new: "quiet w \<Longrightarrow> accts w (ca_PublicKey a) = None \<Longrightarrow>
      \<exists>w'. ps_SaveChannelAccount P a w = (Ok (), w') \<and> quiet w' \<and> txs w' = txs w \<and>
        accts w' = (accts w)(ca_PublicKey a \<mapsto>
          \<lparr>aw_secret = ca_EncryptedSecret a, aw_status = ca_Status a,
           aw_seq = ca_SequenceNumber a, aw_last = ca_LastUsedAt a\<rparr>)"
    and save_dup: "quiet w \<Longrightarrow> accts w (ca_PublicKey a) = Some v \<Longrightarrow>
      \<exists>e w'. ps_SaveChannelAccount P a w = (Error e, w') \<and> quiet w' \<and> txs w' = txs w \<and>
        accts w' = accts w"

section \<open>Relations every store call keeps, whatever the faults\<close>

text \<open>
  The engine moves a transaction only to these states. A relation that the store's calls keep for
  them, when they are about an id in \<open>I\<close>, is kept by the engine's handlers that work on such an id,
  on every branch and under every fault.
\<close>

definition engine_targets :: "TxStatus set" where
  "engine_targets = {TxStatusSubmitting, TxStatusFailed, TxStatusConfirmed}"

lemma engine_targets_iff [simp]:
  "TxStatusSubmitting \<in> engine_targets" "TxStatusFailed \<in> engine_targets"
  "TxStatusConfirmed \<in> engine_targets"
  by (simp_all add: engine_targets_def)

locale kept_by_store =
  fixes S :: "'w TxStore" and P :: "'w PoolStore" and R :: "'w \<Rightarrow> 'w \<Rightarrow> bool" and I :: "uuid set"
  assumes preorder: "preorder_on_worlds R"
    and kept_update: "st \<in> engine_targets \<Longrightarrow> i \<in> I \<Longrightarrow> keeps R (ts_UpdateTransactionStatus S i st ch er)"
    and kept_pending: "keeps R (ts_GetPendingTransactions S n)"
    and kept_for_retry: "keeps R (ts_GetTransactionForRetry S i)"
    and kept_seq: "keeps R (ts_UpdateSequenceNumber S k q)"
    and kept_lease: "keeps R (ps_LeaseChannelAccount P)"
    and kept_release: "keeps R (ps_ReleaseChannelAccount P k t)"
    and kept_list: "keeps R (ps_ListChannelAccounts P)"
    and kept_seq_if_idle: "keeps R (ps_UpdateSequenceNumberIfIdle P k q)"

locale kept_by_store_and_retry = kept_by_store +
  assumes kept_increment: "i \<in> I \<Longrightarrow> keeps R (ts_IncrementRetry S i)"

end
