(* ===== verification/Bytes.thy ===== *)
theory Bytes
  imports Prelude
begin

text \<open>
  The functions of Go's strings and bytes packages that the API and its client use, on strings as
  sequences of bytes. \<open>TrimSpace\<close> is modelled for ASCII white space; the program trims text whose
  first and last bytes other than ASCII white space are ASCII.
\<close>

definition newline :: string where
  "newline = [CHR 0x0A]"

definition has_prefix :: "string \<Rightarrow> string \<Rightarrow> bool" where
  "has_prefix s p = (take (length p) s = p)"

definition trim_prefix :: "string \<Rightarrow> string \<Rightarrow> string" where
  "trim_prefix s p = (if has_prefix s p then drop (length p) s else s)"

text \<open>\<open>Split(s, "\n")\<close>.\<close>

fun split_lines :: "string \<Rightarrow> string list" where
  "split_lines [] = [[]]"
| "split_lines (c # cs) =
     (if c = CHR 0x0A then [] # split_lines cs
      else (case split_lines cs of [] \<Rightarrow> [[c]] | l # ls \<Rightarrow> (c # l) # ls))"

text \<open>
  The UTF-8 encodings of the characters for which \<open>unicode.IsSpace\<close> holds. \<open>TrimSpace\<close> removes them,
  as often as they occur, from both ends.
\<close>

definition space_seqs :: "string list" where
  "space_seqs = [[CHR '' ''], [CHR 0x09], [CHR 0x0A], [CHR 0x0B], [CHR 0x0C], [CHR 0x0D],
     [CHR 0xC2, CHR 0x85], [CHR 0xC2, CHR 0xA0], [CHR 0xE1, CHR 0x9A, CHR 0x80],
     [CHR 0xE2, CHR 0x80, CHR 0x80], [CHR 0xE2, CHR 0x80, CHR 0x81], [CHR 0xE2, CHR 0x80, CHR 0x82],
     [CHR 0xE2, CHR 0x80, CHR 0x83], [CHR 0xE2, CHR 0x80, CHR 0x84], [CHR 0xE2, CHR 0x80, CHR 0x85],
     [CHR 0xE2, CHR 0x80, CHR 0x86], [CHR 0xE2, CHR 0x80, CHR 0x87], [CHR 0xE2, CHR 0x80, CHR 0x88],
     [CHR 0xE2, CHR 0x80, CHR 0x89], [CHR 0xE2, CHR 0x80, CHR 0x8A], [CHR 0xE2, CHR 0x80, CHR 0xA8],
     [CHR 0xE2, CHR 0x80, CHR 0xA9], [CHR 0xE2, CHR 0x80, CHR 0xAF], [CHR 0xE2, CHR 0x81, CHR 0x9F],
     [CHR 0xE3, CHR 0x80, CHR 0x80]]"

function trim_front :: "string list \<Rightarrow> string \<Rightarrow> string" where
  "trim_front ps s =
     (case List.find (\<lambda>p. p \<noteq> [] \<and> has_prefix s p) ps of
        None \<Rightarrow> s
      | Some p \<Rightarrow> trim_front ps (drop (length p) s))"
  by pat_completeness auto

termination
proof (relation "measure (\<lambda>(ps, s). length s)")
  fix ps s p assume "List.find (\<lambda>p. p \<noteq> [] \<and> has_prefix s p) ps = Some p"
  then have "p \<noteq> []" "take (length p) s = p" by (auto simp: find_Some_iff has_prefix_def)
  then have "0 < length p \<and> length p \<le> length s" by (metis length_greater_0_conv length_take min.cobounded1)
  then show "((ps, drop (length p) s), ps, s) \<in> measure (\<lambda>(ps, s). length s)"
    by (cases p; cases s) auto
qed simp

declare trim_front.simps [simp del]

definition trim_space :: "string \<Rightarrow> string" where
  "trim_space s = rev (trim_front (map rev space_seqs) (rev (trim_front space_seqs s)))"

section \<open>Bodies of HTTP messages\<close>

text \<open>
  A body is the list of the results of its \<open>Read\<close> calls, each some bytes and possibly an error (\<open>EOF\<close>
  at the end). \<open>read_all\<close> is \<open>io.ReadAll\<close> up to the first error.
\<close>

type_synonym http_body = "(string \<times> goerr option) list"

fun read_all :: "http_body \<Rightarrow> string" where
  "read_all [] = []"
| "read_all ((s, None) # rs) = s @ read_all rs"
| "read_all ((s, Some e) # rs) = s"

section \<open>Facts\<close>

lemma has_prefix_iff: "has_prefix s p \<longleftrightarrow> (\<exists>r. s = p @ r)"
  by (auto simp: has_prefix_def intro: exI [of _ "drop (length p) s"])
     (metis append_take_drop_id)

lemma has_prefix_append [simp]: "has_prefix (p @ r) p"
  by (simp add: has_prefix_def)

lemma trim_prefix_append [simp]: "trim_prefix (p @ r) p = r"
  by (simp add: trim_prefix_def)

lemma split_lines_ne [simp]: "split_lines s \<noteq> []"
  by (induction s) (auto split: list.split)

lemma split_lines_line: "CHR 0x0A \<notin> set l \<Longrightarrow> split_lines l = [l]"
  by (induction l) auto

lemma split_lines_cons: "CHR 0x0A \<notin> set l \<Longrightarrow> split_lines (l @ newline @ s) = l # split_lines s"
  by (induction l) (auto simp: newline_def)

lemma split_lines_newline: "split_lines (newline @ s) = [] # split_lines s"
  by (simp add: newline_def)

text \<open>Trimming text that starts and ends with printable ASCII removes the newlines after it.\<close>

lemma trim_front_keep:
  assumes "\<forall>p \<in> set ps. p \<noteq> [] \<longrightarrow> hd p \<noteq> c"
  shows "trim_front ps (c # s) = c # s"
proof -
  have "\<not> (p \<noteq> [] \<and> has_prefix (c # s) p)" if "p \<in> set ps" for p
    using assms that by (cases p) (auto simp: has_prefix_def)
  then have "List.find (\<lambda>p. p \<noteq> [] \<and> has_prefix (c # s) p) ps = None" by (simp add: find_None_iff)
  then show ?thesis by (subst trim_front.simps) simp
qed

definition printable :: "char \<Rightarrow> bool" where
  "printable c \<longleftrightarrow> (0x20 :: nat) < of_char c \<and> of_char c < (0x7F :: nat)"

lemma trim_front_printable:
  assumes "printable c"
  shows "trim_front space_seqs (c # s) = c # s"
    and "trim_front (map rev space_seqs) (c # s) = c # s"
proof -
  have "\<forall>p \<in> set space_seqs \<union> set (map rev space_seqs). \<not> printable (hd p)"
    by (simp add: space_seqs_def printable_def)
  then show "trim_front space_seqs (c # s) = c # s" "trim_front (map rev space_seqs) (c # s) = c # s"
    using assms by (auto intro!: trim_front_keep)
qed

lemma trim_front_newlines:
  "trim_front (map rev space_seqs) (replicate n (CHR 0x0A) @ s) = trim_front (map rev space_seqs) s"
proof (induction n)
  case (Suc n)
  have "List.find (\<lambda>p. p \<noteq> [] \<and> has_prefix (CHR 0x0A # t) p) (map rev space_seqs) = Some [CHR 0x0A]" for t
    by (simp add: space_seqs_def has_prefix_def)
  then show ?case using Suc by (subst trim_front.simps) simp
qed simp

lemma trim_space_body:
  assumes "printable (hd b)" "printable (last b)" "b \<noteq> []"
  shows "trim_space (b @ replicate n (CHR 0x0A)) = b"
proof -
  obtain c cs where b: "b = c # cs" using assms(3) by (cases b) auto
  obtain d ds where r: "rev b = d # ds" using assms(3) by (cases "rev b") auto
  then have d: "d = last b" by (metis hd_rev list.sel(1))
  have "trim_front space_seqs (b @ replicate n (CHR 0x0A)) = b @ replicate n (CHR 0x0A)"
    using assms(1) b by (simp add: trim_front_printable)
  moreover have "trim_front (map rev space_seqs) (rev b) = rev b"
    unfolding r using assms(2) d by (simp add: trim_front_printable)
  ultimately show ?thesis
    using trim_front_newlines [of n "rev b"] by (simp add: trim_space_def)
qed

end
