(* ===== verification/Utf8.thy ===== *)
theory Utf8
  imports Bytes
begin

text \<open>
  Text encoded in UTF-8, as Go's unicode/utf8 and PostgreSQL agree on it: no surrogates, no overlong
  forms, nothing past U+10FFFF.
\<close>

section \<open>Characters\<close>

definition byte_in :: "char \<Rightarrow> nat \<Rightarrow> nat \<Rightarrow> bool" where
  "byte_in c lo hi \<longleftrightarrow> lo \<le> of_char c \<and> of_char c \<le> (hi :: nat)"

definition tail_byte :: "char \<Rightarrow> bool" where
  "tail_byte c \<longleftrightarrow> byte_in c 0x80 0xBF"

text \<open>The first two bytes of a character of two, three and four bytes.\<close>

definition lead2 :: "char \<Rightarrow> char \<Rightarrow> bool" where
  "lead2 a b \<longleftrightarrow> byte_in a 0xC2 0xDF \<and> tail_byte b"

definition lead3 :: "char \<Rightarrow> char \<Rightarrow> bool" where
  "lead3 a b \<longleftrightarrow>
     byte_in a 0xE0 0xE0 \<and> byte_in b 0xA0 0xBF \<or> byte_in a 0xE1 0xEC \<and> tail_byte b \<or>
     byte_in a 0xED 0xED \<and> byte_in b 0x80 0x9F \<or> byte_in a 0xEE 0xEF \<and> tail_byte b"

definition lead4 :: "char \<Rightarrow> char \<Rightarrow> bool" where
  "lead4 a b \<longleftrightarrow>
     byte_in a 0xF0 0xF0 \<and> byte_in b 0x90 0xBF \<or> byte_in a 0xF1 0xF3 \<and> tail_byte b \<or>
     byte_in a 0xF4 0xF4 \<and> byte_in b 0x80 0x8F"

text \<open>The length of the encoded character that starts a text whose first byte is not ASCII; 0 if invalid.\<close>

definition rune_len :: "string \<Rightarrow> nat" where
  "rune_len s =
     (if 2 \<le> length s \<and> lead2 (s ! 0) (s ! 1) then 2
      else if 3 \<le> length s \<and> lead3 (s ! 0) (s ! 1) \<and> tail_byte (s ! 2) then 3
      else if 4 \<le> length s \<and> lead4 (s ! 0) (s ! 1) \<and> tail_byte (s ! 2) \<and> tail_byte (s ! 3) then 4
      else 0)"

definition char_bytes :: "nat list \<Rightarrow> string" where
  "char_bytes ns = map char_of ns"

definition utf8_encode :: "nat \<Rightarrow> string" where
  "utf8_encode r =
     (if r < 0x80 then char_bytes [r]
      else if r < 0x800 then char_bytes [0xC0 + r div 64, 0x80 + r mod 64]
      else if r < 0x10000 then char_bytes [0xE0 + r div 4096, 0x80 + r div 64 mod 64, 0x80 + r mod 64]
      else char_bytes [0xF0 + r div 262144, 0x80 + r div 4096 mod 64, 0x80 + r div 64 mod 64, 0x80 + r mod 64])"

definition replacement :: string where
  "replacement = utf8_encode 0xFFFD"

text \<open>The text with every byte that is not UTF-8 replaced by U+FFFD.\<close>

function to_valid_utf8 :: "string \<Rightarrow> string" where
  "to_valid_utf8 [] = []"
| "to_valid_utf8 (c # cs) =
     (if of_char c < (0x80 :: nat) then c # to_valid_utf8 cs
      else let n = rune_len (c # cs) in
        if n = 0 then replacement @ to_valid_utf8 cs
        else take n (c # cs) @ to_valid_utf8 (drop n (c # cs)))"
  by pat_completeness auto
termination
  by (relation "measure length") (auto simp: Let_def)

declare to_valid_utf8.simps [simp del]

section \<open>Facts\<close>

lemma lead_exclusive:
  "lead2 a b \<Longrightarrow> \<not> lead3 a b'" "lead2 a b \<Longrightarrow> \<not> lead4 a b'" "lead3 a b \<Longrightarrow> \<not> lead2 a b'"
  "lead3 a b \<Longrightarrow> \<not> lead4 a b'" "lead4 a b \<Longrightarrow> \<not> lead2 a b'" "lead4 a b \<Longrightarrow> \<not> lead3 a b'"
  by (auto simp: lead2_def lead3_def lead4_def byte_in_def)

lemma rune_len_bound: "rune_len s \<le> length s"
  by (simp add: rune_len_def)

lemma rune_len_prefix:
  assumes "rune_len s \<noteq> 0"
  shows "rune_len (take (rune_len s) s @ t) = rune_len s"
proof -
  consider "rune_len s = 2" "2 \<le> length s" "lead2 (s ! 0) (s ! 1)"
    | "rune_len s = 3" "3 \<le> length s" "lead3 (s ! 0) (s ! 1)" "tail_byte (s ! 2)"
    | "rune_len s = 4" "4 \<le> length s" "lead4 (s ! 0) (s ! 1)" "tail_byte (s ! 2)" "tail_byte (s ! 3)"
    using assms by (auto simp: rune_len_def split: if_splits)
  moreover have nth: "(take k s @ t) ! i = s ! i" if "k \<le> length s" "i < k" for k i
    using that by (simp add: nth_append)
  ultimately show ?thesis
  proof cases
    case 1
    have "rune_len (take 2 s @ t) = 2"
      unfolding rune_len_def [of "take 2 s @ t"] using 1(2,3) by (simp add: nth)
    then show ?thesis by (simp only: 1(1))
  next
    case 2
    have "\<not> lead2 (s ! 0) (s ! 1)" using 2(3) lead_exclusive by blast
    then have "rune_len (take 3 s @ t) = 3"
      unfolding rune_len_def [of "take 3 s @ t"] using 2(2-4) by (simp add: nth)
    then show ?thesis by (simp only: 2(1))
  next
    case 3
    have "\<not> lead2 (s ! 0) (s ! 1)" "\<not> lead3 (s ! 0) (s ! 1)" using 3(3) lead_exclusive by blast+
    then have "rune_len (take 4 s @ t) = 4"
      unfolding rune_len_def [of "take 4 s @ t"] using 3(2-5) by (simp add: nth)
    then show ?thesis by (simp only: 3(1))
  qed
qed

text \<open>Text in UTF-8 is kept as it is; ASCII is such text.\<close>

definition valid_utf8 :: "string \<Rightarrow> bool" where
  "valid_utf8 s \<longleftrightarrow> to_valid_utf8 s = s"

lemma valid_utf8_ascii: "(\<forall>c \<in> set s. of_char c < (0x80 :: nat)) \<Longrightarrow> valid_utf8 s"
  unfolding valid_utf8_def by (induction s) (simp_all add: to_valid_utf8.simps)

lemma replacement_bytes: "replacement = [CHR 0xEF, CHR 0xBF, CHR 0xBD]"
proof -
  have "char_of (239 :: nat) = CHR 0xEF" "char_of (191 :: nat) = CHR 0xBF" "char_of (189 :: nat) = CHR 0xBD"
    by code_simp+
  then show ?thesis by (simp add: replacement_def utf8_encode_def char_bytes_def)
qed

lemma to_valid_utf8_Nil [simp]: "to_valid_utf8 s = [] \<longleftrightarrow> s = []"
proof (induction s rule: to_valid_utf8.induct)
  case (2 c cs)
  have "replacement \<noteq> []" by (simp add: replacement_bytes)
  then show ?case by (auto simp: to_valid_utf8.simps Let_def)
qed (simp add: to_valid_utf8.simps)

lemma to_valid_utf8_idem: "to_valid_utf8 (to_valid_utf8 s) = to_valid_utf8 s"
proof (induction s rule: to_valid_utf8.induct)
  case (2 c cs)
  let ?n = "rune_len (c # cs)"
  have r: "to_valid_utf8 (replacement @ t) = replacement @ to_valid_utf8 t" for t
  proof -
    have "rune_len (CHR 0xEF # CHR 0xBF # CHR 0xBD # t) = 3"
      by (simp add: rune_len_def lead2_def lead3_def tail_byte_def byte_in_def)
    then show ?thesis
      unfolding replacement_bytes by (simp add: to_valid_utf8.simps(2) [of "CHR 0xEF"] Let_def)
  qed
  have k: "to_valid_utf8 (take ?n (c # cs) @ t) = take ?n (c # cs) @ to_valid_utf8 t"
    if "?n \<noteq> 0" "\<not> of_char c < (0x80 :: nat)" for t
  proof -
    from that(1) obtain m where m: "?n = Suc m" by (cases ?n) auto
    then have "m \<le> length cs" using rune_len_bound [of "c # cs"] by simp
    then show ?thesis
      using rune_len_prefix [OF that(1), of t] that(2) m by (simp add: to_valid_utf8.simps(2))
  qed
  show ?case
  proof (cases "of_char c < (0x80 :: nat)")
    case False
    then show ?thesis
      using 2(2,3) r k by (cases "?n = 0") (simp_all add: to_valid_utf8.simps(2) [of c cs] Let_def)
  qed (use 2(1) in \<open>simp add: to_valid_utf8.simps\<close>)
qed (simp add: to_valid_utf8.simps)

text \<open>Replacing invalid bytes neither adds nor removes a NUL.\<close>

lemma to_valid_utf8_nul: "CHR 0x00 \<in> set (to_valid_utf8 s) \<longleftrightarrow> CHR 0x00 \<in> set s"
proof (induction s rule: to_valid_utf8.induct)
  case (2 c cs)
  let ?n = "rune_len (c # cs)"
  have r: "CHR 0x00 \<notin> set replacement" by (simp add: replacement_bytes)
  show ?case
  proof (cases "of_char c < (0x80 :: nat)")
    case True
    then show ?thesis using 2(1) by (simp add: to_valid_utf8.simps)
  next
    case high: False
    then have c: "c \<noteq> CHR 0x00" by auto
    show ?thesis
    proof (cases "?n = 0")
      case True
      then show ?thesis using 2(2) [OF high refl] high c r by (simp add: to_valid_utf8.simps)
    next
      case False
      have "set (c # cs) = set (take ?n (c # cs)) \<union> set (drop ?n (c # cs))"
        by (metis append_take_drop_id set_append)
      then have "CHR 0x00 \<in> set (c # cs) \<longleftrightarrow>
          CHR 0x00 \<in> set (take ?n (c # cs)) \<or> CHR 0x00 \<in> set (drop ?n (c # cs))" by blast
      moreover have "to_valid_utf8 (c # cs) = take ?n (c # cs) @ to_valid_utf8 (drop ?n (c # cs))"
        using high False by (simp only: to_valid_utf8.simps Let_def if_False)
      ultimately show ?thesis using 2(3) [OF high refl False] by (simp only: set_append Un_iff)
    qed
  qed
qed (simp add: to_valid_utf8.simps)

end
