(* ===== verification/Store.thy ===== *)
theory Store
  imports Interfaces Utf8
begin

text \<open>
  internal/store: the tables of migrations/*.sql and the SQL statements of transactions.go and
  channelaccounts.go as functions on them. A statement is one numbered round trip to the server:
  what happens to the n-th one (an error before or after it ran), the server's \<open>now()\<close> and the
  rows other sessions hold locked at that moment are functions of n carried in the state, so every
  theorem quantifies over all faults, clocks and interference of row locks.
\<close>

section \<open>Tables and the server's environment\<close>

text \<open>Nullable columns are options; every other column is NOT NULL in the migrations.\<close>

record tx_row =
  tr_id :: uuid
  tr_envelope_xdr :: string
  tr_status :: string
  tr_channel_account :: "string option"
  tr_retry_count :: int
  tr_last_error :: "string option"
  tr_created_at :: time
  tr_updated_at :: time

record acct_row =
  ar_public_key :: string
  ar_encrypted_secret :: string
  ar_status :: string
  ar_sequence_number :: i64
  ar_last_used_at :: "time option"

text \<open>
  The n-th round trip may fail before the statement takes effect (\<open>NotRun\<close>) or after it, when only
  the reply is lost (\<open>ReplyLost\<close>).
\<close>

datatype fault = NotRun goerr | ReplyLost goerr

text \<open>
  Conditions the server or the driver reports with an error of its own; the error values are
  third-party, hence the parameter \<open>pg_error\<close>. \<open>pg_scan_null\<close> is what the driver does when it scans
  a NULL text column into a Go \<open>string\<close>.
\<close>

datatype pg_condition = UniqueViolation | NumericOutOfRange | InvalidLimit | InvalidText

record pgdb =
  pg_transactions :: "tx_row list"
  pg_channel_accounts :: "acct_row list"
  pg_calls :: nat
  pg_fault :: "nat \<Rightarrow> fault option"
  pg_clock :: "nat \<Rightarrow> time"
  pg_locked :: "nat \<Rightarrow> string \<Rightarrow> bool"
  pg_error :: "pg_condition \<Rightarrow> goerr"
  pg_scan_null :: "goerr + string"

definition pg_tick :: "pgdb \<Rightarrow> pgdb" where
  "pg_tick d = d\<lparr>pg_calls := Suc (pg_calls d)\<rparr>"

definition pg_fault_now :: "pgdb \<Rightarrow> fault option" where
  "pg_fault_now d = pg_fault d (pg_calls d)"

text \<open>One statement in its own transaction: \<open>body\<close> sees the number of the round trip.\<close>

definition pg_stmt :: "(nat \<Rightarrow> (pgdb, 'a) op) \<Rightarrow> (pgdb, 'a) op" where
  "pg_stmt body d =
     (case pg_fault_now d of
        None \<Rightarrow> body (pg_calls d) (pg_tick d)
      | Some (NotRun e) \<Rightarrow> (Error e, pg_tick d)
      | Some (ReplyLost e) \<Rightarrow> (Error e, snd (body (pg_calls d) (pg_tick d))))"

definition int4_ok :: "int \<Rightarrow> bool" where
  "int4_ok i \<longleftrightarrow> - int4_max - 1 \<le> i \<and> i \<le> int4_max"

text \<open>
  What a TEXT column of a database in UTF-8 takes: text in UTF-8 without NUL. Envelopes are the texts
  the program gets from outside, so their INSERT checks it. The other texts of its statements are
  statuses, addresses, seeds and the texts of errors: a refused error text is a fault of its UPDATE.
\<close>

definition pg_text_ok :: "string \<Rightarrow> bool" where
  "pg_text_ok s \<longleftrightarrow> CHR 0x00 \<notin> set s \<and> valid_utf8 s"

section \<open>Statements on the table transactions\<close>

text \<open>\<open>INSERT INTO transactions (id, envelope_xdr, status, retry_count)\<close>: the other columns take
  their defaults, NULL and \<open>now()\<close>.\<close>

definition sql_insert_tx :: "Transaction \<Rightarrow> nat \<Rightarrow> (pgdb, unit) op" where
  "sql_insert_tx tx n d =
     (if \<not> pg_text_ok (tx_EnvelopeXDR tx) then (Error (pg_error d InvalidText), d)
      else if \<not> int4_ok (tx_RetryCount tx) then (Error (pg_error d NumericOutOfRange), d)
      else if tx_ID tx \<in> tr_id ` set (pg_transactions d)
      then (Error (pg_error d UniqueViolation), d)
      else (Ok (), d\<lparr>pg_transactions := pg_transactions d @
              [\<lparr>tr_id = tx_ID tx, tr_envelope_xdr = tx_EnvelopeXDR tx, tr_status = tx_Status tx,
                tr_channel_account = None, tr_retry_count = tx_RetryCount tx,
                tr_last_error = None, tr_created_at = pg_clock d n,
                tr_updated_at = pg_clock d n\<rparr>]\<rparr>))"

definition Store_SaveTransaction :: "Transaction \<Rightarrow> (pgdb, unit) op" where
  "Store_SaveTransaction tx =
     wrap_err [Lit ''saving transaction '', Uid (tx_ID tx), Lit '': '']
       (pg_stmt (sql_insert_tx tx))"

text \<open>An UPDATE by primary key returns the number of rows it changed.\<close>

definition update_tx_rows :: "uuid \<Rightarrow> (tx_row \<Rightarrow> tx_row) \<Rightarrow> tx_row list \<Rightarrow> tx_row list" where
  "update_tx_rows txid f rows = map (\<lambda>r. if tr_id r = txid then f r else r) rows"

definition affected_tx_rows :: "uuid \<Rightarrow> tx_row list \<Rightarrow> nat" where
  "affected_tx_rows txid rows = length (filter (\<lambda>r. tr_id r = txid) rows)"

definition sql_update_tx_status ::
  "uuid \<Rightarrow> TxStatus \<Rightarrow> string \<Rightarrow> string \<Rightarrow> nat \<Rightarrow> (pgdb, nat) op" where
  "sql_update_tx_status txid status channelAccount lastError n d =
     (Ok (affected_tx_rows txid (pg_transactions d)),
      d\<lparr>pg_transactions := update_tx_rows txid
          (\<lambda>r. r\<lparr>tr_status := status, tr_channel_account := Some channelAccount,
                 tr_last_error := Some lastError, tr_updated_at := pg_clock d n\<rparr>)
          (pg_transactions d)\<rparr>)"

definition Store_UpdateTransactionStatus ::
  "uuid \<Rightarrow> TxStatus \<Rightarrow> string \<Rightarrow> string \<Rightarrow> (pgdb, unit) op" where
  "Store_UpdateTransactionStatus txid status channelAccount lastError =
     try_call (pg_stmt (sql_update_tx_status txid status channelAccount lastError))
       (\<lambda>affected. if affected = 0 then ret (Error (ErrText [Lit ''transaction not found'']))
                   else ret (Ok ()))
       (\<lambda>e. ret (Error (Wrap [Lit ''updating transaction '', Uid txid, Lit '' status: ''] e)))"

text \<open>\<open>retry_count\<close> is an INT column: the server refuses a sum past its range.\<close>

definition sql_increment_retry :: "uuid \<Rightarrow> nat \<Rightarrow> (pgdb, unit) op" where
  "sql_increment_retry txid n d =
     (if list_all (\<lambda>r. tr_id r = txid \<longrightarrow> int4_ok (tr_retry_count r + 1)) (pg_transactions d)
      then (Ok (), d\<lparr>pg_transactions := update_tx_rows txid
              (\<lambda>r. r\<lparr>tr_retry_count := tr_retry_count r + 1, tr_updated_at := pg_clock d n\<rparr>)
              (pg_transactions d)\<rparr>)
      else (Error (pg_error d NumericOutOfRange), d))"

definition Store_IncrementRetry :: "uuid \<Rightarrow> (pgdb, unit) op" where
  "Store_IncrementRetry txid =
     wrap_err [Lit ''incrementing retry for '', Uid txid, Lit '': '']
       (pg_stmt (sql_increment_retry txid))"

text \<open>Scanning a row into the struct: a NULL in a \<open>string\<close> field is the driver's case.\<close>

primrec scan_text :: "goerr + string \<Rightarrow> string option \<Rightarrow> goerr + string" where
  "scan_text sn None = sn"
| "scan_text sn (Some s) = Inr s"

definition scan_tx :: "goerr + string \<Rightarrow> tx_row \<Rightarrow> Transaction res" where
  "scan_tx sn r =
     (case scan_text sn (tr_channel_account r) of
        Inl e \<Rightarrow> Error e
      | Inr chan \<Rightarrow>
          (case scan_text sn (tr_last_error r) of
             Inl e \<Rightarrow> Error e
           | Inr err \<Rightarrow> Ok \<lparr>tx_ID = tr_id r, tx_EnvelopeXDR = tr_envelope_xdr r,
                 tx_Status = tr_status r, tx_ChannelAccount = chan,
                 tx_RetryCount = tr_retry_count r, tx_LastError = err,
                 tx_CreatedAt = tr_created_at r, tx_UpdatedAt = tr_updated_at r\<rparr>))"

text \<open>\<open>pgx.CollectRows\<close>: the first row that does not scan fails the whole call.\<close>

fun collect_rows :: "('r \<Rightarrow> 'a res) \<Rightarrow> 'r list \<Rightarrow> 'a list res" where
  "collect_rows scan [] = Ok []"
| "collect_rows scan (r # rs) =
     (case scan r of
        Ok a \<Rightarrow> (case collect_rows scan rs of Ok as \<Rightarrow> Ok (a # as) | Error e \<Rightarrow> Error e
                 | Panic \<Rightarrow> Panic)
      | Error e \<Rightarrow> Error e
      | Panic \<Rightarrow> Panic)"

text \<open>\<open>WHERE status = 'pending' ORDER BY created_at ASC LIMIT n\<close>. SQL leaves the order of equal
  keys open; the model keeps the table's order among them.\<close>

definition pending_rows :: "tx_row list \<Rightarrow> tx_row list" where
  "pending_rows rows = sort_key tr_created_at (filter (\<lambda>r. tr_status r = ''pending'') rows)"

text \<open>
  \<open>pool.Query\<close> followed by \<open>CollectRows\<close>: an error before the statement runs comes from the first,
  every later one (the server's, a lost reply, a row that does not scan) from the second.
\<close>

definition pg_query ::
  "frag list \<Rightarrow> frag list \<Rightarrow> (nat \<Rightarrow> (pgdb, 'r list) op) \<Rightarrow> (pgdb \<Rightarrow> 'r \<Rightarrow> 'a res) \<Rightarrow> (pgdb, 'a list) op"
where
  "pg_query querying collecting body scan d =
     (case pg_fault_now d of
        Some (NotRun e) \<Rightarrow> (Error (Wrap querying e), pg_tick d)
      | Some (ReplyLost e) \<Rightarrow> (Error (Wrap collecting e), snd (body (pg_calls d) (pg_tick d)))
      | None \<Rightarrow> wrap_err collecting
          (try_call (body (pg_calls d)) (\<lambda>rows d'. (collect_rows (scan d') rows, d'))
             (\<lambda>e. ret (Error e))) (pg_tick d))"

definition sql_select_pending :: "int \<Rightarrow> nat \<Rightarrow> (pgdb, tx_row list) op" where
  "sql_select_pending limit n d =
     (if limit < 0 then (Error (pg_error d InvalidLimit), d)
      else (Ok (take (nat limit) (pending_rows (pg_transactions d))), d))"

definition Store_GetPendingTransactions :: "int \<Rightarrow> (pgdb, Transaction list) op" where
  "Store_GetPendingTransactions limit =
     pg_query [Lit ''querying pending transactions: ''] [Lit ''collecting pending transactions: '']
       (sql_select_pending limit) (\<lambda>d. scan_tx (pg_scan_null d))"

definition find_tx :: "uuid \<Rightarrow> tx_row list \<Rightarrow> tx_row option" where
  "find_tx txid rows = find (\<lambda>r. tr_id r = txid) rows"

text \<open>\<open>QueryRow(...).Scan(...)\<close>: no row is \<open>pgx.ErrNoRows\<close>.\<close>

definition sql_select_tx :: "uuid \<Rightarrow> nat \<Rightarrow> (pgdb, Transaction) op" where
  "sql_select_tx txid n d =
     (case find_tx txid (pg_transactions d) of
        None \<Rightarrow> (Error ErrNoRows, d)
      | Some r \<Rightarrow> (scan_tx (pg_scan_null d) r, d))"

definition Store_GetTransaction :: "uuid \<Rightarrow> (pgdb, Transaction) op" where
  "Store_GetTransaction txid =
     wrap_err [Lit ''fetching transaction '', Uid txid, Lit '': ''] (pg_stmt (sql_select_tx txid))"

text \<open>
  The same SELECT with \<open>FOR UPDATE SKIP LOCKED\<close>, but outside a transaction: the row lock is gone
  when the statement ends. A row another session holds locked is skipped and reported as no row,
  which is a \<open>NotRun ErrNoRows\<close> fault here.
\<close>

definition Store_GetTransactionForRetry :: "uuid \<Rightarrow> (pgdb, Transaction) op" where
  "Store_GetTransactionForRetry txid =
     wrap_err [Lit ''fetching transaction '', Uid txid, Lit '' for retry: '']
       (pg_stmt (sql_select_tx txid))"

section \<open>Statements on the table channel accounts\<close>

definition row_of_account :: "ChannelAccount \<Rightarrow> acct_row" where
  "row_of_account a = \<lparr>ar_public_key = ca_PublicKey a, ar_encrypted_secret = ca_EncryptedSecret a,
     ar_status = ca_Status a, ar_sequence_number = ca_SequenceNumber a,
     ar_last_used_at = ca_LastUsedAt a\<rparr>"

definition account_of_row :: "acct_row \<Rightarrow> ChannelAccount" where
  "account_of_row r = \<lparr>ca_PublicKey = ar_public_key r, ca_EncryptedSecret = ar_encrypted_secret r,
     ca_Status = ar_status r, ca_SequenceNumber = ar_sequence_number r,
     ca_LastUsedAt = ar_last_used_at r\<rparr>"

definition sql_insert_account :: "ChannelAccount \<Rightarrow> nat \<Rightarrow> (pgdb, unit) op" where
  "sql_insert_account a n d =
     (if ca_PublicKey a \<in> ar_public_key ` set (pg_channel_accounts d)
      then (Error (pg_error d UniqueViolation), d)
      else (Ok (), d\<lparr>pg_channel_accounts := pg_channel_accounts d @ [row_of_account a]\<rparr>))"

definition Store_SaveChannelAccount :: "ChannelAccount \<Rightarrow> (pgdb, unit) op" where
  "Store_SaveChannelAccount a =
     wrap_err [Lit ''saving channel account '', Lit (ca_PublicKey a), Lit '': '']
       (pg_stmt (sql_insert_account a))"

definition find_account :: "string \<Rightarrow> acct_row list \<Rightarrow> acct_row option" where
  "find_account pk rows = find (\<lambda>r. ar_public_key r = pk) rows"

definition Store_GetChannelAccountByID :: "string \<Rightarrow> (pgdb, ChannelAccount) op" where
  "Store_GetChannelAccountByID pk =
     wrap_err [Lit ''fetching channel account '', Lit pk, Lit '': '']
       (pg_stmt (\<lambda>n d. case find_account pk (pg_channel_accounts d) of
            None \<Rightarrow> (Error ErrNoRows, d)
          | Some r \<Rightarrow> (Ok (account_of_row r), d)))"

text \<open>\<open>ORDER BY public_key\<close>, in byte order; the status filter is optional.\<close>

definition list_accounts :: "AccountStatus option \<Rightarrow> acct_row list \<Rightarrow> acct_row list" where
  "list_accounts st rows = sort_key ar_public_key
     (case st of None \<Rightarrow> rows | Some s \<Rightarrow> filter (\<lambda>r. ar_status r = s) rows)"

definition Store_ListChannelAccounts :: "AccountStatus option \<Rightarrow> (pgdb, ChannelAccount list) op" where
  "Store_ListChannelAccounts st =
     pg_query [Lit ''listing channel accounts: ''] [Lit ''collecting channel accounts: '']
       (\<lambda>n d. (Ok (list_accounts st (pg_channel_accounts d)), d)) (\<lambda>d r. Ok (account_of_row r))"

definition update_account_rows ::
  "(acct_row \<Rightarrow> bool) \<Rightarrow> (acct_row \<Rightarrow> acct_row) \<Rightarrow> acct_row list \<Rightarrow> acct_row list" where
  "update_account_rows P f rows = map (\<lambda>r. if P r then f r else r) rows"

definition Store_ReleaseChannelAccount :: "string \<Rightarrow> time \<Rightarrow> (pgdb, unit) op" where
  "Store_ReleaseChannelAccount pk lastUsed =
     try_call
       (pg_stmt (\<lambda>n d. (Ok (length (filter (\<lambda>r. ar_public_key r = pk) (pg_channel_accounts d))),
          d\<lparr>pg_channel_accounts := update_account_rows (\<lambda>r. ar_public_key r = pk)
               (\<lambda>r. r\<lparr>ar_status := ''idle'', ar_last_used_at := Some lastUsed\<rparr>)
               (pg_channel_accounts d)\<rparr>)))
       (\<lambda>affected. if affected = 0 then ret (Error (ErrText [Lit ''channel account not found'']))
                   else ret (Ok ()))
       (\<lambda>e. ret (Error (Wrap [Lit ''releasing channel account '', Lit pk, Lit '': ''] e)))"

definition Store_UpdateSequenceNumber :: "string \<Rightarrow> i64 \<Rightarrow> (pgdb, unit) op" where
  "Store_UpdateSequenceNumber pk seq =
     wrap_err [Lit ''updating sequence number for '', Lit pk, Lit '': '']
       (pg_stmt (\<lambda>n d. (Ok (), d\<lparr>pg_channel_accounts :=
          update_account_rows (\<lambda>r. ar_public_key r = pk) (\<lambda>r. r\<lparr>ar_sequence_number := seq\<rparr>)
            (pg_channel_accounts d)\<rparr>)))"

definition Store_UpdateSequenceNumberIfIdle :: "string \<Rightarrow> i64 \<Rightarrow> (pgdb, unit) op" where
  "Store_UpdateSequenceNumberIfIdle pk seq =
     wrap_err [Lit ''updating sequence number for idle account '', Lit pk, Lit '': '']
       (pg_stmt (\<lambda>n d. (Ok (), d\<lparr>pg_channel_accounts :=
          update_account_rows (\<lambda>r. ar_public_key r = pk \<and> ar_status r = ''idle'')
            (\<lambda>r. r\<lparr>ar_sequence_number := seq\<rparr>) (pg_channel_accounts d)\<rparr>)))"

section \<open>The lease transaction\<close>

text \<open>
  \<open>SELECT ... WHERE status = 'idle' ORDER BY last_used_at ASC NULLS FIRST LIMIT 1 FOR UPDATE SKIP
  LOCKED\<close>. \<open>Option_ord\<close> puts None below every instant, as NULLS FIRST does.
\<close>

definition idle_candidates :: "(string \<Rightarrow> bool) \<Rightarrow> acct_row list \<Rightarrow> acct_row list" where
  "idle_candidates locked rows =
     filter (\<lambda>r. ar_status r = ''idle'' \<and> \<not> locked (ar_public_key r)) rows"

definition lease_candidate :: "(string \<Rightarrow> bool) \<Rightarrow> acct_row list \<Rightarrow> acct_row option" where
  "lease_candidate locked rows =
     (case sort_key ar_last_used_at (idle_candidates locked rows) of
        [] \<Rightarrow> None | r # _ \<Rightarrow> Some r)"

definition mark_leased :: "string \<Rightarrow> acct_row list \<Rightarrow> acct_row list" where
  "mark_leased pk rows =
     update_account_rows (\<lambda>r. ar_public_key r = pk) (\<lambda>r. r\<lparr>ar_status := ''leased''\<rparr>) rows"

text \<open>
  One round trip inside an open transaction. Its effect stays invisible until COMMIT, so a fault
  of either kind only ends the transaction (the deferred \<open>Rollback\<close>).
\<close>

definition in_tx :: "(nat \<Rightarrow> (pgdb, 'a) op) \<Rightarrow> (pgdb, 'a) op" where
  "in_tx body d =
     (case pg_fault_now d of
        None \<Rightarrow> body (pg_calls d) (pg_tick d)
      | Some (NotRun e) \<Rightarrow> (Error e, pg_tick d)
      | Some (ReplyLost e) \<Rightarrow> (Error e, pg_tick d))"

definition Store_LeaseChannelAccount :: "(pgdb, ChannelAccount option) op" where
  "Store_LeaseChannelAccount =
     try_call (in_tx (\<lambda>_. ret (Ok ())))
       (\<lambda>_. try_call
          (in_tx (\<lambda>n d. case lease_candidate (pg_locked d n) (pg_channel_accounts d) of
               None \<Rightarrow> (Error ErrNoRows, d)
             | Some r \<Rightarrow> (Ok (account_of_row r), d)))
          (\<lambda>acct. try_call (in_tx (\<lambda>_. ret (Ok ())))
             (\<lambda>_. try_call
                (pg_stmt (\<lambda>_ d. (Ok (), d\<lparr>pg_channel_accounts :=
                   mark_leased (ca_PublicKey acct) (pg_channel_accounts d)\<rparr>)))
                (\<lambda>_. ret (Ok (Some acct)))
                (\<lambda>e. ret (Error (Wrap [Lit ''committing lease: ''] e))))
             (\<lambda>e. ret (Error (Wrap [Lit ''marking account '', Lit (ca_PublicKey acct),
                                     Lit '' leased: ''] e))))
          (\<lambda>e. if e = ErrNoRows
               then ret (Error (Wrap [Lit ''no idle channel account available: ''] e))
               else ret (Error (Wrap [Lit ''leasing channel account: ''] e))))
       (\<lambda>e. ret (Error (Wrap [Lit ''beginning lease transaction: ''] e)))"

section \<open>The store as the interfaces of its clients\<close>

definition pgTxStore :: "pgdb TxStore" where
  "pgTxStore = \<lparr>ts_SaveTransaction = Store_SaveTransaction,
     ts_UpdateTransactionStatus = Store_UpdateTransactionStatus,
     ts_IncrementRetry = Store_IncrementRetry,
     ts_GetPendingTransactions = Store_GetPendingTransactions,
     ts_GetTransaction = Store_GetTransaction,
     ts_GetTransactionForRetry = Store_GetTransactionForRetry,
     ts_UpdateSequenceNumber = Store_UpdateSequenceNumber\<rparr>"

text \<open>The pool's interface lists accounts without a filter: a nil status here.\<close>

definition pgPoolStore :: "pgdb PoolStore" where
  "pgPoolStore = \<lparr>ps_LeaseChannelAccount = Store_LeaseChannelAccount,
     ps_ReleaseChannelAccount = Store_ReleaseChannelAccount,
     ps_ListChannelAccounts = Store_ListChannelAccounts None,
     ps_UpdateSequenceNumberIfIdle = Store_UpdateSequenceNumberIfIdle,
     ps_SaveChannelAccount = Store_SaveChannelAccount\<rparr>"

section \<open>Views and well-formedness\<close>

definition view_of_tx_row :: "tx_row \<Rightarrow> tx_view" where
  "view_of_tx_row r = \<lparr>av_env = tr_envelope_xdr r, av_status = tr_status r,
     av_chan = tr_channel_account r, av_retry = tr_retry_count r, av_err = tr_last_error r\<rparr>"

definition view_of_acct_row :: "acct_row \<Rightarrow> acct_view" where
  "view_of_acct_row r = \<lparr>aw_secret = ar_encrypted_secret r, aw_status = ar_status r,
     aw_seq = ar_sequence_number r, aw_last = ar_last_used_at r\<rparr>"

definition db_txs :: "pgdb \<Rightarrow> uuid \<Rightarrow> tx_view option" where
  "db_txs d i = map_option view_of_tx_row (find_tx i (pg_transactions d))"

definition db_accts :: "pgdb \<Rightarrow> string \<Rightarrow> acct_view option" where
  "db_accts d k = map_option view_of_acct_row (find_account k (pg_channel_accounts d))"

text \<open>The PRIMARY KEY constraints.\<close>

definition keys_ok :: "pgdb \<Rightarrow> bool" where
  "keys_ok d \<longleftrightarrow> distinct (map tr_id (pg_transactions d)) \<and>
     distinct (map ar_public_key (pg_channel_accounts d))"

definition no_faults :: "pgdb \<Rightarrow> bool" where
  "no_faults d \<longleftrightarrow> (\<forall>n \<ge> pg_calls d. pg_fault d n = None \<and> (\<forall>k. \<not> pg_locked d n k))"

definition db_quiet :: "pgdb \<Rightarrow> bool" where
  "db_quiet d \<longleftrightarrow> keys_ok d \<and> no_faults d"

text \<open>
  What no operation of the repository ever does to a stored transaction: delete it, change its
  envelope or creation time, or lower its retry counter.
\<close>

definition tx_history :: "pgdb \<Rightarrow> pgdb \<Rightarrow> bool" where
  "tx_history d d' \<longleftrightarrow>
     (\<forall>i r. find_tx i (pg_transactions d) = Some r \<longrightarrow>
        (\<exists>r'. find_tx i (pg_transactions d') = Some r' \<and>
           tr_envelope_xdr r' = tr_envelope_xdr r \<and> tr_created_at r' = tr_created_at r \<and>
           tr_retry_count r \<le> tr_retry_count r'))"

text \<open>The states a transaction can be in, and the states of an account.\<close>

definition status_ok :: "pgdb \<Rightarrow> bool" where
  "status_ok d \<longleftrightarrow>
     (\<forall>r \<in> set (pg_transactions d). tr_status r \<in> insert TxStatusPending engine_targets) \<and>
     (\<forall>r \<in> set (pg_channel_accounts d). ar_status r \<in> {AccountStatusIdle, AccountStatusLeased})"

definition db_ok :: "pgdb \<Rightarrow> bool" where
  "db_ok d \<longleftrightarrow> keys_ok d \<and> status_ok d"

section \<open>Running a statement\<close>

lemma pg_tick_simps [simp]:
  "pg_transactions (pg_tick d) = pg_transactions d"
  "pg_channel_accounts (pg_tick d) = pg_channel_accounts d"
  "pg_calls (pg_tick d) = Suc (pg_calls d)"
  "pg_fault (pg_tick d) = pg_fault d" "pg_clock (pg_tick d) = pg_clock d"
  "pg_locked (pg_tick d) = pg_locked d" "pg_error (pg_tick d) = pg_error d"
  "pg_scan_null (pg_tick d) = pg_scan_null d"
  by (simp_all add: pg_tick_def)

lemma keys_ok_tick [simp]: "keys_ok (pg_tick d) = keys_ok d"
  by (simp add: keys_ok_def)

lemma db_quiet_tick [simp]: "db_quiet d \<Longrightarrow> db_quiet (pg_tick d)"
  by (simp add: db_quiet_def no_faults_def)

lemma db_txs_tick [simp]: "db_txs (pg_tick d) = db_txs d"
  by (simp add: db_txs_def fun_eq_iff)

lemma db_accts_tick [simp]: "db_accts (pg_tick d) = db_accts d"
  by (simp add: db_accts_def fun_eq_iff)

lemma quiet_no_fault [simp]: "db_quiet d \<Longrightarrow> pg_fault_now d = None"
  by (simp add: db_quiet_def no_faults_def pg_fault_now_def)

lemma quiet_pg_stmt: "db_quiet d \<Longrightarrow> pg_stmt body d = body (pg_calls d) (pg_tick d)"
  by (simp add: pg_stmt_def)

lemma quiet_in_tx: "db_quiet d \<Longrightarrow> in_tx body d = body (pg_calls d) (pg_tick d)"
  by (simp add: in_tx_def)

lemma quiet_pg_query:
  "db_quiet d \<Longrightarrow> pg_query qf cf body scan d =
     wrap_err cf (try_call (body (pg_calls d)) (\<lambda>rows d'. (collect_rows (scan d') rows, d'))
       (\<lambda>e. ret (Error e))) (pg_tick d)"
  by (simp add: pg_query_def)

lemma collect_rows_total: "collect_rows (\<lambda>r. Ok (f r)) rows = Ok (map f rows)"
  by (induction rows) auto

lemma quiet_unlocked: "db_quiet d \<Longrightarrow> pg_calls d \<le> n \<Longrightarrow> \<not> pg_locked d n k"
  by (simp add: db_quiet_def no_faults_def)

lemma quiet_rows [simp]:
  "db_quiet d \<Longrightarrow> db_quiet (d\<lparr>pg_transactions := ts\<rparr>) = distinct (map tr_id ts)"
  "db_quiet d \<Longrightarrow> db_quiet (d\<lparr>pg_channel_accounts := cs\<rparr>) = distinct (map ar_public_key cs)"
  by (auto simp: db_quiet_def no_faults_def keys_ok_def)

section \<open>Lookup after update\<close>

lemma find_tx_update [row_simps]:
  assumes "\<And>r. tr_id (f r) = tr_id r"
  shows "find_tx j (update_tx_rows i f rows)
       = (if j = i then map_option f (find_tx i rows) else find_tx j rows)"
  using assms unfolding find_tx_def update_tx_rows_def
  by (induction rows) auto

lemma ids_update [row_simps]:
  "(\<And>r. tr_id (f r) = tr_id r) \<Longrightarrow> map tr_id (update_tx_rows i f rows) = map tr_id rows"
  by (simp add: update_tx_rows_def)

lemma find_account_update [row_simps]:
  assumes "\<And>r. ar_public_key (f r) = ar_public_key r"
  shows "find_account k (update_account_rows P f rows)
       = map_option (\<lambda>r. if P r then f r else r) (find_account k rows)"
  using assms unfolding find_account_def update_account_rows_def
  by (induction rows) auto

lemma pks_update [row_simps]:
  "(\<And>r. ar_public_key (f r) = ar_public_key r) \<Longrightarrow>
   map ar_public_key (update_account_rows P f rows) = map ar_public_key rows"
  by (simp add: update_account_rows_def)

lemma affected_zero [row_simps]: "affected_tx_rows i rows = 0 \<longleftrightarrow> find_tx i rows = None"
  by (simp add: affected_tx_rows_def find_tx_def filter_key_empty)

lemma find_tx_id: "find_tx i rows = Some r \<Longrightarrow> tr_id r = i"
  by (auto simp: find_tx_def find_Some_iff)

lemma find_account_key: "find_account k rows = Some r \<Longrightarrow> ar_public_key r = k"
  by (auto simp: find_account_def find_Some_iff)

lemma find_tx_in:
  "distinct (map tr_id rows) \<Longrightarrow> r \<in> set rows \<Longrightarrow> find_tx (tr_id r) rows = Some r"
  by (simp add: find_tx_def find_Some_iff_distinct)

lemma find_account_in:
  "distinct (map ar_public_key rows) \<Longrightarrow> r \<in> set rows \<Longrightarrow>
   find_account (ar_public_key r) rows = Some r"
  by (simp add: find_account_def find_Some_iff_distinct)

lemma find_account_None: "find_account k rows = None \<longleftrightarrow> k \<notin> ar_public_key ` set rows"
  by (simp add: find_account_def find_None_keys)

lemma find_tx_None: "find_tx i rows = None \<longleftrightarrow> i \<notin> tr_id ` set rows"
  by (simp add: find_tx_def find_None_keys)

lemma db_txs_Some: "db_txs d i = Some t \<longleftrightarrow>
    (\<exists>r. find_tx i (pg_transactions d) = Some r \<and> t = view_of_tx_row r)"
  by (auto simp: db_txs_def)

lemma db_txs_None: "db_txs d i = None \<longleftrightarrow> find_tx i (pg_transactions d) = None"
  by (simp add: db_txs_def)

lemma db_accts_Some: "db_accts d k = Some v \<longleftrightarrow>
    (\<exists>r. find_account k (pg_channel_accounts d) = Some r \<and> v = view_of_acct_row r)"
  by (auto simp: db_accts_def)

section \<open>Each operation, when no fault strikes\<close>

lemma quiet_keys: "db_quiet d \<Longrightarrow> distinct (map tr_id (pg_transactions d))"
  "db_quiet d \<Longrightarrow> distinct (map ar_public_key (pg_channel_accounts d))"
  by (simp_all add: db_quiet_def keys_ok_def)

lemma db_txs_update_rows:
  assumes "\<And>r. tr_id (f r) = tr_id r" and "\<And>r. view_of_tx_row (f r) = g (view_of_tx_row r)"
  shows "db_txs (d\<lparr>pg_transactions := update_tx_rows i f (pg_transactions d)\<rparr>)
       = (db_txs d)(i := map_option g (db_txs d i))"
proof
  fix j
  show "db_txs (d\<lparr>pg_transactions := update_tx_rows i f (pg_transactions d)\<rparr>) j
      = ((db_txs d)(i := map_option g (db_txs d i))) j"
    by (simp add: db_txs_def find_tx_update assms(1) option.map_comp comp_def assms(2))
qed

lemma db_accts_update_rows:
  assumes "\<And>r. ar_public_key (f r) = ar_public_key r"
    and "\<And>r. view_of_acct_row (f r) = g (view_of_acct_row r)"
    and "\<And>r. P r \<longleftrightarrow> ar_public_key r = k \<and> Q (view_of_acct_row r)"
  shows "db_accts (d\<lparr>pg_channel_accounts := update_account_rows P f (pg_channel_accounts d)\<rparr>)
       = (db_accts d)(k := map_option (\<lambda>v. if Q v then g v else v) (db_accts d k))"
proof
  fix j
  show "db_accts (d\<lparr>pg_channel_accounts := update_account_rows P f (pg_channel_accounts d)\<rparr>) j
      = ((db_accts d)(k := map_option (\<lambda>v. if Q v then g v else v) (db_accts d k))) j"
    by (cases "find_account j (pg_channel_accounts d)")
       (auto simp: db_accts_def find_account_update assms dest: find_account_key)
qed

lemma db_views_other [simp]:
  "db_txs (d\<lparr>pg_channel_accounts := cs\<rparr>) = db_txs d"
  "db_accts (d\<lparr>pg_transactions := ts\<rparr>) = db_accts d"
  by (simp_all add: fun_eq_iff db_txs_def db_accts_def)

lemma update_status_run:
  assumes "db_quiet d"
  shows "Store_UpdateTransactionStatus i st ch er d =
    (if db_txs d i = None then Error (ErrText [Lit ''transaction not found'']) else Ok (),
     (pg_tick d)\<lparr>pg_transactions := update_tx_rows i
        (\<lambda>r. r\<lparr>tr_status := st, tr_channel_account := Some ch, tr_last_error := Some er,
               tr_updated_at := pg_clock d (pg_calls d)\<rparr>) (pg_transactions d)\<rparr>)"
  using assms
  by (simp add: Store_UpdateTransactionStatus_def try_call_def quiet_pg_stmt sql_update_tx_status_def
      affected_zero db_txs_None)

lemma update_status_views:
  assumes "db_quiet d" "Store_UpdateTransactionStatus i st ch er d = (r, d')"
  shows "db_quiet d' \<and> db_accts d' = db_accts d \<and> db_txs d' = (db_txs d)(i :=
    map_option (\<lambda>t. t\<lparr>av_status := st, av_chan := Some ch, av_err := Some er\<rparr>) (db_txs d i))"
  using assms
    db_txs_update_rows [where d = "pg_tick d" and i = i and
      f = "\<lambda>r. r\<lparr>tr_status := st, tr_channel_account := Some ch, tr_last_error := Some er,
               tr_updated_at := pg_clock d (pg_calls d)\<rparr>" and
      g = "\<lambda>t. t\<lparr>av_status := st, av_chan := Some ch, av_err := Some er\<rparr>"]
  by (auto simp: update_status_run view_of_tx_row_def ids_update quiet_keys)

lemma update_found_db:
  assumes "db_quiet d" "db_txs d i = Some t"
  shows "\<exists>d'. Store_UpdateTransactionStatus i st ch er d = (Ok (), d') \<and> db_quiet d' \<and>
    db_txs d' = (db_txs d)(i \<mapsto> t\<lparr>av_status := st, av_chan := Some ch, av_err := Some er\<rparr>) \<and>
    db_accts d' = db_accts d"
proof -
  obtain d' where d': "Store_UpdateTransactionStatus i st ch er d = (Ok (), d')"
    using update_status_run [OF assms(1)] assms(2) by simp
  from update_status_views [OF assms(1) d'] assms(2) d' show ?thesis by simp
qed

lemma update_missing_db:
  assumes "db_quiet d" "db_txs d i = None"
  shows "\<exists>e d'. Store_UpdateTransactionStatus i st ch er d = (Error e, d') \<and> db_quiet d' \<and>
    db_txs d' = db_txs d \<and> db_accts d' = db_accts d"
proof -
  obtain e d' where d': "Store_UpdateTransactionStatus i st ch er d = (Error e, d')"
    using update_status_run [OF assms(1)] assms(2) by simp
  note v = update_status_views [OF assms(1) d']
  have "db_txs d' = db_txs d" using v assms(2) by (metis fun_upd_triv option.map_disc_iff)
  with v d' show ?thesis by blast
qed

lemma increment_db:
  assumes q: "db_quiet d" and t: "db_txs d i = Some t"
    and b: "0 \<le> av_retry t" "av_retry t < int4_max"
  shows "\<exists>d'. Store_IncrementRetry i d = (Ok (), d') \<and> db_quiet d' \<and>
    db_txs d' = (db_txs d)(i \<mapsto> t\<lparr>av_retry := av_retry t + 1\<rparr>) \<and> db_accts d' = db_accts d"
proof -
  let ?f = "\<lambda>r. r\<lparr>tr_retry_count := tr_retry_count r + 1, tr_updated_at := pg_clock d (pg_calls d)\<rparr>"
  let ?d = "(pg_tick d)\<lparr>pg_transactions := update_tx_rows i ?f (pg_transactions d)\<rparr>"
  obtain r where r: "find_tx i (pg_transactions d) = Some r" "t = view_of_tx_row r"
    using t by (auto simp: db_txs_Some)
  have "\<forall>r' \<in> set (pg_transactions d). tr_id r' = i \<longrightarrow> r' = r"
    using find_tx_in [OF quiet_keys(1) [OF q]] r by auto
  then have "list_all (\<lambda>r'. tr_id r' = i \<longrightarrow> int4_ok (tr_retry_count r' + 1)) (pg_transactions d)"
    using b r by (auto simp: list_all_iff int4_ok_def view_of_tx_row_def int4_max_def)
  then have run: "Store_IncrementRetry i d = (Ok (), ?d)"
    using q by (simp add: Store_IncrementRetry_def wrap_err_def try_call_def quiet_pg_stmt
        sql_increment_retry_def)
  have "db_txs ?d = (db_txs d)(i \<mapsto> t\<lparr>av_retry := av_retry t + 1\<rparr>)"
    using db_txs_update_rows [where d = "pg_tick d" and i = i and f = ?f and
        g = "\<lambda>t. t\<lparr>av_retry := av_retry t + 1\<rparr>"] t by (simp add: view_of_tx_row_def)
  then show ?thesis using run q by (simp add: ids_update quiet_keys)
qed

lemma collect_rows_mem:
  "collect_rows sc rs = Ok as \<Longrightarrow> a \<in> set as \<Longrightarrow> \<exists>r \<in> set rs. sc r = Ok a"
  by (induction rs arbitrary: as) (auto split: res.splits)

lemma scan_tx_Ok:
  "scan_tx sn r = Ok tx \<Longrightarrow> tx_ID tx = tr_id r \<and> tx_EnvelopeXDR tx = tr_envelope_xdr r \<and>
     tx_Status tx = tr_status r \<and> tx_RetryCount tx = tr_retry_count r"
  by (auto simp: scan_tx_def split: sum.splits)

lemma pending_rows_set: "r \<in> set (pending_rows rows) \<longleftrightarrow> r \<in> set rows \<and> tr_status r = ''pending''"
  by (auto simp: pending_rows_def)

lemma pending_frame_db:
  assumes "db_quiet d" "Store_GetPendingTransactions n d = (r, d')"
  shows "d' = pg_tick d"
  using assms
  by (auto simp: Store_GetPendingTransactions_def try_call_def wrap_err_def quiet_pg_query
      sql_select_pending_def split: res.splits if_splits prod.splits)

lemma pending_sound_db:
  assumes q: "db_quiet d" and g: "Store_GetPendingTransactions n d = (Ok ts, d')" and tx: "tx \<in> set ts"
  shows "\<exists>t. db_txs d (tx_ID tx) = Some t \<and> av_status t = TxStatusPending \<and>
    av_env t = tx_EnvelopeXDR tx \<and> av_retry t = tx_RetryCount tx"
proof -
  let ?rows = "take (nat n) (pending_rows (pg_transactions d))"
  have "collect_rows (scan_tx (pg_scan_null d)) ?rows = Ok ts"
    using g q by (auto simp: Store_GetPendingTransactions_def try_call_def wrap_err_def quiet_pg_query
        sql_select_pending_def split: res.splits if_splits prod.splits)
  then obtain r where r: "r \<in> set ?rows" "scan_tx (pg_scan_null d) r = Ok tx"
    using collect_rows_mem [OF _ tx] by blast
  then have "r \<in> set (pg_transactions d)" "tr_status r = ''pending''"
    using in_set_takeD [OF r(1)] by (auto simp: pending_rows_set)
  then show ?thesis
    using find_tx_in [OF quiet_keys(1) [OF q], of r] scan_tx_Ok [OF r(2)]
    by (simp add: db_txs_def view_of_tx_row_def TxStatusPending_def)
qed

lemma select_tx_quiet:
  "db_quiet d \<Longrightarrow> pg_stmt (sql_select_tx i) d =
     (case find_tx i (pg_transactions d) of None \<Rightarrow> (Error ErrNoRows, pg_tick d)
      | Some r \<Rightarrow> (scan_tx (pg_scan_null d) r, pg_tick d))"
  by (simp add: quiet_pg_stmt sql_select_tx_def split: option.splits)

lemma for_retry_frame_db:
  "db_quiet d \<Longrightarrow> Store_GetTransactionForRetry i d = (r, d') \<Longrightarrow> d' = pg_tick d"
  by (auto simp: Store_GetTransactionForRetry_def wrap_err_def try_call_def select_tx_quiet
      split: option.splits res.splits prod.splits)

lemma for_retry_sound_db:
  "db_quiet d \<Longrightarrow> Store_GetTransactionForRetry i d = (Ok tx, d') \<Longrightarrow>
   \<exists>t. db_txs d i = Some t \<and> tx_ID tx = i \<and> tx_Status tx = av_status t \<and>
     tx_EnvelopeXDR tx = av_env t \<and> tx_RetryCount tx = av_retry t"
  by (auto simp: Store_GetTransactionForRetry_def wrap_err_def try_call_def select_tx_quiet
      db_txs_def view_of_tx_row_def dest!: scan_tx_Ok find_tx_id
      split: option.splits res.splits prod.splits)

lemma for_retry_scannable_db:
  "db_quiet d \<Longrightarrow> db_txs d i = Some t \<Longrightarrow> av_chan t = Some ch \<Longrightarrow> av_err t = Some er \<Longrightarrow>
   \<exists>tx d'. Store_GetTransactionForRetry i d = (Ok tx, d')"
  by (auto simp: Store_GetTransactionForRetry_def wrap_err_def try_call_def select_tx_quiet
      db_txs_def view_of_tx_row_def scan_tx_def)

lemma set_seq_db:
  assumes "db_quiet d" "db_accts d k = Some a"
  shows "\<exists>d'. Store_UpdateSequenceNumber k q d = (Ok (), d') \<and> db_quiet d' \<and>
     db_accts d' = (db_accts d)(k \<mapsto> a\<lparr>aw_seq := q\<rparr>) \<and> db_txs d' = db_txs d"
  using assms db_accts_update_rows [where d = "pg_tick d" and k = k and Q = "\<lambda>_. True" and
      P = "\<lambda>r. ar_public_key r = k" and f = "\<lambda>r. r\<lparr>ar_sequence_number := q\<rparr>" and
      g = "\<lambda>v. v\<lparr>aw_seq := q\<rparr>"]
  by (simp add: Store_UpdateSequenceNumber_def wrap_err_def try_call_def quiet_pg_stmt pks_update
      quiet_keys view_of_acct_row_def)

section \<open>The account operations, when no fault strikes\<close>

lemma lease_candidate_SomeD:
  assumes "lease_candidate lk rows = Some r"
  shows "r \<in> set rows" "ar_status r = ''idle''" "\<not> lk (ar_public_key r)"
proof -
  obtain rs where "sort_key ar_last_used_at (idle_candidates lk rows) = r # rs"
    using assms
    by (cases "sort_key ar_last_used_at (idle_candidates lk rows)") (auto simp: lease_candidate_def)
  then have "r \<in> set (sort_key ar_last_used_at (idle_candidates lk rows))" by simp
  then show "r \<in> set rows" "ar_status r = ''idle''" "\<not> lk (ar_public_key r)"
    by (auto simp: idle_candidates_def)
qed

lemma lease_candidate_None:
  "lease_candidate lk rows = None \<longleftrightarrow>
     (\<forall>r \<in> set rows. ar_status r = ''idle'' \<longrightarrow> lk (ar_public_key r))"
proof -
  have "lease_candidate lk rows = None \<longleftrightarrow>
      sort_key ar_last_used_at (idle_candidates lk rows) = []"
    by (auto simp: lease_candidate_def simp del: sort_key_eq_Nil split: list.split)
  then show ?thesis by (auto simp: idle_candidates_def filter_empty_conv)
qed

lemma lease_candidate_least:
  assumes "lease_candidate lk rows = Some r" "r' \<in> set rows" "ar_status r' = ''idle''"
    "\<not> lk (ar_public_key r')"
  shows "ar_last_used_at r \<le> ar_last_used_at r'"
proof -
  have "r = hd (sort_key ar_last_used_at (idle_candidates lk rows))"
    using assms(1) by (auto simp: lease_candidate_def split: list.splits)
  moreover have "r' \<in> set (idle_candidates lk rows)" using assms by (simp add: idle_candidates_def)
  ultimately show ?thesis using hd_sort_key_least by metis
qed

lemma lease_run:
  assumes "db_quiet d"
  shows "Store_LeaseChannelAccount d =
    (case lease_candidate (\<lambda>_. False) (pg_channel_accounts d) of
       None \<Rightarrow> (Error (Wrap [Lit ''no idle channel account available: ''] ErrNoRows),
                pg_tick (pg_tick d))
     | Some r \<Rightarrow> (Ok (Some (account_of_row r)),
         (pg_tick (pg_tick (pg_tick (pg_tick d))))\<lparr>pg_channel_accounts :=
            mark_leased (ar_public_key r) (pg_channel_accounts d)\<rparr>))"
proof -
  have "pg_locked d (Suc (pg_calls d)) = (\<lambda>_. False)"
    using assms by (simp add: fun_eq_iff db_quiet_def no_faults_def)
  then show ?thesis
    using assms
    by (simp add: Store_LeaseChannelAccount_def try_call_def quiet_in_tx quiet_pg_stmt
        account_of_row_def split: option.splits)
qed

lemma db_accts_of_row:
  "db_quiet d \<Longrightarrow> r \<in> set (pg_channel_accounts d) \<Longrightarrow>
   db_accts d (ar_public_key r) = Some (view_of_acct_row r)"
  by (simp add: db_accts_def find_account_in quiet_keys)

lemma lease_ok_db:
  assumes q: "db_quiet d" and l: "Store_LeaseChannelAccount d = (Ok ra, d')"
  shows "\<exists>r v. ra = Some r \<and> db_accts d (ca_PublicKey r) = Some v \<and> aw_status v = AccountStatusIdle \<and>
    ca_SequenceNumber r = aw_seq v \<and> ca_EncryptedSecret r = aw_secret v \<and> db_quiet d' \<and>
    db_accts d' = (db_accts d)(ca_PublicKey r \<mapsto> v\<lparr>aw_status := AccountStatusLeased\<rparr>) \<and>
    db_txs d' = db_txs d"
proof -
  obtain r where r: "lease_candidate (\<lambda>_. False) (pg_channel_accounts d) = Some r"
      "ra = Some (account_of_row r)" and d':
      "d' = (pg_tick (pg_tick (pg_tick (pg_tick d))))\<lparr>pg_channel_accounts :=
            mark_leased (ar_public_key r) (pg_channel_accounts d)\<rparr>"
    using l lease_run [OF q] by (auto split: option.splits)
  note row = lease_candidate_SomeD [OF r(1)]
  have "db_accts d' = (db_accts d)(ar_public_key r \<mapsto>
      (view_of_acct_row r)\<lparr>aw_status := AccountStatusLeased\<rparr>)"
    using db_accts_update_rows [where d = "pg_tick (pg_tick (pg_tick (pg_tick d)))" and
        k = "ar_public_key r" and Q = "\<lambda>_. True" and P = "\<lambda>x. ar_public_key x = ar_public_key r" and
        f = "\<lambda>r. r\<lparr>ar_status := ''leased''\<rparr>" and g = "\<lambda>v. v\<lparr>aw_status := AccountStatusLeased\<rparr>"]
      db_accts_of_row [OF q row(1)]
    by (simp add: d' mark_leased_def view_of_acct_row_def AccountStatusLeased_def)
  moreover have "db_quiet d'" using q by (simp add: d' mark_leased_def pks_update quiet_keys)
  moreover have "db_txs d' = db_txs d" by (simp add: d')
  ultimately show ?thesis
    using r(2) row db_accts_of_row [OF q row(1)]
    by (simp add: account_of_row_def view_of_acct_row_def AccountStatusIdle_def)
qed

lemma lease_err_db:
  "db_quiet d \<Longrightarrow> Store_LeaseChannelAccount d = (Error e, d') \<Longrightarrow>
   db_quiet d' \<and> db_accts d' = db_accts d \<and> db_txs d' = db_txs d"
  by (auto simp: lease_run split: option.splits)

lemma lease_progress_db:
  assumes "db_quiet d" "db_accts d k = Some v" "aw_status v = AccountStatusIdle"
  shows "\<exists>ra d'. Store_LeaseChannelAccount d = (Ok ra, d')"
proof -
  obtain r where "find_account k (pg_channel_accounts d) = Some r" "v = view_of_acct_row r"
    using assms(2) by (auto simp: db_accts_Some)
  then have "r \<in> set (pg_channel_accounts d)" "ar_status r = ''idle''"
    using assms(3) by (auto simp: find_account_def find_Some_iff view_of_acct_row_def AccountStatusIdle_def)
  then have "lease_candidate (\<lambda>_. False) (pg_channel_accounts d) \<noteq> None"
    by (auto simp: lease_candidate_None)
  then show ?thesis using lease_run [OF assms(1)] by auto
qed

lemma panic_free_pg_stmt [pf_intros]:
  "(\<And>n d. fst (body n d) \<noteq> Panic) \<Longrightarrow> panic_free (pg_stmt body)"
  by (simp add: panic_free_def pg_stmt_def split: option.splits fault.splits)

lemma panic_free_in_tx [pf_intros]:
  "(\<And>n d. fst (body n d) \<noteq> Panic) \<Longrightarrow> panic_free (in_tx body)"
  by (simp add: panic_free_def in_tx_def split: option.splits fault.splits)

lemma lease_no_panic_db: "fst (Store_LeaseChannelAccount d) \<noteq> Panic"
  unfolding Store_LeaseChannelAccount_def
  by (rule panic_freeD) (intro pf_intros; simp split: option.splits)

lemma scan_tx_no_panic: "scan_tx sn r \<noteq> Panic"
  by (simp add: scan_tx_def split: sum.split)

lemma panic_free_get: "panic_free (Store_GetTransaction i)" "panic_free (Store_GetTransactionForRetry i)"
  unfolding Store_GetTransaction_def Store_GetTransactionForRetry_def
  by (intro pf_intros; simp add: sql_select_tx_def scan_tx_no_panic split: option.split)+

lemma affected_accounts_zero:
  "filter (\<lambda>r. ar_public_key r = k) rows = [] \<longleftrightarrow> find_account k rows = None"
  by (simp add: find_account_def filter_key_empty)

lemma release_db:
  assumes "db_quiet d" "db_accts d k = Some v"
  shows "\<exists>d'. Store_ReleaseChannelAccount k t d = (Ok (), d') \<and> db_quiet d' \<and>
    db_accts d' = (db_accts d)(k \<mapsto> v\<lparr>aw_status := AccountStatusIdle, aw_last := Some t\<rparr>) \<and>
    db_txs d' = db_txs d"
proof -
  have ex: "filter (\<lambda>r. ar_public_key r = k) (pg_channel_accounts d) \<noteq> []"
    using assms(2) by (auto simp: affected_accounts_zero db_accts_Some)
  show ?thesis
    using assms ex db_accts_update_rows [where d = "pg_tick d" and k = k and Q = "\<lambda>_. True" and
        P = "\<lambda>r. ar_public_key r = k" and
        f = "\<lambda>r. r\<lparr>ar_status := ''idle'', ar_last_used_at := Some t\<rparr>" and
        g = "\<lambda>v. v\<lparr>aw_status := AccountStatusIdle, aw_last := Some t\<rparr>"]
    by (simp add: Store_ReleaseChannelAccount_def try_call_def quiet_pg_stmt pks_update quiet_keys
        view_of_acct_row_def AccountStatusIdle_def)
qed

lemma list_run:
  "db_quiet d \<Longrightarrow> Store_ListChannelAccounts st d =
    (Ok (map account_of_row (list_accounts st (pg_channel_accounts d))), pg_tick d)"
  by (simp add: Store_ListChannelAccounts_def wrap_err_def try_call_def quiet_pg_query
      collect_rows_total)

lemma distinct_sort_keys:
  "distinct (map key xs) \<Longrightarrow> distinct (map key (sort_key f xs))"
  by (simp add: distinct_map)

lemma list_ok_db:
  assumes q: "db_quiet d"
  shows "\<exists>rs d'. Store_ListChannelAccounts None d = (Ok rs, d') \<and> db_quiet d' \<and>
    db_accts d' = db_accts d \<and> db_txs d' = db_txs d \<and> distinct (map ca_PublicKey rs) \<and>
    (\<forall>k v. db_accts d k = Some v \<longleftrightarrow> (\<exists>r \<in> set rs. ca_PublicKey r = k \<and>
       v = \<lparr>aw_secret = ca_EncryptedSecret r, aw_status = ca_Status r,
            aw_seq = ca_SequenceNumber r, aw_last = ca_LastUsedAt r\<rparr>))"
proof -
  let ?rs = "map account_of_row (list_accounts None (pg_channel_accounts d))"
  have "map ca_PublicKey ?rs = map ar_public_key (list_accounts None (pg_channel_accounts d))"
    by (simp add: account_of_row_def comp_def)
  then have "distinct (map ca_PublicKey ?rs)"
    using distinct_sort_keys [OF quiet_keys(2) [OF q]]
    by (metis list_accounts_def option.case(1))
  moreover have "db_accts d k = Some v \<longleftrightarrow> (\<exists>r \<in> set ?rs. ca_PublicKey r = k \<and>
       v = \<lparr>aw_secret = ca_EncryptedSecret r, aw_status = ca_Status r,
            aw_seq = ca_SequenceNumber r, aw_last = ca_LastUsedAt r\<rparr>)" for k v
    using find_Some_iff_distinct [OF quiet_keys(2) [OF q], of k]
    by (auto simp: db_accts_Some find_account_def list_accounts_def account_of_row_def
        view_of_acct_row_def)
  ultimately show ?thesis using q by (simp add: list_run)
qed

lemma set_seq_if_idle_db:
  assumes "db_quiet d" "db_accts d k = Some v"
  shows "\<exists>d'. Store_UpdateSequenceNumberIfIdle k q d = (Ok (), d') \<and> db_quiet d' \<and>
    db_txs d' = db_txs d \<and>
    db_accts d' = (if aw_status v = AccountStatusIdle then (db_accts d)(k \<mapsto> v\<lparr>aw_seq := q\<rparr>)
                   else db_accts d)"
  using assms db_accts_update_rows [where d = "pg_tick d" and k = k and
      Q = "\<lambda>v. aw_status v = AccountStatusIdle" and
      P = "\<lambda>r. ar_public_key r = k \<and> ar_status r = ''idle''" and
      f = "\<lambda>r. r\<lparr>ar_sequence_number := q\<rparr>" and g = "\<lambda>v. v\<lparr>aw_seq := q\<rparr>"]
  by (simp add: Store_UpdateSequenceNumberIfIdle_def wrap_err_def try_call_def quiet_pg_stmt
      pks_update quiet_keys view_of_acct_row_def AccountStatusIdle_def fun_upd_idem)

lemma save_account_new_db:
  assumes "db_quiet d" "db_accts d (ca_PublicKey a) = None"
  shows "\<exists>d'. Store_SaveChannelAccount a d = (Ok (), d') \<and> db_quiet d' \<and> db_txs d' = db_txs d \<and>
    db_accts d' = (db_accts d)(ca_PublicKey a \<mapsto>
      \<lparr>aw_secret = ca_EncryptedSecret a, aw_status = ca_Status a,
       aw_seq = ca_SequenceNumber a, aw_last = ca_LastUsedAt a\<rparr>)"
proof -
  have new: "ca_PublicKey a \<notin> ar_public_key ` set (pg_channel_accounts d)"
    using assms(2) by (simp add: db_accts_def find_account_None)
  let ?d = "(pg_tick d)\<lparr>pg_channel_accounts := pg_channel_accounts d @ [row_of_account a]\<rparr>"
  have "db_accts ?d k = ((db_accts d)(ca_PublicKey a \<mapsto>
      \<lparr>aw_secret = ca_EncryptedSecret a, aw_status = ca_Status a,
       aw_seq = ca_SequenceNumber a, aw_last = ca_LastUsedAt a\<rparr>)) k" for k
    using assms(2)
    by (auto simp: db_accts_def find_account_def find_append view_of_acct_row_def
        row_of_account_def split: option.splits)
  moreover have "db_quiet ?d" using assms new by (auto simp: quiet_keys row_of_account_def)
  moreover have "Store_SaveChannelAccount a d = (Ok (), ?d)"
    using assms new by (simp add: Store_SaveChannelAccount_def wrap_err_def try_call_def
        quiet_pg_stmt sql_insert_account_def)
  ultimately show ?thesis by (simp add: fun_eq_iff)
qed

lemma save_account_dup_db:
  assumes "db_quiet d" "db_accts d (ca_PublicKey a) = Some v"
  shows "\<exists>e d'. Store_SaveChannelAccount a d = (Error e, d') \<and> db_quiet d' \<and>
    db_txs d' = db_txs d \<and> db_accts d' = db_accts d"
proof -
  have "ca_PublicKey a \<in> ar_public_key ` set (pg_channel_accounts d)"
    using assms(2) by (metis db_accts_Some find_account_None option.distinct(1))
  then show ?thesis
    using assms by (simp add: Store_SaveChannelAccount_def wrap_err_def try_call_def
        quiet_pg_stmt sql_insert_account_def)
qed

section \<open>The store meets its clients' contracts\<close>

lemma pgTxStore_sel [simp]:
  "ts_SaveTransaction pgTxStore = Store_SaveTransaction"
  "ts_UpdateTransactionStatus pgTxStore = Store_UpdateTransactionStatus"
  "ts_IncrementRetry pgTxStore = Store_IncrementRetry"
  "ts_GetPendingTransactions pgTxStore = Store_GetPendingTransactions"
  "ts_GetTransaction pgTxStore = Store_GetTransaction"
  "ts_GetTransactionForRetry pgTxStore = Store_GetTransactionForRetry"
  "ts_UpdateSequenceNumber pgTxStore = Store_UpdateSequenceNumber"
  by (simp_all add: pgTxStore_def)

lemma pgPoolStore_sel [simp]:
  "ps_LeaseChannelAccount pgPoolStore = Store_LeaseChannelAccount"
  "ps_ReleaseChannelAccount pgPoolStore = Store_ReleaseChannelAccount"
  "ps_ListChannelAccounts pgPoolStore = Store_ListChannelAccounts None"
  "ps_UpdateSequenceNumberIfIdle pgPoolStore = Store_UpdateSequenceNumberIfIdle"
  "ps_SaveChannelAccount pgPoolStore = Store_SaveChannelAccount"
  by (simp_all add: pgPoolStore_def)

lemma read_views_db:
  "db_quiet d \<Longrightarrow> Store_GetPendingTransactions n d = (r, d') \<Longrightarrow>
     db_quiet d' \<and> db_txs d' = db_txs d \<and> db_accts d' = db_accts d"
  "db_quiet d \<Longrightarrow> Store_GetTransactionForRetry i d = (rt, d') \<Longrightarrow>
     db_quiet d' \<and> db_txs d' = db_txs d \<and> db_accts d' = db_accts d"
  using pending_frame_db for_retry_frame_db by fastforce+

lemmas tx_store_laws = update_found_db update_missing_db increment_db read_views_db
  pending_sound_db for_retry_sound_db for_retry_scannable_db set_seq_db

lemmas pool_store_laws = lease_ok_db lease_err_db lease_progress_db lease_no_panic_db release_db
  list_ok_db set_seq_if_idle_db save_account_new_db save_account_dup_db

interpretation pg_tx: tx_store pgTxStore db_quiet db_txs db_accts
  by (unfold_locales, unfold pgTxStore_sel) (rule tx_store_laws; assumption)+

interpretation pg_pool: pool_store pgPoolStore db_quiet db_txs db_accts
  by (unfold_locales, unfold pgPoolStore_sel) (rule pool_store_laws; assumption)+

section \<open>Relations kept under every fault\<close>

lemma keeps_pg_stmt:
  assumes "preorder_on_worlds R" "\<And>d. R d (pg_tick d)" "\<And>n d. R d (snd (body n d))"
  shows "keeps R (pg_stmt body)"
proof (rule keepsI)
  fix d
  have "R d (snd (body (pg_calls d) (pg_tick d)))"
    using assms unfolding preorder_on_worlds_def by (meson transpD)
  then show "R d (snd (pg_stmt body d))"
    using assms(2) by (simp add: pg_stmt_def split: option.split fault.split)
qed

lemma keeps_in_tx:
  assumes "preorder_on_worlds R" "\<And>d. R d (pg_tick d)" "\<And>n d. R d (snd (body n d))"
  shows "keeps R (in_tx body)"
proof (rule keepsI)
  fix d
  have "R d (snd (body (pg_calls d) (pg_tick d)))"
    using assms unfolding preorder_on_worlds_def by (meson transpD)
  then show "R d (snd (in_tx body d))"
    using assms(2) by (simp add: in_tx_def split: option.split fault.split)
qed

lemma keeps_pg_query:
  assumes "preorder_on_worlds R" "\<And>d. R d (pg_tick d)" "\<And>n d. R d (snd (body n d))"
  shows "keeps R (pg_query qf cf body scan)"
proof (rule keepsI)
  fix d :: pgdb
  have "keeps R (wrap_err cf (try_call (body (pg_calls d))
      (\<lambda>rows d'. (collect_rows (scan d') rows, d')) (\<lambda>e. ret (Error e))))"
    using assms by (intro keeps_wrap_err keeps_try_call keeps_ret)
      (auto simp: keeps_def preorder_on_worlds_def reflpD)
  then have "R (pg_tick d) (snd (wrap_err cf (try_call (body (pg_calls d))
      (\<lambda>rows d'. (collect_rows (scan d') rows, d')) (\<lambda>e. ret (Error e))) (pg_tick d)))"
    by (rule keepsD)
  moreover have "R (pg_tick d) (snd (body (pg_calls d) (pg_tick d)))" by (rule assms)
  ultimately show "R d (snd (pg_query qf cf body scan d))"
    using assms(1,2) unfolding preorder_on_worlds_def pg_query_def
    by (auto split: option.split fault.split intro: transpD)
qed

text \<open>
  A relation on databases that ignores the round-trip counter and is kept by each statement's
  change of a table is kept by every operation of the store.
\<close>

locale table_relation =
  fixes R :: "pgdb \<Rightarrow> pgdb \<Rightarrow> bool" and I :: "uuid set"
  assumes pre: "preorder_on_worlds R"
    and tick: "R d (pg_tick d)"
    and status: "st \<in> engine_targets \<Longrightarrow> i \<in> I \<Longrightarrow> R d (snd (sql_update_tx_status i st ch er n d))"
    and seq: "(\<And>r. ar_public_key (f r) = ar_public_key r) \<Longrightarrow>
      (\<And>r. ar_status (f r) \<in> {ar_status r, ''idle'', ''leased''}) \<Longrightarrow>
      R d (d\<lparr>pg_channel_accounts := update_account_rows Q f (pg_channel_accounts d)\<rparr>)"
begin

lemma refl_R: "R d d"
  using pre by (simp add: preorder_on_worlds_def reflpD)

lemmas stmt = keeps_pg_stmt [OF pre tick]

lemmas in_transaction = keeps_in_tx [OF pre tick]

lemma keeps_update: "st \<in> engine_targets \<Longrightarrow> i \<in> I \<Longrightarrow> keeps R (Store_UpdateTransactionStatus i st ch er)"
  unfolding Store_UpdateTransactionStatus_def
  by (intro keeps_try_call pre stmt status keeps_if keeps_ret)

lemma keeps_pending: "keeps R (Store_GetPendingTransactions n)"
  unfolding Store_GetPendingTransactions_def
  by (intro keeps_pg_query pre tick) (simp add: sql_select_pending_def refl_R)

lemma keeps_get: "keeps R (Store_GetTransaction i)" "keeps R (Store_GetTransactionForRetry i)"
  unfolding Store_GetTransaction_def Store_GetTransactionForRetry_def
  by (intro keeps_wrap_err stmt; simp add: sql_select_tx_def refl_R split: option.splits)+

lemma keeps_seq: "keeps R (Store_UpdateSequenceNumber k q)"
  unfolding Store_UpdateSequenceNumber_def by (intro keeps_wrap_err stmt) (simp add: seq)

lemma keeps_seq_if_idle: "keeps R (Store_UpdateSequenceNumberIfIdle k q)"
  unfolding Store_UpdateSequenceNumberIfIdle_def by (intro keeps_wrap_err stmt) (simp add: seq)

lemma keeps_release: "keeps R (Store_ReleaseChannelAccount k t)"
  unfolding Store_ReleaseChannelAccount_def
  by (intro keeps_try_call pre stmt keeps_if keeps_ret) (simp add: seq)

lemma keeps_list: "keeps R (Store_ListChannelAccounts s)"
  unfolding Store_ListChannelAccounts_def by (intro keeps_pg_query pre tick) (simp add: refl_R)

lemma keeps_lease: "keeps R Store_LeaseChannelAccount"
  unfolding Store_LeaseChannelAccount_def mark_leased_def
  by (intro keeps_try_call pre stmt in_transaction keeps_if keeps_ret)
     (simp_all add: seq refl_R split: option.splits)

end

sublocale table_relation \<subseteq> kept_by_store pgTxStore pgPoolStore R I
  by (unfold_locales, unfold pgTxStore_sel pgPoolStore_sel)
     (intro pre keeps_update keeps_pending keeps_get keeps_seq keeps_lease keeps_release
      keeps_list keeps_seq_if_idle;
      assumption)+

lemma preorder_tx_history: "preorder_on_worlds tx_history"
proof (rule preorder_on_worldsI)
  show "tx_history d d" for d by (simp add: tx_history_def)
  show "tx_history u w" if "tx_history u v" "tx_history v w" for u v w
    unfolding tx_history_def
  proof (intro allI impI)
    fix i r assume "find_tx i (pg_transactions u) = Some r"
    then obtain r1 where r1: "find_tx i (pg_transactions v) = Some r1"
        "tr_envelope_xdr r1 = tr_envelope_xdr r" "tr_created_at r1 = tr_created_at r"
        "tr_retry_count r \<le> tr_retry_count r1"
      using \<open>tx_history u v\<close> unfolding tx_history_def by blast
    then obtain r2 where "find_tx i (pg_transactions w) = Some r2"
        "tr_envelope_xdr r2 = tr_envelope_xdr r1" "tr_created_at r2 = tr_created_at r1"
        "tr_retry_count r1 \<le> tr_retry_count r2"
      using \<open>tx_history v w\<close> unfolding tx_history_def by blast
    with r1 show "\<exists>r'. find_tx i (pg_transactions w) = Some r' \<and>
        tr_envelope_xdr r' = tr_envelope_xdr r \<and> tr_created_at r' = tr_created_at r \<and>
        tr_retry_count r \<le> tr_retry_count r'" by force
  qed
qed

lemma tx_history_same: "pg_transactions d' = pg_transactions d \<Longrightarrow> tx_history d d'"
  by (simp add: tx_history_def)

lemma tx_history_update:
  assumes "\<And>r. tr_id (f r) = tr_id r" "\<And>r. tr_envelope_xdr (f r) = tr_envelope_xdr r"
    "\<And>r. tr_created_at (f r) = tr_created_at r" "\<And>r. tr_retry_count r \<le> tr_retry_count (f r)"
  shows "tx_history d (d\<lparr>pg_transactions := update_tx_rows i f (pg_transactions d)\<rparr>)"
  using assms by (auto simp: tx_history_def find_tx_update)

interpretation history: table_relation tx_history UNIV
  by unfold_locales
     (simp_all add: preorder_tx_history tx_history_same sql_update_tx_status_def tx_history_update)

text \<open>\<open>db_ok\<close> as a relation: if it holds before, it holds after.\<close>

definition keeps_ok :: "pgdb \<Rightarrow> pgdb \<Rightarrow> bool" where
  "keeps_ok d d' \<longleftrightarrow> (db_ok d \<longrightarrow> db_ok d')"

lemma status_ok_tick [simp]: "status_ok (pg_tick d) = status_ok d"
  by (simp add: status_ok_def)

lemma db_ok_update_txs:
  assumes "db_ok d" "\<And>r. tr_id (f r) = tr_id r"
    "\<And>r. tr_status (f r) = tr_status r \<or> tr_status (f r) \<in> engine_targets"
  shows "db_ok (d\<lparr>pg_transactions := update_tx_rows i f (pg_transactions d)\<rparr>)"
proof -
  have "keys_ok (d\<lparr>pg_transactions := update_tx_rows i f (pg_transactions d)\<rparr>)"
    using assms(1,2) by (simp add: db_ok_def keys_ok_def ids_update)
  moreover have "tr_status (f r) \<in> insert TxStatusPending engine_targets"
    if "tr_status r \<in> insert TxStatusPending engine_targets" for r
    using that assms(3) [of r] by auto
  then have "\<forall>r \<in> set (update_tx_rows i f (pg_transactions d)).
      tr_status r \<in> insert TxStatusPending engine_targets"
    using assms(1) unfolding update_tx_rows_def
    by (intro ball_map_if) (auto simp: db_ok_def status_ok_def)
  then have "status_ok (d\<lparr>pg_transactions := update_tx_rows i f (pg_transactions d)\<rparr>)"
    using assms(1) by (simp add: db_ok_def status_ok_def)
  ultimately show ?thesis by (simp add: db_ok_def)
qed

lemma db_ok_update_accounts:
  assumes "db_ok d" "\<And>r. ar_public_key (f r) = ar_public_key r"
    "\<And>r. ar_status (f r) \<in> {ar_status r, ''idle'', ''leased''}"
  shows "db_ok (d\<lparr>pg_channel_accounts := update_account_rows Q f (pg_channel_accounts d)\<rparr>)"
proof -
  have "keys_ok (d\<lparr>pg_channel_accounts := update_account_rows Q f (pg_channel_accounts d)\<rparr>)"
    using assms(1,2) by (simp add: db_ok_def keys_ok_def pks_update)
  moreover have "ar_status (f r) \<in> {''idle'', ''leased''}" if "ar_status r \<in> {''idle'', ''leased''}" for r
    using assms(3) [of r] that by auto
  then have "\<forall>r \<in> set (update_account_rows Q f (pg_channel_accounts d)).
      ar_status r \<in> {''idle'', ''leased''}"
    using assms(1) unfolding update_account_rows_def
    by (intro ball_map_if)
       (auto simp: db_ok_def status_ok_def AccountStatusIdle_def AccountStatusLeased_def)
  then have "status_ok (d\<lparr>pg_channel_accounts := update_account_rows Q f (pg_channel_accounts d)\<rparr>)"
    using assms(1)
    by (simp add: db_ok_def status_ok_def AccountStatusIdle_def AccountStatusLeased_def)
  ultimately show ?thesis by (simp add: db_ok_def)
qed

lemma preorder_keeps_ok: "preorder_on_worlds keeps_ok"
  by (rule preorder_on_worldsI) (auto simp: keeps_ok_def)

interpretation wf: table_relation keeps_ok UNIV
proof unfold_locales
  show "preorder_on_worlds keeps_ok" by (rule preorder_keeps_ok)
  show "keeps_ok d (pg_tick d)" for d by (simp add: keeps_ok_def db_ok_def)
  show "keeps_ok d (snd (sql_update_tx_status i st ch er n d))" if "st \<in> engine_targets"
    for st d i ch er n
    using that by (simp add: keeps_ok_def sql_update_tx_status_def db_ok_update_txs)
  show "keeps_ok d (d\<lparr>pg_channel_accounts := update_account_rows Q f (pg_channel_accounts d)\<rparr>)"
    if "\<And>r. ar_public_key (f r) = ar_public_key r"
      "\<And>r. ar_status (f r) \<in> {ar_status r, ''idle'', ''leased''}" for f d Q
    using db_ok_update_accounts that by (simp add: keeps_ok_def)
qed

lemma increment_keeps:
  "keeps tx_history (Store_IncrementRetry i)" "keeps keeps_ok (Store_IncrementRetry i)"
  unfolding Store_IncrementRetry_def
  by (intro keeps_wrap_err history.stmt wf.stmt;
      simp add: sql_increment_retry_def tx_history_update tx_history_same keeps_ok_def
        db_ok_update_txs)+

interpretation history_retry: kept_by_store_and_retry pgTxStore pgPoolStore tx_history UNIV
  by unfold_locales (simp add: increment_keeps)

interpretation wf_retry: kept_by_store_and_retry pgTxStore pgPoolStore keeps_ok UNIV
  by unfold_locales (simp add: increment_keeps)

lemma save_tx_keeps:
  "keeps tx_history (Store_SaveTransaction tx)"
  "tx_Status tx \<in> insert TxStatusPending engine_targets \<Longrightarrow> keeps keeps_ok (Store_SaveTransaction tx)"
proof -
  show "keeps tx_history (Store_SaveTransaction tx)"
    unfolding Store_SaveTransaction_def
    by (intro keeps_wrap_err history.stmt)
       (auto simp: sql_insert_tx_def tx_history_def find_tx_def find_append)
  show "keeps keeps_ok (Store_SaveTransaction tx)"
    if "tx_Status tx \<in> insert TxStatusPending engine_targets"
    unfolding Store_SaveTransaction_def
    by (intro keeps_wrap_err wf.stmt)
       (use that in \<open>auto simp: sql_insert_tx_def keeps_ok_def db_ok_def keys_ok_def status_ok_def\<close>)
qed

lemma save_account_keeps:
  "keeps tx_history (Store_SaveChannelAccount a)"
  "ca_Status a \<in> {AccountStatusIdle, AccountStatusLeased} \<Longrightarrow>
   keeps keeps_ok (Store_SaveChannelAccount a)"
proof -
  show "keeps tx_history (Store_SaveChannelAccount a)"
    unfolding Store_SaveChannelAccount_def
    by (intro keeps_wrap_err history.stmt) (simp add: sql_insert_account_def tx_history_same)
  show "keeps keeps_ok (Store_SaveChannelAccount a)"
    if "ca_Status a \<in> {AccountStatusIdle, AccountStatusLeased}"
    unfolding Store_SaveChannelAccount_def
    by (intro keeps_wrap_err wf.stmt)
       (use that in \<open>auto simp: sql_insert_account_def keeps_ok_def db_ok_def keys_ok_def
          status_ok_def row_of_account_def\<close>)
qed

text \<open>Calls about transaction i leave every other one alone.\<close>

definition tx_frame :: "uuid \<Rightarrow> pgdb \<Rightarrow> pgdb \<Rightarrow> bool" where
  "tx_frame i d d' \<longleftrightarrow>
     (\<forall>j. j \<noteq> i \<longrightarrow> find_tx j (pg_transactions d') = find_tx j (pg_transactions d))"

lemma tx_frame_update:
  assumes "\<And>r. tr_id (f r) = tr_id r"
  shows "tx_frame i d (d\<lparr>pg_transactions := update_tx_rows i f (pg_transactions d)\<rparr>)"
  using assms by (auto simp: tx_frame_def find_tx_update)

lemma preorder_tx_frame: "preorder_on_worlds (tx_frame i)"
  by (rule preorder_on_worldsI) (auto simp: tx_frame_def)

interpretation frame: table_relation "tx_frame i" "{i}" for i
  by unfold_locales
     (auto simp: preorder_tx_frame sql_update_tx_status_def tx_frame_update, simp_all add: tx_frame_def)

text \<open>Only \<open>IncrementRetry\<close> changes a retry counter.\<close>

definition same_retries :: "pgdb \<Rightarrow> pgdb \<Rightarrow> bool" where
  "same_retries d d' \<longleftrightarrow>
     (\<forall>i. map_option tr_retry_count (find_tx i (pg_transactions d'))
        = map_option tr_retry_count (find_tx i (pg_transactions d)))"

lemma preorder_same_retries: "preorder_on_worlds same_retries"
  by (rule preorder_on_worldsI) (auto simp: same_retries_def)

interpretation retries: table_relation same_retries UNIV
  by unfold_locales
     (auto simp: preorder_same_retries sql_update_tx_status_def same_retries_def find_tx_update
        option.map_comp comp_def)

lemma increment_frame: "keeps (tx_frame i) (Store_IncrementRetry i)"
  unfolding Store_IncrementRetry_def
  by (intro keeps_wrap_err frame.stmt) (simp add: sql_increment_retry_def tx_frame_update, simp add: tx_frame_def)

interpretation frame_retry: kept_by_store_and_retry pgTxStore pgPoolStore "tx_frame i" "{i}" for i
  by unfold_locales (simp add: increment_frame)

lemma save_tx_views:
  assumes "db_quiet d" "Store_SaveTransaction tx d = (r, d')"
  shows "db_accts d' = db_accts d \<and>
    (case r of
       Ok u \<Rightarrow> db_txs d (tx_ID tx) = None \<and> db_txs d' = (db_txs d)(tx_ID tx \<mapsto>
          \<lparr>av_env = tx_EnvelopeXDR tx, av_status = tx_Status tx, av_chan = None,
           av_retry = tx_RetryCount tx, av_err = None\<rparr>)
     | _ \<Rightarrow> db_txs d' = db_txs d)"
proof -
  have new: "find_tx (tx_ID tx) (pg_transactions d) = None"
    if "tx_ID tx \<notin> tr_id ` set (pg_transactions d)"
    using that find_tx_None by blast
  show ?thesis
    using assms new
    by (auto simp: Store_SaveTransaction_def wrap_err_def try_call_def quiet_pg_stmt sql_insert_tx_def
        db_txs_def find_tx_def find_append view_of_tx_row_def fun_eq_iff
        split: if_splits prod.splits res.splits option.splits)
qed

section \<open>Properties of the store\<close>

text \<open>A database without faults, locks or interference, for concrete runs.\<close>

definition calm_db :: "tx_row list \<Rightarrow> acct_row list \<Rightarrow> goerr + string \<Rightarrow> pgdb" where
  "calm_db txs accts sn =
     \<lparr>pg_transactions = txs, pg_channel_accounts = accts, pg_calls = 0, pg_fault = \<lambda>_. None,
      pg_clock = \<lambda>n. int n, pg_locked = \<lambda>_ _. False, pg_error = \<lambda>_. Foreign ''pg'',
      pg_scan_null = sn\<rparr>"

lemma calm_db_sel [simp]:
  "pg_transactions (calm_db txs accts sn) = txs" "pg_channel_accounts (calm_db txs accts sn) = accts"
  "pg_calls (calm_db txs accts sn) = 0" "pg_fault (calm_db txs accts sn) = (\<lambda>_. None)"
  "pg_locked (calm_db txs accts sn) = (\<lambda>_ _. False)" "pg_scan_null (calm_db txs accts sn) = sn"
  "pg_clock (calm_db txs accts sn) = (\<lambda>n. int n)"
  by (simp_all add: calm_db_def)

lemma calm_db_quiet [simp]:
  "db_quiet (calm_db txs accts sn) \<longleftrightarrow> distinct (map tr_id txs) \<and> distinct (map ar_public_key accts)"
  by (simp add: db_quiet_def keys_ok_def no_faults_def)

abbreviation sample_tx :: "uuid \<Rightarrow> string \<Rightarrow> string option \<Rightarrow> tx_row" where
  "sample_tx i st txt \<equiv> \<lparr>tr_id = i, tr_envelope_xdr = ''AAAA'', tr_status = st,
     tr_channel_account = txt, tr_retry_count = 1, tr_last_error = txt, tr_created_at = 5,
     tr_updated_at = 5\<rparr>"

abbreviation sample_acct :: "string \<Rightarrow> string \<Rightarrow> time option \<Rightarrow> acct_row" where
  "sample_acct k st t \<equiv> \<lparr>ar_public_key = k, ar_encrypted_secret = ''S'', ar_status = st,
     ar_sequence_number = 7, ar_last_used_at = t\<rparr>"

text \<open>
  C9. The lease, under every fault and every lock of other sessions: if it returns an account, that
  account's row was idle, not locked, and none of the other idle and unlocked rows was used less
  recently (never used counts as least recent); the row is marked leased and nothing else changes.
\<close>

theorem lease_least_recently_used:
  assumes "Store_LeaseChannelAccount d = (Ok ra, d')"
  shows "\<exists>r. ra = Some (account_of_row r) \<and> r \<in> set (pg_channel_accounts d) \<and>
    ar_status r = AccountStatusIdle \<and> \<not> pg_locked d (Suc (pg_calls d)) (ar_public_key r) \<and>
    (\<forall>s. s \<in> set (pg_channel_accounts d) \<and> ar_status s = AccountStatusIdle \<and>
       \<not> pg_locked d (Suc (pg_calls d)) (ar_public_key s) \<longrightarrow> ar_last_used_at r \<le> ar_last_used_at s) \<and>
    pg_channel_accounts d' = mark_leased (ar_public_key r) (pg_channel_accounts d) \<and>
    pg_transactions d' = pg_transactions d"
proof -
  obtain r where r: "lease_candidate (pg_locked d (Suc (pg_calls d))) (pg_channel_accounts d) = Some r"
      "ra = Some (account_of_row r)"
      "pg_channel_accounts d' = mark_leased (ar_public_key r) (pg_channel_accounts d)"
      "pg_transactions d' = pg_transactions d"
    using assms
    by (auto simp: Store_LeaseChannelAccount_def try_call_def in_tx_def pg_stmt_def account_of_row_def
        split: option.splits fault.splits prod.splits res.splits if_splits)
  show ?thesis
    using r lease_candidate_SomeD [OF r(1)] lease_candidate_least [OF r(1)]
    by (intro exI [of _ r]) (auto simp: AccountStatusIdle_def)
qed

theorem lease_least_recently_used_witness:
  "\<exists>d' r. Store_LeaseChannelAccount (calm_db [] [sample_acct ''GA'' ''idle'' (Some 3),
       sample_acct ''GB'' ''idle'' None] (Inr [])) = (Ok (Some r), d') \<and>
     (\<exists>row. r = account_of_row row \<and> ar_status row = AccountStatusIdle)"
proof -
  let ?d = "calm_db [] [sample_acct ''GA'' ''idle'' (Some 3), sample_acct ''GB'' ''idle'' None] (Inr [])"
  obtain ra d' where l: "Store_LeaseChannelAccount ?d = (Ok ra, d')"
    using lease_progress_db [of ?d "''GA''"]
    by (auto simp: db_accts_def find_account_def view_of_acct_row_def AccountStatusIdle_def)
  from lease_least_recently_used [OF this] show ?thesis using l by auto
qed

text \<open>
  An error of the lease leaves the tables as they were, with one exception: when the reply to
  the commit is lost, the candidate's row is marked leased although the caller holds nothing.
\<close>

lemma lease_error_atomic:
  assumes "Store_LeaseChannelAccount d = (Error e, d')"
  shows "pg_transactions d' = pg_transactions d \<and>
    (pg_channel_accounts d' = pg_channel_accounts d \<or>
     (\<exists>r err. lease_candidate (pg_locked d (Suc (pg_calls d))) (pg_channel_accounts d) = Some r \<and>
        pg_fault d (pg_calls d + 3) = Some (ReplyLost err) \<and>
        pg_channel_accounts d' = mark_leased (ar_public_key r) (pg_channel_accounts d)))"
  using assms
  by (auto simp: Store_LeaseChannelAccount_def try_call_def in_tx_def pg_stmt_def account_of_row_def
      pg_fault_now_def eval_nat_numeral
      split: option.splits fault.splits prod.splits res.splits if_splits)


text \<open>
  What \<open>UpdateTransactionStatus\<close> writes is what \<open>GetTransaction\<close> reads back, with the envelope,
  the retry counter and the creation time of the row and the server's time of the update.
\<close>

lemma status_round_trip:
  assumes "db_quiet d" "find_tx i (pg_transactions d) = Some r"
    and "Store_UpdateTransactionStatus i st ch er d = (x, d1)"
  shows "x = Ok () \<and> (\<exists>d2. Store_GetTransaction i d1 =
    (Ok \<lparr>tx_ID = i, tx_EnvelopeXDR = tr_envelope_xdr r, tx_Status = st, tx_ChannelAccount = ch,
         tx_RetryCount = tr_retry_count r, tx_LastError = er, tx_CreatedAt = tr_created_at r,
         tx_UpdatedAt = pg_clock d (pg_calls d)\<rparr>, d2))"
proof -
  let ?f = "\<lambda>r. r\<lparr>tr_status := st, tr_channel_account := Some ch, tr_last_error := Some er,
     tr_updated_at := pg_clock d (pg_calls d)\<rparr>"
  have "affected_tx_rows i (pg_transactions d) \<noteq> 0"
    using assms(2) by (simp add: affected_zero)
  then have x: "x = Ok ()" and
    d1: "d1 = (pg_tick d)\<lparr>pg_transactions := update_tx_rows i ?f (pg_transactions d)\<rparr>"
    using assms(1,3)
    by (auto simp: Store_UpdateTransactionStatus_def try_call_def quiet_pg_stmt sql_update_tx_status_def)
  have q: "db_quiet d1" using assms(1) by (simp add: d1 ids_update quiet_keys)
  have "find_tx i (pg_transactions d1) = Some (?f r)"
    using assms(2) by (simp add: d1 find_tx_update find_tx_id)
  then show ?thesis
    using x q find_tx_id [OF assms(2)]
    by (simp add: Store_GetTransaction_def wrap_err_def try_call_def select_tx_quiet scan_tx_def)
qed

text \<open>
  C30. \<open>SaveTransaction\<close> leaves \<open>channel_account\<close> and \<open>last_error\<close> NULL. If the driver refuses to scan
  NULL into a Go string, as pgx does, a transaction just saved can be read by none of the reads:
  not by id, not for a retry, and not as the head of the queue.
\<close>

theorem saved_row_unreadable:
  assumes "db_quiet d" "pg_scan_null d = Inl ne" "tx_ID tx \<notin> tr_id ` set (pg_transactions d)"
    "int4_ok (tx_RetryCount tx)" "pg_text_ok (tx_EnvelopeXDR tx)" "Store_SaveTransaction tx d = (x, d1)"
  shows "x = Ok () \<and>
    fst (Store_GetTransaction (tx_ID tx) d1)
      = Error (Wrap [Lit ''fetching transaction '', Uid (tx_ID tx), Lit '': ''] ne) \<and>
    fst (Store_GetTransactionForRetry (tx_ID tx) d1)
      = Error (Wrap [Lit ''fetching transaction '', Uid (tx_ID tx), Lit '' for retry: ''] ne) \<and>
    ((\<forall>r \<in> set (pg_transactions d). tr_status r \<noteq> ''pending'') \<and> tx_Status tx = TxStatusPending \<and> 0 < n \<longrightarrow>
     fst (Store_GetPendingTransactions n d1)
       = Error (Wrap [Lit ''collecting pending transactions: ''] ne))"
proof -
  let ?row = "\<lparr>tr_id = tx_ID tx, tr_envelope_xdr = tx_EnvelopeXDR tx, tr_status = tx_Status tx,
    tr_channel_account = None, tr_retry_count = tx_RetryCount tx, tr_last_error = None,
    tr_created_at = pg_clock d (pg_calls d), tr_updated_at = pg_clock d (pg_calls d)\<rparr>"
  have x: "x = Ok ()" and d1: "d1 = (pg_tick d)\<lparr>pg_transactions := pg_transactions d @ [?row]\<rparr>"
    using assms
    by (auto simp: Store_SaveTransaction_def wrap_err_def try_call_def quiet_pg_stmt sql_insert_tx_def)
  have q: "db_quiet d1" using assms(1,3) by (auto simp: d1 quiet_keys)
  have f: "find_tx (tx_ID tx) (pg_transactions d1) = Some ?row"
    using assms(3) find_tx_None [of "tx_ID tx" "pg_transactions d"]
    by (simp add: d1 find_tx_def find_append)
  have p: "fst (Store_GetPendingTransactions n d1)
       = Error (Wrap [Lit ''collecting pending transactions: ''] ne)"
    if "\<forall>r \<in> set (pg_transactions d). tr_status r \<noteq> ''pending''" "tx_Status tx = TxStatusPending" "0 < n"
  proof -
    have "pending_rows (pg_transactions d1) = [?row]"
      using that by (simp add: d1 pending_rows_def TxStatusPending_def)
    moreover have "\<exists>m. nat n = Suc m" using that(3) by (cases "nat n") auto
    ultimately show ?thesis
      using q that(3) assms(2)
      by (auto simp add: Store_GetPendingTransactions_def quiet_pg_query wrap_err_def try_call_def
          sql_select_pending_def scan_tx_def d1)
  qed
  show ?thesis
    using x q f p assms(2)
    by (auto simp: Store_GetTransaction_def Store_GetTransactionForRetry_def wrap_err_def try_call_def
        select_tx_quiet scan_tx_def d1)
qed

lemma pg_text_ok_ascii: "(\<forall>c \<in> set s. of_char c < (0x80 :: nat) \<and> c \<noteq> CHR 0x00) \<Longrightarrow> pg_text_ok s"
  unfolding pg_text_ok_def by (auto intro: valid_utf8_ascii)

lemma sample_text_ok [simp]: "pg_text_ok ''AAAA''"
  by (rule pg_text_ok_ascii) simp

theorem saved_row_unreadable_witness:
  "fst (Store_GetPendingTransactions 1 (snd (Store_SaveTransaction
      \<lparr>tx_ID = 9, tx_EnvelopeXDR = ''AAAA'', tx_Status = TxStatusPending, tx_ChannelAccount = [],
       tx_RetryCount = 0, tx_LastError = [], tx_CreatedAt = 0, tx_UpdatedAt = 0\<rparr>
      (calm_db [sample_tx 4 ''failed'' (Some [])] [] (Inl (Foreign ''null''))))))
   = Error (Wrap [Lit ''collecting pending transactions: ''] (Foreign ''null''))"
proof -
  let ?d = "calm_db [sample_tx 4 ''failed'' (Some [])] [] (Inl (Foreign ''null''))"
  let ?tx = "\<lparr>tx_ID = 9, tx_EnvelopeXDR = ''AAAA'', tx_Status = TxStatusPending, tx_ChannelAccount = [],
       tx_RetryCount = 0, tx_LastError = [], tx_CreatedAt = 0, tx_UpdatedAt = 0\<rparr>"
  show ?thesis
    using saved_row_unreadable [of ?d "Foreign ''null''" ?tx "fst (Store_SaveTransaction ?tx ?d)"
        "snd (Store_SaveTransaction ?tx ?d)" 1]
    by (simp add: int4_ok_def int4_max_def)
qed

lemma collect_rows_map:
  assumes "collect_rows sc rs = Ok as" "\<And>r a. sc r = Ok a \<Longrightarrow> f a = g r"
  shows "map f as = map g rs"
  using assms(1)
proof (induction rs arbitrary: as)
  case (Cons r rs)
  then show ?case using assms(2) by (auto split: res.splits)
qed simp

text \<open>
  C29. The queue is read oldest first: the call returns as many of the pending rows as the limit
  allows, in the order of their creation, each still pending, and no row left out is older than
  one returned.
\<close>

theorem pending_oldest_first:
  assumes "Store_GetPendingTransactions n d = (Ok txs, d')"
  shows "length txs = min (nat n) (length (filter (\<lambda>r. tr_status r = TxStatusPending) (pg_transactions d))) \<and>
    sorted (map tx_CreatedAt txs) \<and> (\<forall>tx \<in> set txs. tx_Status tx = TxStatusPending) \<and>
    (\<forall>tx \<in> set txs. \<forall>r \<in> set (pg_transactions d).
       tr_status r = TxStatusPending \<and> tr_id r \<notin> tx_ID ` set txs \<longrightarrow> tx_CreatedAt tx \<le> tr_created_at r) \<and>
    pg_transactions d' = pg_transactions d"
proof -
  let ?ps = "pending_rows (pg_transactions d)" and ?n = "nat n"
  have c: "collect_rows (scan_tx (pg_scan_null d)) (take ?n ?ps) = Ok txs"
    and t: "pg_transactions d' = pg_transactions d"
    using assms
    by (auto simp: Store_GetPendingTransactions_def try_call_def wrap_err_def pg_query_def
        sql_select_pending_def split: option.splits fault.splits if_splits res.splits prod.splits)
  have ids: "map tx_ID txs = map tr_id (take ?n ?ps)" and at: "map tx_CreatedAt txs = map tr_created_at (take ?n ?ps)"
    and st: "map tx_Status txs = map tr_status (take ?n ?ps)"
    by (rule collect_rows_map [OF c]; auto simp: scan_tx_def split: sum.splits)+
  have len: "length ?ps = length (filter (\<lambda>r. tr_status r = TxStatusPending) (pg_transactions d))"
    by (simp add: pending_rows_def TxStatusPending_def)
  have s: "sorted (map tr_created_at (take ?n ?ps @ drop ?n ?ps))"
    by (simp add: pending_rows_def)
  have "length txs = length (take ?n ?ps)" using ids by (metis length_map)
  moreover have "sorted (map tx_CreatedAt txs)"
    using s at by (simp only: map_append sorted_append)
  moreover have "tx_Status tx = TxStatusPending" if tx: "tx \<in> set txs" for tx
  proof -
    have "tx_Status tx \<in> set (map tr_status (take ?n ?ps))" using tx st by (metis imageI list.set_map)
    then obtain r where "r \<in> set (take ?n ?ps)" "tr_status r = tx_Status tx" by auto
    then show ?thesis by (auto simp: pending_rows_set TxStatusPending_def dest: in_set_takeD)
  qed
  moreover have "tx_CreatedAt tx \<le> tr_created_at r"
    if tx: "tx \<in> set txs" and r: "r \<in> set (pg_transactions d)" "tr_status r = TxStatusPending"
      "tr_id r \<notin> tx_ID ` set txs" for tx r
  proof -
    have "tx_ID ` set txs = tr_id ` set (take ?n ?ps)" using ids by (metis list.set_map)
    then have "r \<notin> set (take ?n ?ps)" using r(3) by auto
    moreover have "r \<in> set (take ?n ?ps @ drop ?n ?ps)"
      using r by (simp add: pending_rows_set TxStatusPending_def)
    ultimately have "tr_created_at r \<in> set (map tr_created_at (drop ?n ?ps))"
      by (simp del: append_take_drop_id)
    moreover have "tx_CreatedAt tx \<in> set (map tr_created_at (take ?n ?ps))"
      using tx at by (metis imageI list.set_map)
    moreover have "\<forall>x \<in> set (map tr_created_at (take ?n ?ps)).
        \<forall>y \<in> set (map tr_created_at (drop ?n ?ps)). x \<le> y"
      using s unfolding map_append sorted_append by (rule conjunct2 [THEN conjunct2])
    ultimately show ?thesis by blast
  qed
  ultimately show ?thesis using len t by (simp add: min.commute)
qed

theorem pending_oldest_first_witness:
  "\<exists>txs d'. Store_GetPendingTransactions 1 (calm_db [sample_tx 4 ''pending'' (Some ''x''),
       sample_tx 5 ''failed'' (Some ''x'')] [] (Inr [])) = (Ok txs, d') \<and>
     length txs = 1 \<and> (\<forall>tx \<in> set txs. tx_Status tx = TxStatusPending)"
proof -
  let ?d = "calm_db [sample_tx 4 ''pending'' (Some ''x''), sample_tx 5 ''failed'' (Some ''x'')] [] (Inr [])"
  obtain txs d' where g: "Store_GetPendingTransactions 1 ?d = (Ok txs, d')"
    by (auto simp: Store_GetPendingTransactions_def try_call_def wrap_err_def quiet_pg_query
        sql_select_pending_def pending_rows_def scan_tx_def)
  from pending_oldest_first [OF this] show ?thesis using g by (auto simp: TxStatusPending_def)
qed

end
