(* ===== verification/Strconv.thy ===== *)
theory Strconv
  imports Prelude
begin

text \<open>
  The decimal parser of Go's strconv on a 64-bit platform: an optional sign, at least one digit,
  nothing else, and a value in the range of \<open>int64\<close>.
\<close>

section \<open>strconv.Atoi\<close>

definition digit_val :: "char \<Rightarrow> nat option" where
  "digit_val c = (let n = of_char c :: nat in if 48 \<le> n \<and> n \<le> 57 then Some (n - 48) else None)"

definition is_digit :: "char \<Rightarrow> bool" where
  "is_digit c \<longleftrightarrow> digit_val c \<noteq> None"

text \<open>\<open>for _, ch := range s { ch -= '0'; if ch > 9 { error }; n = n*10 + ch }\<close>.\<close>

fun dec_value :: "nat \<Rightarrow> string \<Rightarrow> nat option" where
  "dec_value n [] = Some n"
| "dec_value n (c # cs) =
     (case digit_val c of None \<Rightarrow> None | Some d \<Rightarrow> dec_value (n * 10 + d) cs)"

definition i64_range :: "int \<Rightarrow> bool" where
  "i64_range i \<longleftrightarrow> - (2 ^ 63) \<le> i \<and> i < 2 ^ 63"

definition signed_value :: "bool \<Rightarrow> string \<Rightarrow> int option" where
  "signed_value neg ds =
     (if ds = [] then None
      else case dec_value 0 ds of
        None \<Rightarrow> None
      | Some n \<Rightarrow> (let i = (if neg then - int n else int n)
                  in if i64_range i then Some i else None))"

text \<open>\<open>Atoi(s)\<close> and \<open>ParseInt(s, 10, 64)\<close> accept the same strings, with the same values.\<close>

definition Atoi :: "string \<Rightarrow> int option" where
  "Atoi s =
     (case s of
        [] \<Rightarrow> None
      | c # cs \<Rightarrow> (if c = CHR ''-'' then signed_value True cs
                  else if c = CHR ''+'' then signed_value False cs
                  else signed_value False s))"

section \<open>Facts about the number parser\<close>

lemma digit_val_char [simp]: "d < 10 \<Longrightarrow> digit_val (char_of (48 + d)) = Some d"
  by (simp add: digit_val_def)

lemma dec_value_append: "dec_value n (xs @ ys) = Option.bind (dec_value n xs) (\<lambda>m. dec_value m ys)"
  by (induction xs arbitrary: n) (auto split: option.split)

lemma dec_value_digits: "dec_value 0 (dec_digits n) = Some n"
proof (induction n rule: dec_digits.induct)
  case (1 n)
  show ?case
  proof (cases "n < 10")
    case True
    then show ?thesis by (simp add: dec_digits.simps)
  next
    case False
    then show ?thesis using 1 by (subst dec_digits.simps) (simp add: dec_value_append)
  qed
qed

lemma dec_digits_nonempty: "dec_digits n \<noteq> []"
  by (subst dec_digits.simps) simp

lemma dec_digits_hd: "hd (dec_digits n) \<notin> {CHR ''-'', CHR ''+''}"
proof -
  obtain c cs where cs: "dec_digits n = c # cs" using dec_digits_nonempty by (cases "dec_digits n") auto
  have "digit_val c \<noteq> None" using dec_value_digits [of n] cs by (auto split: option.splits)
  then show ?thesis using cs by (auto simp: digit_val_def Let_def)
qed

lemma Atoi_nonneg: "0 \<le> i \<Longrightarrow> i64_range i \<Longrightarrow> Atoi (dec_digits (nat i)) = Some i"
  using dec_digits_hd [of "nat i"] dec_digits_nonempty [of "nat i"] dec_value_digits [of "nat i"]
  by (auto simp: Atoi_def signed_value_def Let_def split: list.split)

lemma Atoi_neg: "i < 0 \<Longrightarrow> i64_range i \<Longrightarrow> Atoi (''-'' @ dec_digits (nat (- i))) = Some i"
  by (simp add: Atoi_def signed_value_def dec_digits_nonempty dec_value_digits Let_def)

lemma Atoi_itoa: "i64_range i \<Longrightarrow> Atoi (itoa i) = Some i"
  using Atoi_nonneg [of i] Atoi_neg [of i] by (simp add: itoa_def)

lemma itoa_nonempty: "itoa i \<noteq> []"
  by (simp add: itoa_def dec_digits_nonempty)

lemma Atoi_range: "Atoi s = Some i \<Longrightarrow> i64_range i"
  by (auto simp: Atoi_def signed_value_def Let_def split: list.splits if_splits option.splits)

end
