(* ===== verification/Pool.thy ===== *)
theory Pool
  imports Interfaces Strconv
begin

text \<open>
  internal/channelaccounts: leasing and releasing channel accounts (pool.go), the reconciliation
  of sequence numbers with the network (sync.go) and the creation of accounts (refill.go), over the
  pool's \<open>Store\<close> and \<open>HorizonClient\<close> interfaces. \<open>time.Now\<close> is read from the world; the random
  source and the Stellar key derivation are parameters.
\<close>

record 'w Pool =
  pl_store :: "'w PoolStore"
  pl_horizonCli :: "'w HorizonAPI"
  pl_master :: string
  pl_refillN :: int

definition NewPool :: "'w PoolStore \<Rightarrow> 'w HorizonAPI \<Rightarrow> string \<Rightarrow> int \<Rightarrow> 'w Pool" where
  "NewPool store horizonCli master refillN =
     \<lparr>pl_store = store, pl_horizonCli = horizonCli, pl_master = master, pl_refillN = refillN\<rparr>"

section \<open>Lease and release\<close>

text \<open>The store's pointer is dereferenced without a check: a nil record with a nil error panics.\<close>

definition Pool_Lease :: "'w Pool \<Rightarrow> ('w, Account) op" where
  "Pool_Lease p =
     try_call (ps_LeaseChannelAccount (pl_store p))
       (\<lambda>acct. case acct of
            None \<Rightarrow> ret Panic
          | Some a \<Rightarrow> ret (Ok \<lparr>acc_PublicKey = ca_PublicKey a,
               acc_EncryptedSecret = ca_EncryptedSecret a,
               acc_SequenceNumber = ca_SequenceNumber a\<rparr>))
       (\<lambda>e. ret (Error (Wrap [Lit ''leasing channel account from pool: ''] e)))"

definition Pool_Release :: "('w \<Rightarrow> time) \<Rightarrow> 'w Pool \<Rightarrow> Account \<Rightarrow> ('w, unit) op" where
  "Pool_Release now p acct w =
     wrap_err [Lit ''releasing channel account '', Lit (acc_PublicKey acct), Lit '': '']
       (ps_ReleaseChannelAccount (pl_store p) (acc_PublicKey acct) (now w)) w"

text \<open>\<open>parseSeqToInt64\<close>: a base-10 \<open>int64\<close>, zero on any error.\<close>

definition parseSeqToInt64 :: "string \<Rightarrow> i64" where
  "parseSeqToInt64 s = (case Atoi s of None \<Rightarrow> 0 | Some n \<Rightarrow> word_of_int n)"

section \<open>Sequence number reconciliation\<close>

definition syncOne :: "'w Pool \<Rightarrow> ChannelAccount \<Rightarrow> ('w, unit) op" where
  "syncOne p acct =
     try_call (hz_Account (pl_horizonCli p) (ca_PublicKey acct))
       (\<lambda>networkSeq.
          if sint networkSeq \<le> sint (ca_SequenceNumber acct) then ret (Ok ())
          else wrap_err [Lit ''updating sequence for '', Lit (ca_PublicKey acct), Lit '': '']
                 (ps_UpdateSequenceNumberIfIdle (pl_store p) (ca_PublicKey acct) networkSeq))
       (\<lambda>e. ret (Error (Wrap [Lit ''fetching network sequence for '', Lit (ca_PublicKey acct),
                               Lit '': ''] e)))"

primrec sync_loop :: "'w Pool \<Rightarrow> ChannelAccount list \<Rightarrow> ('w, unit) op" where
  "sync_loop p [] = ret (Ok ())"
| "sync_loop p (acct # accts) =
     (if ca_Status acct \<noteq> AccountStatusIdle then sync_loop p accts
      else log_err (syncOne p acct) (sync_loop p accts))"

definition SyncSequenceNumbers :: "'w Pool \<Rightarrow> ('w, unit) op" where
  "SyncSequenceNumbers p =
     try_call (ps_ListChannelAccounts (pl_store p))
       (sync_loop p)
       (\<lambda>e. ret (Error (Wrap [Lit ''listing channel accounts for sync: ''] e)))"

section \<open>Refill\<close>

text \<open>
  \<open>rand.Read\<close> fills the seed from the world; \<open>keypair.FromRawEntropy\<close> with its \<open>Address\<close> and
  \<open>Private\<close> is third-party.
\<close>

record 'w key_source =
  ks_Read :: "('w, 8 word list) op"
  ks_FromRawEntropy :: "8 word list \<Rightarrow> goerr + (string \<times> string)"

definition refillOne :: "'w key_source \<Rightarrow> 'w Pool \<Rightarrow> ('w, unit) op" where
  "refillOne ks p =
     try_call (ks_Read ks)
       (\<lambda>seed. case ks_FromRawEntropy ks seed of
            Inl e \<Rightarrow> ret (Error (Wrap [Lit ''deriving keypair from seed: ''] e))
          | Inr (address, private) \<Rightarrow>
              wrap_err [Lit ''saving channel account '', Lit address, Lit '': '']
                (ps_SaveChannelAccount (pl_store p)
                   \<lparr>ca_PublicKey = address, ca_EncryptedSecret = private,
                    ca_Status = AccountStatusIdle, ca_SequenceNumber = 0,
                    ca_LastUsedAt = None\<rparr>))
       (\<lambda>e. ret (Error (Wrap [Lit ''generating seed: ''] e)))"

text \<open>The loop over i from 0; \<open>k\<close> iterations are left.\<close>

primrec refill_loop :: "'w key_source \<Rightarrow> 'w Pool \<Rightarrow> nat \<Rightarrow> int \<Rightarrow> ('w, unit) op" where
  "refill_loop ks p 0 i = ret (Ok ())"
| "refill_loop ks p (Suc k) i =
     try_call (refillOne ks p)
       (\<lambda>_. refill_loop ks p k (i + 1))
       (\<lambda>e. ret (Error (Wrap [Lit ''refilling account '', Num i, Lit '': ''] e)))"

definition Refill :: "'w key_source \<Rightarrow> 'w Pool \<Rightarrow> int \<Rightarrow> ('w, unit) op" where
  "Refill ks p count =
     (if count < 1
      then ret (Error (ErrText [Lit ''refill count must be >= 1, got '', Num count]))
      else refill_loop ks p (nat count) 0)"

section \<open>The pool's operations over any store that keeps its contract\<close>

text \<open>\<open>net k\<close> is what the network answers for account k: an error, or its sequence number.\<close>

definition sync_seq :: "(string \<Rightarrow> goerr + i64) \<Rightarrow> string \<Rightarrow> acct_view \<Rightarrow> acct_view" where
  "sync_seq net k v =
     (case net k of
        Inl e \<Rightarrow> v
      | Inr q \<Rightarrow> (if aw_status v = AccountStatusIdle \<and> sint (aw_seq v) < sint q
                then v\<lparr>aw_seq := q\<rparr> else v))"

text \<open>\<open>sync_some ks\<close>: the effect of reconciling the accounts named in \<open>ks\<close> only.\<close>

definition sync_some ::
  "(string \<Rightarrow> goerr + i64) \<Rightarrow> string set \<Rightarrow> (string \<Rightarrow> acct_view option) \<Rightarrow> (string \<Rightarrow> acct_view option)"
where
  "sync_some net ks m = (\<lambda>k. if k \<in> ks then map_option (sync_seq net k) (m k) else m k)"

locale pool_client = pool_store P quiet txs accts
  for P :: "'w PoolStore" and quiet :: "'w \<Rightarrow> bool"
    and txs :: "'w \<Rightarrow> uuid \<Rightarrow> tx_view option"
    and accts :: "'w \<Rightarrow> string \<Rightarrow> acct_view option" +
  fixes p :: "'w Pool"
  assumes store_of_pool: "pl_store p = P"
begin

lemma Lease_ok:
  assumes "quiet w" "Pool_Lease p w = (Ok a, w')"
  shows "\<exists>v. accts w (acc_PublicKey a) = Some v \<and> aw_status v = AccountStatusIdle \<and>
    acc_SequenceNumber a = aw_seq v \<and> quiet w' \<and> txs w' = txs w \<and>
    accts w' = (accts w)(acc_PublicKey a \<mapsto> v\<lparr>aw_status := AccountStatusLeased\<rparr>)"
proof -
  obtain ra where l: "ps_LeaseChannelAccount P w = (Ok ra, w')"
      "a = \<lparr>acc_PublicKey = ca_PublicKey (the ra), acc_EncryptedSecret = ca_EncryptedSecret (the ra),
            acc_SequenceNumber = ca_SequenceNumber (the ra)\<rparr>"
    using assms(2)
    by (auto simp: Pool_Lease_def store_of_pool try_call_def split: prod.splits res.splits option.splits)
  from lease_ok [OF assms(1) l(1)] l(2) show ?thesis by auto
qed

lemma Lease_err:
  assumes "quiet w" "Pool_Lease p w = (Error e, w')"
  shows "quiet w' \<and> txs w' = txs w \<and> accts w' = accts w \<and>
    (\<forall>k v. accts w k = Some v \<longrightarrow> aw_status v \<noteq> AccountStatusIdle)"
proof -
  obtain e1 where l: "ps_LeaseChannelAccount P w = (Error e1, w')"
    using assms(2)
    by (auto simp: Pool_Lease_def store_of_pool try_call_def split: prod.splits res.splits option.splits)
  have "aw_status v \<noteq> AccountStatusIdle" if "accts w k = Some v" for k v
    using lease_progress [OF assms(1) that] l by auto
  with lease_err [OF assms(1) l] show ?thesis by blast
qed

lemma Lease_no_panic: "quiet w \<Longrightarrow> fst (Pool_Lease p w) \<noteq> Panic"
  using lease_no_panic [of w] lease_ok [of w]
  by (auto simp: Pool_Lease_def store_of_pool try_call_def split: prod.splits res.splits option.splits)

lemma Release_ok:
  assumes "quiet w" "accts w (acc_PublicKey a) = Some v"
  shows "\<exists>w'. Pool_Release now p a w = (Ok (), w') \<and> quiet w' \<and> txs w' = txs w \<and>
    accts w' = (accts w)(acc_PublicKey a \<mapsto> v\<lparr>aw_status := AccountStatusIdle, aw_last := Some (now w)\<rparr>)"
  using release [OF assms, of "now w"]
  by (auto simp: Pool_Release_def store_of_pool wrap_err_def try_call_def)

text \<open>Leasing and releasing gives back every account, with only \<open>last_used_at\<close> of one changed.\<close>

lemma lease_release:
  assumes "quiet w" "Pool_Lease p w = (Ok a, w1)" "Pool_Release now p a w1 = (r, w2)"
  shows "r = Ok () \<and> quiet w2 \<and> txs w2 = txs w \<and>
    (\<exists>v. accts w (acc_PublicKey a) = Some v \<and>
       accts w2 = (accts w)(acc_PublicKey a \<mapsto> v\<lparr>aw_last := Some (now w1)\<rparr>))"
proof -
  obtain v where v: "accts w (acc_PublicKey a) = Some v" "aw_status v = AccountStatusIdle"
      "quiet w1" "txs w1 = txs w"
      "accts w1 = (accts w)(acc_PublicKey a \<mapsto> v\<lparr>aw_status := AccountStatusLeased\<rparr>)"
    using Lease_ok [OF assms(1,2)] by blast
  have idle: "v\<lparr>aw_status := AccountStatusIdle\<rparr> = v" using v(2) by (cases v) simp
  from Release_ok [OF v(3), of a _ now] v(5) obtain w' where
    "Pool_Release now p a w1 = (Ok (), w')" "quiet w'" "txs w' = txs w1"
    "accts w' = (accts w)(acc_PublicKey a \<mapsto> v\<lparr>aw_status := AccountStatusIdle, aw_last := Some (now w1)\<rparr>)"
    by auto
  moreover have "v\<lparr>aw_status := AccountStatusIdle, aw_last := Some (now w1)\<rparr> = v\<lparr>aw_last := Some (now w1)\<rparr>"
    using v(2) by (cases v) simp
  ultimately show ?thesis using assms(3) v by auto
qed

end

text \<open>The same pool with a network whose answers do not change while the pool reconciles.\<close>

locale pool_sync = pool_client P quiet txs accts p
  for P :: "'w PoolStore" and quiet :: "'w \<Rightarrow> bool"
    and txs :: "'w \<Rightarrow> uuid \<Rightarrow> tx_view option"
    and accts :: "'w \<Rightarrow> string \<Rightarrow> acct_view option"
    and p :: "'w Pool" +
  fixes net :: "string \<Rightarrow> goerr + i64"
  assumes network: "quiet w \<Longrightarrow>
      \<exists>w'. hz_Account (pl_horizonCli p) k w = (of_sum (net k), w') \<and>
        quiet w' \<and> txs w' = txs w \<and> accts w' = accts w"
begin

lemma syncOne_run:
  assumes "quiet w" "accts w (ca_PublicKey a) = Some v" "ca_Status a = AccountStatusIdle"
    "ca_SequenceNumber a = aw_seq v" "aw_status v = ca_Status a"
  shows "\<exists>r w'. syncOne p a w = (r, w') \<and> r \<noteq> Panic \<and> quiet w' \<and> txs w' = txs w \<and>
    accts w' = sync_some net {ca_PublicKey a} (accts w)"
proof -
  let ?k = "ca_PublicKey a"
  obtain w1 where n: "hz_Account (pl_horizonCli p) ?k w = (of_sum (net ?k), w1)" and w1: "quiet w1"
      "txs w1 = txs w" "accts w1 = accts w"
    using network [OF assms(1)] by blast
  show ?thesis
  proof (cases "net ?k")
    case (Inl e)
    then have "sync_some net {?k} (accts w) = accts w"
      using assms by (auto simp: sync_some_def sync_seq_def fun_eq_iff)
    then show ?thesis using n w1 Inl by (simp add: syncOne_def try_call_def)
  next
    case q: (Inr q)
    show ?thesis
    proof (cases "sint q \<le> sint (ca_SequenceNumber a)")
      case True
      then have "sync_some net {?k} (accts w) = accts w"
        using assms q by (auto simp: sync_some_def sync_seq_def fun_eq_iff)
      then show ?thesis using n w1 q True by (simp add: syncOne_def try_call_def)
    next
      case False
      obtain w2 where w2: "ps_UpdateSequenceNumberIfIdle P ?k q w1 = (Ok (), w2)" "quiet w2"
          "txs w2 = txs w1" "accts w2 = (accts w1)(?k \<mapsto> v\<lparr>aw_seq := q\<rparr>)"
        using set_seq_if_idle [of w1 ?k v q] w1 assms by auto
      have "accts w2 = sync_some net {?k} (accts w)"
        using w2(4) w1(3) assms q False by (auto simp: sync_some_def sync_seq_def fun_eq_iff)
      then show ?thesis
        using n w1 w2 q False by (simp add: syncOne_def try_call_def wrap_err_def store_of_pool)
    qed
  qed
qed

lemma sync_some_insert:
  "k \<notin> ks \<Longrightarrow> sync_some net ks (sync_some net {k} m) = sync_some net (insert k ks) m"
  by (auto simp: sync_some_def fun_eq_iff)

lemma sync_loop_run:
  assumes "quiet w" "distinct (map ca_PublicKey as)"
    and "\<And>a. a \<in> set as \<Longrightarrow> accts w (ca_PublicKey a) =
      Some \<lparr>aw_secret = ca_EncryptedSecret a, aw_status = ca_Status a,
            aw_seq = ca_SequenceNumber a, aw_last = ca_LastUsedAt a\<rparr>"
  shows "\<exists>w'. sync_loop p as w = (Ok (), w') \<and> quiet w' \<and> txs w' = txs w \<and>
    accts w' = sync_some net (ca_PublicKey ` set as) (accts w)"
  using assms
proof (induction as arbitrary: w)
  case Nil
  then show ?case by (simp add: sync_some_def)
next
  case (Cons a as)
  let ?v = "\<lparr>aw_secret = ca_EncryptedSecret a, aw_status = ca_Status a,
            aw_seq = ca_SequenceNumber a, aw_last = ca_LastUsedAt a\<rparr>"
  have v: "accts w (ca_PublicKey a) = Some ?v" using Cons.prems(3) by simp
  have fresh: "ca_PublicKey a \<notin> ca_PublicKey ` set as" using Cons.prems(2) by simp
  show ?case
  proof (cases "ca_Status a = AccountStatusIdle")
    case False
    have "sync_some net {ca_PublicKey a} (accts w) = accts w"
      using v False by (auto simp: sync_some_def sync_seq_def fun_eq_iff split: sum.split)
    then have "sync_some net (ca_PublicKey ` set (a # as)) (accts w)
        = sync_some net (ca_PublicKey ` set as) (accts w)"
      using sync_some_insert [OF fresh, of "accts w"] by simp
    then show ?thesis using False Cons by simp
  next
    case True
    obtain r w1 where w1: "syncOne p a w = (r, w1)" "r \<noteq> Panic" "quiet w1" "txs w1 = txs w"
        "accts w1 = sync_some net {ca_PublicKey a} (accts w)"
      using syncOne_run [OF Cons.prems(1) v True] by auto
    have "accts w1 (ca_PublicKey b) = accts w (ca_PublicKey b)" if "b \<in> set as" for b
    proof -
      have "ca_PublicKey b \<noteq> ca_PublicKey a" using that fresh by (metis imageI)
      then show ?thesis using w1(5) by (simp add: sync_some_def)
    qed
    then obtain w2 where "sync_loop p as w1 = (Ok (), w2)" "quiet w2" "txs w2 = txs w1"
        "accts w2 = sync_some net (ca_PublicKey ` set as) (accts w1)"
      using Cons.IH [OF w1(3)] Cons.prems(2,3) by auto
    then show ?thesis
      using True w1 sync_some_insert [OF fresh, of "accts w"] 
      by (cases r) (simp_all add: log_err_def try_call_def)
  qed
qed

lemma Sync_run:
  assumes "quiet w"
  shows "\<exists>w'. SyncSequenceNumbers p w = (Ok (), w') \<and> quiet w' \<and> txs w' = txs w \<and>
    accts w' = sync_some net UNIV (accts w)"
proof -
  obtain rs w1 where l: "ps_ListChannelAccounts P w = (Ok rs, w1)" "quiet w1" "accts w1 = accts w"
      "txs w1 = txs w" "distinct (map ca_PublicKey rs)"
    and rows: "\<And>k v. accts w k = Some v \<longleftrightarrow> (\<exists>r \<in> set rs. ca_PublicKey r = k \<and>
       v = \<lparr>aw_secret = ca_EncryptedSecret r, aw_status = ca_Status r,
            aw_seq = ca_SequenceNumber r, aw_last = ca_LastUsedAt r\<rparr>)"
    using list_ok [OF assms] by blast
  obtain w2 where w2: "sync_loop p rs w1 = (Ok (), w2)" "quiet w2" "txs w2 = txs w1"
      "accts w2 = sync_some net (ca_PublicKey ` set rs) (accts w1)"
    using sync_loop_run [OF l(2,5)] rows l(3) by auto
  have "sync_some net (ca_PublicKey ` set rs) (accts w) = sync_some net UNIV (accts w)"
  proof
    fix k
    show "sync_some net (ca_PublicKey ` set rs) (accts w) k = sync_some net UNIV (accts w) k"
      using rows [of k] by (cases "accts w k") (auto simp: sync_some_def)
  qed
  then show ?thesis
    using l w2 by (simp add: SyncSequenceNumbers_def store_of_pool try_call_Ok)
qed

end

section \<open>Refilling\<close>

text \<open>A fresh account in the store: idle, at sequence number zero, never used.\<close>

definition fresh_account :: "string \<Rightarrow> acct_view" where
  "fresh_account secret = \<lparr>aw_secret = secret, aw_status = AccountStatusIdle, aw_seq = 0, aw_last = None\<rparr>"

definition fresh_accounts :: "(string \<times> string) list \<Rightarrow> string \<Rightarrow> acct_view option" where
  "fresh_accounts kps = map_of (map (\<lambda>(k, s). (k, fresh_account s)) kps)"

definition derived :: "'w key_source \<Rightarrow> string \<times> string \<Rightarrow> bool" where
  "derived ks kp \<longleftrightarrow> (\<exists>seed. ks_FromRawEntropy ks seed = Inr kp)"

lemma fresh_accounts_simps [simp]:
  "fresh_accounts [] = Map.empty"
  "fresh_accounts ((k, s) # kps) = (fresh_accounts kps)(k \<mapsto> fresh_account s)"
  by (simp_all add: fresh_accounts_def)

lemma fresh_accounts_dom: "dom (fresh_accounts kps) = fst ` set kps"
  by (force simp: fresh_accounts_def dom_map_of_conv_image_fst)

text \<open>The random source does not touch the store.\<close>

locale pool_refill = pool_client P quiet txs accts p
  for P :: "'w PoolStore" and quiet :: "'w \<Rightarrow> bool"
    and txs :: "'w \<Rightarrow> uuid \<Rightarrow> tx_view option"
    and accts :: "'w \<Rightarrow> string \<Rightarrow> acct_view option"
    and p :: "'w Pool" +
  fixes ks :: "'w key_source"
  assumes read_frame: "quiet w \<Longrightarrow> ks_Read ks w = (r, w') \<Longrightarrow>
      quiet w' \<and> txs w' = txs w \<and> accts w' = accts w"
begin

lemma refillOne_ok:
  assumes "quiet w" "refillOne ks p w = (Ok (), w')"
  shows "\<exists>k s. derived ks (k, s) \<and> accts w k = None \<and> quiet w' \<and> txs w' = txs w \<and>
    accts w' = (accts w)(k \<mapsto> fresh_account s)"
proof -
  obtain seed w1 where r: "ks_Read ks w = (Ok seed, w1)"
    using assms(2) by (auto simp: refillOne_def try_call_def split: prod.splits res.splits)
  note f = read_frame [OF assms(1) r]
  obtain k s where d: "ks_FromRawEntropy ks seed = Inr (k, s)"
    using assms(2) r by (auto simp: refillOne_def try_call_def split: sum.splits)
  let ?a = "\<lparr>ca_PublicKey = k, ca_EncryptedSecret = s, ca_Status = AccountStatusIdle,
    ca_SequenceNumber = 0, ca_LastUsedAt = None\<rparr>"
  have s1: "ps_SaveChannelAccount P ?a w1 = (Ok (), w')"
    using assms(2) r d
    by (auto simp: refillOne_def try_call_def wrap_err_def store_of_pool split: prod.splits res.splits)
  have q1: "quiet w1" using f by blast
  have new: "accts w1 (ca_PublicKey ?a) = None"
  proof (cases "accts w1 (ca_PublicKey ?a)")
    case (Some v)
    from save_dup [OF q1 this] s1 show ?thesis by auto
  qed simp
  show ?thesis
    using save_new [OF q1 new] s1 f d new by (auto simp: derived_def fresh_account_def)
qed

lemma refill_loop_ok:
  assumes "quiet w" "refill_loop ks p n i w = (Ok (), w')"
  shows "\<exists>kps. length kps = n \<and> distinct (map fst kps) \<and> (\<forall>kp \<in> set kps. derived ks kp) \<and>
    fst ` set kps \<inter> dom (accts w) = {} \<and> quiet w' \<and> txs w' = txs w \<and>
    accts w' = accts w ++ fresh_accounts kps"
  using assms
proof (induction n arbitrary: i w)
  case 0
  then show ?case by (intro exI [of _ "[]"]) simp
next
  case (Suc n)
  obtain w1 where w1: "refillOne ks p w = (Ok (), w1)" "refill_loop ks p n (i + 1) w1 = (Ok (), w')"
    using Suc.prems(2) by (auto simp: try_call_def split: prod.splits res.splits)
  obtain k s where ks: "derived ks (k, s)" "accts w k = None" "quiet w1" "txs w1 = txs w"
      "accts w1 = (accts w)(k \<mapsto> fresh_account s)"
    using refillOne_ok [OF Suc.prems(1) w1(1)] by blast
  obtain kps where kps: "length kps = n" "distinct (map fst kps)" "\<forall>kp \<in> set kps. derived ks kp"
      "fst ` set kps \<inter> dom (accts w1) = {}" "quiet w'" "txs w' = txs w1"
      "accts w' = accts w1 ++ fresh_accounts kps"
    using Suc.IH [OF ks(3) w1(2)] by blast
  have k: "k \<notin> fst ` set kps" "fst ` set kps \<inter> dom (accts w) = {}" using kps(4) ks(5) by auto
  then have "fresh_accounts kps k = None" using fresh_accounts_dom by blast
  then have "accts w' = accts w ++ fresh_accounts ((k, s) # kps)"
    using kps(7) ks(5) by (auto simp: fun_eq_iff map_add_def split: option.splits)
  then show ?case
    using kps(1,2,3,5,6) k ks(1,2,4)
    by (intro exI [of _ "(k, s) # kps"]) (auto simp del: fresh_accounts_simps)
qed

lemma Refill_ok:
  assumes "quiet w" "Refill ks p n w = (Ok (), w')"
  shows "\<exists>kps. length kps = nat n \<and> distinct (map fst kps) \<and> (\<forall>kp \<in> set kps. derived ks kp) \<and>
    fst ` set kps \<inter> dom (accts w) = {} \<and> quiet w' \<and> txs w' = txs w \<and>
    accts w' = accts w ++ fresh_accounts kps"
  using assms refill_loop_ok by (auto simp: Refill_def split: if_splits)

end

section \<open>Relations kept by the pool under every fault\<close>

locale pool_keeps = kept_by_store S P R I
  for S :: "'w TxStore" and P :: "'w PoolStore" and R :: "'w \<Rightarrow> 'w \<Rightarrow> bool" and I :: "uuid set" +
  fixes p :: "'w Pool" and ks :: "'w key_source"
  assumes kept_pool: "pl_store p = P"
    and kept_network: "keeps R (hz_Account (pl_horizonCli p) k)"
    and kept_read: "keeps R (ks_Read ks)"
    and kept_save: "ca_Status a = AccountStatusIdle \<Longrightarrow> keeps R (ps_SaveChannelAccount P a)"
begin

lemma keeps_syncOne: "keeps R (syncOne p a)"
  unfolding syncOne_def kept_pool
  by (intro keeps_try_call keeps_if keeps_ret keeps_wrap_err preorder kept_network kept_seq_if_idle)

lemma keeps_sync_loop: "keeps R (sync_loop p as)"
proof (induction as)
  case (Cons a as)
  then show ?case
    unfolding sync_loop.simps by (intro keeps_if keeps_log_err preorder keeps_syncOne)
qed (simp add: keeps_ret preorder del: ret_apply)

lemma keeps_Sync: "keeps R (SyncSequenceNumbers p)"
  unfolding SyncSequenceNumbers_def kept_pool
  by (intro keeps_try_call preorder keeps_ret kept_list keeps_sync_loop)

lemma keeps_refillOne: "keeps R (refillOne ks p)"
proof -
  have "keeps R (case ks_FromRawEntropy ks seed of
      Inl e \<Rightarrow> ret (Error (Wrap [Lit ''deriving keypair from seed: ''] e))
    | Inr (address, private) \<Rightarrow>
        wrap_err [Lit ''saving channel account '', Lit address, Lit '': '']
          (ps_SaveChannelAccount P
             \<lparr>ca_PublicKey = address, ca_EncryptedSecret = private, ca_Status = AccountStatusIdle,
              ca_SequenceNumber = 0, ca_LastUsedAt = None\<rparr>))" for seed
    by (cases "ks_FromRawEntropy ks seed")
       (auto intro!: keeps_ret preorder keeps_wrap_err kept_save)
  then show ?thesis
    unfolding refillOne_def kept_pool by (intro keeps_try_call preorder keeps_ret kept_read)
qed

lemma keeps_refill_loop: "keeps R (refill_loop ks p n i)"
proof (induction n arbitrary: i)
  case (Suc n)
  then show ?case
    unfolding refill_loop.simps by (intro keeps_try_call preorder keeps_ret keeps_refillOne)
qed (simp add: keeps_ret preorder del: ret_apply)

lemma keeps_Refill: "keeps R (Refill ks p n)"
  unfolding Refill_def by (intro keeps_if keeps_ret preorder keeps_refill_loop)

end

end
