(* ===== verification/Router.thy ===== *)
theory Router
  imports Interfaces "HOL-Library.Signed_Division"
begin

text \<open>
  internal/rpc: the Horizon and Soroban clients and the router that picks a backend by the
  envelope's operations and fails over across endpoints. The Stellar SDK (parsing, the two network
  clients) is third-party and a parameter: \<open>Envelope\<close> holds what the accessors of a parsed
  envelope return, \<open>Net\<close> the network calls over a network state \<open>'n\<close>.
\<close>

section \<open>The SDK as parameters\<close>

datatype operation = InvokeHostFunction | OtherOperation

record Envelope =
  env_Operations :: "operation list"
  env_SourceAccount :: string
  env_Fee :: i64

type_synonym parse_envelope = "string \<Rightarrow> goerr + Envelope"

record ('n, 'sb) Net =
  net_LoadAccount :: "string \<Rightarrow> string \<Rightarrow> ('n, i64) op"
  net_SubmitTransactionXDR :: "string \<Rightarrow> string \<Rightarrow> ('n, TransactionResult option) op"
  net_Transaction :: "string \<Rightarrow> string \<Rightarrow> ('n, TransactionResult option) op"
  net_sorobanNew :: "string \<Rightarrow> goerr + 'sb"
  net_Simulate :: "'sb \<Rightarrow> Envelope \<Rightarrow> ('n, unit) op"
  net_Send :: "'sb \<Rightarrow> Envelope \<Rightarrow> ('n, unit) op"
  net_GetTransaction :: "'sb \<Rightarrow> string \<Rightarrow> ('n, unit) op"
  net_URI :: "'sb \<Rightarrow> string"

section \<open>Clients\<close>

record HorizonClient =
  hc_baseURL :: string

definition NewHorizonClient :: "string \<Rightarrow> HorizonClient" where
  "NewHorizonClient baseURL = \<lparr>hc_baseURL = baseURL\<rparr>"

definition HorizonClient_Account ::
  "('n, 'sb) Net \<Rightarrow> HorizonClient \<Rightarrow> string \<Rightarrow> ('n, i64) op" where
  "HorizonClient_Account net c accountID =
     wrap_err [Lit ''loading account '', Lit accountID, Lit '' from horizon ('',
               Lit (hc_baseURL c), Lit ''): '']
       (net_LoadAccount net (hc_baseURL c) accountID)"

definition HorizonClient_SubmitTransaction ::
  "('n, 'sb) Net \<Rightarrow> HorizonClient \<Rightarrow> string \<Rightarrow> ('n, TransactionResult option) op" where
  "HorizonClient_SubmitTransaction net c envelopeXDR =
     wrap_err [Lit ''submitting transaction via horizon ('', Lit (hc_baseURL c), Lit ''): '']
       (net_SubmitTransactionXDR net (hc_baseURL c) envelopeXDR)"

definition HorizonClient_GetTransactionStatus ::
  "('n, 'sb) Net \<Rightarrow> HorizonClient \<Rightarrow> string \<Rightarrow> ('n, TransactionResult option) op" where
  "HorizonClient_GetTransactionStatus net c hash =
     wrap_err [Lit ''querying transaction '', Lit hash, Lit '' from horizon ('',
               Lit (hc_baseURL c), Lit ''): '']
       (net_Transaction net (hc_baseURL c) hash)"

text \<open>Horizon cannot simulate: \<open>nil, nil\<close>.\<close>

definition HorizonClient_SimulateTransaction ::
  "HorizonClient \<Rightarrow> string \<Rightarrow> ('n, unit option) op" where
  "HorizonClient_SimulateTransaction c envelopeXDR = ret (Ok None)"

definition HorizonClient_BaseURL :: "HorizonClient \<Rightarrow> string" where
  "HorizonClient_BaseURL c = hc_baseURL c"

record 'sb SorobanClient =
  sc_backend :: 'sb

definition NewSorobanClient :: "('n, 'sb) Net \<Rightarrow> string \<Rightarrow> goerr + 'sb SorobanClient" where
  "NewSorobanClient net rpcURL =
     (case net_sorobanNew net rpcURL of
        Inl e \<Rightarrow> Inl (Wrap [Lit ''creating soroban rpc client ('', Lit rpcURL, Lit ''): ''] e)
      | Inr b \<Rightarrow> Inr \<lparr>sc_backend = b\<rparr>)"

definition SorobanClient_SimulateTransaction ::
  "parse_envelope \<Rightarrow> ('n, 'sb) Net \<Rightarrow> 'sb SorobanClient \<Rightarrow> string \<Rightarrow> ('n, unit) op" where
  "SorobanClient_SimulateTransaction parse net c envelopeXDR =
     (case parse envelopeXDR of
        Inl e \<Rightarrow> ret (Error (Wrap [Lit ''parsing envelope for simulation: ''] e))
      | Inr tx \<Rightarrow> wrap_err [Lit ''simulating transaction on soroban: '']
                   (net_Simulate net (sc_backend c) tx))"

definition SorobanClient_SubmitTransaction ::
  "parse_envelope \<Rightarrow> ('n, 'sb) Net \<Rightarrow> 'sb SorobanClient \<Rightarrow> string \<Rightarrow> ('n, unit) op" where
  "SorobanClient_SubmitTransaction parse net c envelopeXDR =
     (case parse envelopeXDR of
        Inl e \<Rightarrow> ret (Error (Wrap [Lit ''parsing envelope for submission: ''] e))
      | Inr tx \<Rightarrow> wrap_err [Lit ''submitting transaction on soroban: '']
                   (net_Send net (sc_backend c) tx))"

definition SorobanClient_GetTransactionStatus ::
  "('n, 'sb) Net \<Rightarrow> 'sb SorobanClient \<Rightarrow> string \<Rightarrow> ('n, unit) op" where
  "SorobanClient_GetTransactionStatus net c hash =
     wrap_err [Lit ''querying transaction '', Lit hash, Lit '' on soroban: '']
       (net_GetTransaction net (sc_backend c) hash)"

definition SorobanClient_BaseURL :: "('n, 'sb) Net \<Rightarrow> 'sb SorobanClient \<Rightarrow> string" where
  "SorobanClient_BaseURL net c = net_URI net (sc_backend c)"

section \<open>The router\<close>

datatype Backend = BackendHorizon | BackendSoroban

record 'sb Router =
  rt_horizonClients :: "HorizonClient list"
  rt_sorobanClients :: "'sb SorobanClient list"
  rt_horizonIdx :: i64
  rt_sorobanIdx :: i64

text \<open>The two loops of \<open>NewRouter\<close>: a Soroban URL whose client cannot be made is skipped.\<close>

fun soroban_clients :: "('n, 'sb) Net \<Rightarrow> string list \<Rightarrow> 'sb SorobanClient list" where
  "soroban_clients net [] = []"
| "soroban_clients net (url # urls) =
     (case NewSorobanClient net url of
        Inl e \<Rightarrow> soroban_clients net urls
      | Inr sc \<Rightarrow> sc # soroban_clients net urls)"

definition NewRouter :: "('n, 'sb) Net \<Rightarrow> string list \<Rightarrow> string list \<Rightarrow> 'sb Router" where
  "NewRouter net horizonURLs sorobanURLs =
     \<lparr>rt_horizonClients = map NewHorizonClient horizonURLs,
      rt_sorobanClients = soroban_clients net sorobanURLs,
      rt_horizonIdx = 0, rt_sorobanIdx = 0\<rparr>"

definition route :: "parse_envelope \<Rightarrow> string \<Rightarrow> Backend" where
  "route parse envelopeXDR =
     (case parse envelopeXDR of
        Inl e \<Rightarrow> BackendHorizon
      | Inr tx \<Rightarrow> (if list_ex (\<lambda>op. op = InvokeHostFunction) (env_Operations tx)
                  then BackendSoroban else BackendHorizon))"

text \<open>A nil error is None.\<close>

definition isRetryable :: "goerr option \<Rightarrow> bool" where
  "isRetryable err =
     (case err of
        None \<Rightarrow> False
      | Some e \<Rightarrow>
          (if (case errors_As_HTTPError e of Some c \<Rightarrow> 500 \<le> c | None \<Rightarrow> False) then True
           else if errors_Is e DeadlineExceeded then True
           else if errors_Is e Canceled then True
           else if errors_Is e EOF then True
           else False))"

section \<open>Failover loops\<close>

text \<open>
  \<open>for i := 0; i < n; i++ { ... continue ... return r }; return final\<close>: the body says whether it
  continues or returns.
\<close>

datatype 'a verdict = Continue | Return "'a res"

primrec for_loop :: "nat \<Rightarrow> ('s \<Rightarrow> 'a verdict \<times> 's) \<Rightarrow> 'a res \<Rightarrow> ('s, 'a) op" where
  "for_loop 0 body final s = (final, s)"
| "for_loop (Suc k) body final s =
     (case body s of
        (Continue, s') \<Rightarrow> for_loop k body final s'
      | (Return r, s') \<Rightarrow> (r, s'))"

text \<open>
  \<open>idx := int(x.Add(1)) % len(clients); client := clients[idx]\<close>. Go's remainder truncates towards
  zero, so once the counter has wrapped past the largest \<open>int64\<close> the index is negative (or zero),
  and a negative index panics.
\<close>

definition go_index :: "i64 \<Rightarrow> 'c list \<Rightarrow> 'c option" where
  "go_index v xs =
     (let j = sint v smod int (length xs) in
      if 0 \<le> j \<and> j < int (length xs) then Some (xs ! nat j) else None)"

definition next_client_body ::
  "('r \<Rightarrow> i64) \<Rightarrow> (i64 \<Rightarrow> 'r \<Rightarrow> 'r) \<Rightarrow> ('r \<Rightarrow> 'c list) \<Rightarrow> ('c \<Rightarrow> 'n \<Rightarrow> 'a verdict \<times> 'n) \<Rightarrow>
   'r \<times> 'n \<Rightarrow> 'a verdict \<times> ('r \<times> 'n)" where
  "next_client_body get put clients attempt s =
     (let v = get (fst s) + 1;
          r = put v (fst s)
      in case go_index v (clients r) of
           None \<Rightarrow> (Return Panic, (r, snd s))
         | Some c \<Rightarrow> (case attempt c (snd s) of (d, nw) \<Rightarrow> (d, (r, nw))))"

text \<open>A call whose retryable errors make the loop continue and whose other errors are wrapped.\<close>

definition attempt_call ::
  "frag list \<Rightarrow> ('n, 'b) op \<Rightarrow> ('b \<Rightarrow> 'n \<Rightarrow> 'a verdict \<times> 'n) \<Rightarrow> 'n \<Rightarrow> 'a verdict \<times> 'n" where
  "attempt_call fs m k nw =
     (case m nw of
        (Ok b, nw') \<Rightarrow> k b nw'
      | (Error e, nw') \<Rightarrow> (if isRetryable (Some e) then Continue else Return (Error (Wrap fs e)), nw')
      | (Panic, nw') \<Rightarrow> (Return Panic, nw'))"

abbreviation put_hidx :: "i64 \<Rightarrow> 'sb Router \<Rightarrow> 'sb Router" where
  "put_hidx v r \<equiv> r\<lparr>rt_horizonIdx := v\<rparr>"

abbreviation put_sidx :: "i64 \<Rightarrow> 'sb Router \<Rightarrow> 'sb Router" where
  "put_sidx v r \<equiv> r\<lparr>rt_sorobanIdx := v\<rparr>"

definition status_attempt ::
  "('n, 'sb) Net \<Rightarrow> string \<Rightarrow> HorizonClient \<Rightarrow> 'n \<Rightarrow> TransactionResult option verdict \<times> 'n" where
  "status_attempt net hash c =
     attempt_call [Lit ''querying horizon ('', Lit (hc_baseURL c), Lit ''): '']
       (HorizonClient_GetTransactionStatus net c hash) (\<lambda>result nw. (Return (Ok result), nw))"

definition Router_GetTransactionStatus ::
  "('n, 'sb) Net \<Rightarrow> string \<Rightarrow> ('sb Router \<times> 'n, TransactionResult option) op" where
  "Router_GetTransactionStatus net hash s =
     for_loop (length (rt_horizonClients (fst s)))
       (next_client_body rt_horizonIdx put_hidx rt_horizonClients (status_attempt net hash))
       (Error (ErrText [Lit ''all horizon endpoints failed for status query of '', Lit hash])) s"

definition horizon_attempt ::
  "('n, 'sb) Net \<Rightarrow> string \<Rightarrow> HorizonClient \<Rightarrow> 'n \<Rightarrow> TransactionResult option verdict \<times> 'n" where
  "horizon_attempt net envelopeXDR c =
     attempt_call [Lit ''submitting via horizon ('', Lit (hc_baseURL c), Lit ''): '']
       (HorizonClient_SubmitTransaction net c envelopeXDR) (\<lambda>result nw. (Return (Ok result), nw))"

definition submitWithFailover ::
  "('n, 'sb) Net \<Rightarrow> string \<Rightarrow> ('sb Router \<times> 'n, TransactionResult option) op" where
  "submitWithFailover net envelopeXDR s =
     for_loop (length (rt_horizonClients (fst s)))
       (next_client_body rt_horizonIdx put_hidx rt_horizonClients (horizon_attempt net envelopeXDR))
       (Error (ErrText [Lit ''all horizon endpoints failed after '',
          Num (int (length (rt_horizonClients (fst s)))), Lit '' attempts''])) s"

text \<open>
  Simulate, then submit. The code names the endpoint with a field the Soroban client does not have
  (\<open>client.baseURL\<close>); the model uses \<open>BaseURL()\<close>. On success it returns a nil result and an error.
\<close>

definition soroban_attempt ::
  "parse_envelope \<Rightarrow> ('n, 'sb) Net \<Rightarrow> string \<Rightarrow> 'sb SorobanClient \<Rightarrow> 'n \<Rightarrow>
   TransactionResult option verdict \<times> 'n" where
  "soroban_attempt parse net envelopeXDR c =
     attempt_call [Lit ''simulating on soroban ('', Lit (SorobanClient_BaseURL net c), Lit ''): '']
       (SorobanClient_SimulateTransaction parse net c envelopeXDR)
       (\<lambda>_. attempt_call
          [Lit ''submitting soroban transaction ('', Lit (SorobanClient_BaseURL net c), Lit ''): '']
          (SorobanClient_SubmitTransaction parse net c envelopeXDR)
          (\<lambda>resp nw. (Return (Error (ErrText [Lit ''soroban submission succeeded''])), nw)))"

definition submitSoroban ::
  "parse_envelope \<Rightarrow> ('n, 'sb) Net \<Rightarrow> string \<Rightarrow> ('sb Router \<times> 'n, TransactionResult option) op" where
  "submitSoroban parse net envelopeXDR s =
     for_loop (length (rt_sorobanClients (fst s)))
       (next_client_body rt_sorobanIdx put_sidx rt_sorobanClients
          (soroban_attempt parse net envelopeXDR))
       (Error (ErrText [Lit ''all soroban endpoints failed after '',
          Num (int (length (rt_sorobanClients (fst s)))), Lit '' attempts''])) s"

definition Router_SubmitTransaction ::
  "parse_envelope \<Rightarrow> ('n, 'sb) Net \<Rightarrow> string \<Rightarrow> ('sb Router \<times> 'n, TransactionResult option) op" where
  "Router_SubmitTransaction parse net envelopeXDR =
     (case route parse envelopeXDR of
        BackendHorizon \<Rightarrow> submitWithFailover net envelopeXDR
      | BackendSoroban \<Rightarrow> submitSoroban parse net envelopeXDR)"

text \<open>\<open>HorizonClient()\<close>: the first endpoint, or nil.\<close>

definition Router_HorizonClient :: "'sb Router \<Rightarrow> HorizonClient option" where
  "Router_HorizonClient r =
     (if length (rt_horizonClients r) = 0 then None else Some (rt_horizonClients r ! 0))"

section \<open>Round robin\<close>

text \<open>The reference: try the clients of a list in order, threading the network state.\<close>

fun try_each :: "('c \<Rightarrow> 'n \<Rightarrow> 'a verdict \<times> 'n) \<Rightarrow> 'a res \<Rightarrow> 'c list \<Rightarrow> ('n, 'a) op" where
  "try_each f final [] nw = (final, nw)"
| "try_each f final (c # cs) nw =
     (case f c nw of
        (Continue, nw') \<Rightarrow> try_each f final cs nw'
      | (Return r, nw') \<Rightarrow> (r, nw'))"

text \<open>The clients from the one after the counter's, once around.\<close>

definition turn_order :: "i64 \<Rightarrow> 'c list \<Rightarrow> 'c list" where
  "turn_order v xs = rotate (nat (sint v) + 1) xs"

lemma sint_add_one:
  fixes v :: i64
  assumes "sint v < 2 ^ 63 - 1"
  shows "sint (v + 1) = sint v + 1"
proof -
  have "- (2 ^ 63) \<le> sint v" using sint_ge [of v] by simp
  then have "signed_take_bit 63 (sint v + 1) = sint v + 1"
    using assms by (intro signed_take_bit_int_eq_self) auto
  then show ?thesis by (simp add: sint_word_ariths)
qed

lemma go_index_nonneg:
  assumes "0 \<le> sint v" "xs \<noteq> []"
  shows "go_index v xs = Some (xs ! (nat (sint v) mod length xs))"
proof -
  have "sint v smod int (length xs) = sint v mod int (length xs)"
    using assms by (cases "sint v = 0") (simp_all add: signed_modulo_int_def signed_divide_int_def
        minus_div_mult_eq_mod mult.commute)
  then show ?thesis
    using assms by (simp add: go_index_def nat_mod_distrib)
qed

locale round_robin =
  fixes get :: "'r \<Rightarrow> i64" and put :: "i64 \<Rightarrow> 'r \<Rightarrow> 'r" and clients :: "'r \<Rightarrow> 'c list"
  assumes get_put: "get (put v r) = v"
    and clients_put: "clients (put v r) = clients r"
    and put_put: "put v (put u r) = put v r"
    and put_get: "put (get r) r = r"
begin

lemma loop_order:
  assumes "0 \<le> sint (get r)" "sint (get r) + int k < 2 ^ 63" "clients r \<noteq> []"
  shows "\<exists>m r' nw'. m \<le> k \<and> r' = put (get r + of_nat m) r \<and>
    for_loop k (next_client_body get put clients f) final (r, nw) =
      (fst (try_each f final
         (map (\<lambda>j. clients r ! ((nat (sint (get r)) + 1 + j) mod length (clients r))) [0..<k]) nw),
       (r', nw')) \<and>
    nw' = snd (try_each f final
         (map (\<lambda>j. clients r ! ((nat (sint (get r)) + 1 + j) mod length (clients r))) [0..<k]) nw)"
  using assms
proof (induction k arbitrary: r nw)
  case 0
  then show ?case by (auto intro!: exI [of _ 0] simp: put_get)
next
  case (Suc k)
  let ?r = "put (get r + 1) r"
  have s: "sint (get r + 1) = sint (get r) + 1"
    using Suc.prems by (intro sint_add_one) auto
  have n: "nat (sint (get r + 1)) = nat (sint (get r)) + 1" using s Suc.prems(1) by simp
  let ?c = "clients r ! ((nat (sint (get r)) + 1) mod length (clients r))"
  have i: "go_index (get r + 1) (clients r) = Some ?c"
    using go_index_nonneg [of "get r + 1" "clients r"] Suc.prems s n by simp
  have l: "map (\<lambda>j. clients r ! ((nat (sint (get r)) + 1 + j) mod length (clients r))) [0..<Suc k]
      = ?c # map (\<lambda>j. clients ?r ! ((nat (sint (get ?r)) + 1 + j) mod length (clients ?r))) [0..<k]"
    using n by (simp add: get_put clients_put upt_conv_Cons map_Suc_upt [symmetric] del: upt_Suc)
  obtain d nw1 where f: "f ?c nw = (d, nw1)" by (cases "f ?c nw")
  have b: "next_client_body get put clients f (r, nw) = (d, (?r, nw1))"
    using f i by (simp add: next_client_body_def clients_put)
  show ?case
  proof (cases d)
    case Continue
    obtain m where m: "m \<le> k"
      "for_loop k (next_client_body get put clients f) final (?r, nw1) =
        (fst (try_each f final (map (\<lambda>j. clients ?r ! ((nat (sint (get ?r)) + 1 + j) mod
            length (clients ?r))) [0..<k]) nw1),
         (put (get ?r + of_nat m) ?r, snd (try_each f final (map (\<lambda>j. clients ?r !
            ((nat (sint (get ?r)) + 1 + j) mod length (clients ?r))) [0..<k]) nw1)))"
      using Suc.IH [of ?r nw1] Suc.prems s by (auto simp: get_put clients_put)
    have p: "put (get ?r + of_nat m) ?r = put (get r + of_nat (Suc m)) r"
      by (simp add: get_put put_put add.assoc)
    show ?thesis
      unfolding l using m f b Continue p by (intro exI [of _ "Suc m"]) simp
  next
    case (Return x)
    show ?thesis
      unfolding l using f b Return by (intro exI [of _ 1]) simp
  qed
qed

lemma once_around:
  assumes "0 \<le> sint (get r)" "sint (get r) + int (length (clients r)) < 2 ^ 63"
  shows "\<exists>m \<le> length (clients r).
    for_loop (length (clients r)) (next_client_body get put clients f) final (r, nw) =
      (let (x, nw') = try_each f final (turn_order (get r) (clients r)) nw
       in (x, (put (get r + of_nat m) r, nw')))"
proof (cases "clients r = []")
  case True
  then show ?thesis by (auto simp: turn_order_def put_get)
next
  case False
  have "map (\<lambda>j. clients r ! ((nat (sint (get r)) + 1 + j) mod length (clients r)))
      [0..<length (clients r)] = turn_order (get r) (clients r)"
    by (rule nth_equalityI) (simp_all add: turn_order_def nth_rotate del: rotate_Suc)
  with loop_order [OF assms False, of f final nw] show ?thesis
    by (auto simp: Let_def split: prod.split)
qed

end

interpretation horizon_rr: round_robin rt_horizonIdx put_hidx rt_horizonClients
  by unfold_locales simp_all

interpretation soroban_rr: round_robin rt_sorobanIdx put_sidx rt_sorobanClients
  by unfold_locales simp_all

section \<open>Properties of the router\<close>

text \<open>An endpoint's attempt continues on retryable errors and returns everything else.\<close>

lemma attempt_call_cases:
  "attempt_call fs m k nw =
     (case m nw of
        (Ok b, nw') \<Rightarrow> k b nw'
      | (Error e, nw') \<Rightarrow> (if isRetryable (Some e) then (Continue, nw') else (Return (Error (Wrap fs e)), nw'))
      | (Panic, nw') \<Rightarrow> (Return Panic, nw'))"
  by (simp add: attempt_call_def split: prod.split res.split)

lemma try_each_healthy:
  assumes "\<And>c nw. c \<in> set cs \<Longrightarrow> fst (f c nw) = Continue \<or> (\<exists>s. fst (f c nw) = Return (Ok s))"
    and "c \<in> set cs" "\<And>nw. \<exists>s. fst (f c nw) = Return (Ok s)"
  shows "\<exists>s. fst (try_each f final cs nw) = Ok s"
  using assms
proof (induction cs arbitrary: nw)
  case (Cons x xs)
  obtain d nw' where d: "f x nw = (d, nw')" by (cases "f x nw")
  show ?case
  proof (cases "d = Continue")
    case True
    have "x \<noteq> c"
    proof
      assume "x = c"
      with Cons.prems(3) [of nw] d True show False by simp
    qed
    then show ?thesis using Cons d True by simp
  next
    case False
    then show ?thesis using Cons.prems(1) [of x nw] d by auto
  qed
qed simp

text \<open>
  C14. Failover is one round robin turn: while the counter is in range, a submission tries the
  Horizon endpoints in order from the one after the counter, each at most once, moves on exactly at
  retryable errors, and leaves the counter advanced by at most the number of endpoints.
\<close>

theorem failover_round_robin:
  assumes "0 \<le> sint (rt_horizonIdx r)"
    and "sint (rt_horizonIdx r) + int (length (rt_horizonClients r)) < 2 ^ 63"
  shows "\<exists>m \<le> length (rt_horizonClients r).
    submitWithFailover net x (r, nw) =
      (let (y, nw') = try_each (horizon_attempt net x)
             (Error (ErrText [Lit ''all horizon endpoints failed after '',
                Num (int (length (rt_horizonClients r))), Lit '' attempts'']))
             (turn_order (rt_horizonIdx r) (rt_horizonClients r)) nw
       in (y, (r\<lparr>rt_horizonIdx := rt_horizonIdx r + of_nat m\<rparr>, nw')))"
  unfolding submitWithFailover_def fst_conv using assms by (rule horizon_rr.once_around)

text \<open>Two endpoints, both of them always answering with a gateway error or always with success.\<close>

abbreviation two_endpoints :: "nat Router" where
  "two_endpoints \<equiv> \<lparr>rt_horizonClients = [\<lparr>hc_baseURL = ''h1''\<rparr>, \<lparr>hc_baseURL = ''h2''\<rparr>],
     rt_sorobanClients = [\<lparr>sc_backend = 0\<rparr>], rt_horizonIdx = 0, rt_sorobanIdx = 0\<rparr>"

abbreviation answering :: "(string \<Rightarrow> TransactionResult option res) \<Rightarrow> unit res \<Rightarrow> (unit, nat) Net" where
  "answering rep sor \<equiv> \<lparr>net_LoadAccount = \<lambda>url k. ret (Ok 0), net_SubmitTransactionXDR = \<lambda>url x. ret (rep url),
     net_Transaction = \<lambda>url h. ret (rep url), net_sorobanNew = \<lambda>url. Inr 0,
     net_Simulate = \<lambda>b x. ret sor, net_Send = \<lambda>b x. ret sor, net_GetTransaction = \<lambda>b h. ret sor,
     net_URI = \<lambda>b. ''soroban''\<rparr>"

theorem failover_round_robin_witness:
  "\<exists>m. submitWithFailover (answering (\<lambda>u. if u = ''h2'' then Error (HTTPError 503 []) else Ok None) (Ok ()))
      ''AAAA'' (two_endpoints, ()) = (Ok None, (two_endpoints\<lparr>rt_horizonIdx := of_nat m\<rparr>, ()))"
proof -
  let ?net = "answering (\<lambda>u. if u = ''h2'' then Error (HTTPError 503 []) else Ok None) (Ok ())"
  have t: "turn_order 0 [\<lparr>hc_baseURL = ''h1''\<rparr>, \<lparr>hc_baseURL = ''h2''\<rparr>] =
      [\<lparr>hc_baseURL = ''h2''\<rparr>, \<lparr>hc_baseURL = ''h1''\<rparr>]"
    by (simp add: turn_order_def)
  have c: "0 \<le> sint (rt_horizonIdx two_endpoints)"
    "sint (rt_horizonIdx two_endpoints) + int (length (rt_horizonClients two_endpoints)) < 2 ^ 63"
    by simp_all
  from failover_round_robin [OF c, of ?net "''AAAA''" "()"] show ?thesis
    by (auto simp: t horizon_attempt_def attempt_call_def HorizonClient_SubmitTransaction_def wrap_err_def
        try_call_def isRetryable_def)
qed

text \<open>
  C26. One healthy endpoint is enough, as long as the turn counter, a signed 64-bit integer, is not
  negative and does not overflow during the call (counter + endpoints below 2^63): if every endpoint
  answers with success or a retryable error and one of them always with success, a submission
  succeeds, whichever endpoint's turn it is. Past that range a submission can panic, as shown below.
\<close>

theorem failover_finds_healthy:
  assumes "0 \<le> sint (rt_horizonIdx r)"
    and "sint (rt_horizonIdx r) + int (length (rt_horizonClients r)) < 2 ^ 63"
    and "\<forall>c nw. c \<in> set (rt_horizonClients r) \<longrightarrow>
      (case fst (HorizonClient_SubmitTransaction net c x nw) of
         Ok s \<Rightarrow> True | Error e \<Rightarrow> isRetryable (Some e) | Panic \<Rightarrow> False)"
    and "c \<in> set (rt_horizonClients r)"
    and "\<forall>nw. \<exists>s. fst (HorizonClient_SubmitTransaction net c x nw) = Ok s"
  shows "\<exists>s. fst (submitWithFailover net x (r, nw)) = Ok s"
proof -
  have att: "fst (horizon_attempt net x d w) =
      (case fst (HorizonClient_SubmitTransaction net d x w) of
         Ok s \<Rightarrow> Return (Ok s)
       | Error e \<Rightarrow> if isRetryable (Some e) then Continue
                   else Return (Error (Wrap [Lit ''submitting via horizon ('', Lit (hc_baseURL d), Lit ''): ''] e))
       | Panic \<Rightarrow> Return Panic)" for d w
    by (simp add: horizon_attempt_def attempt_call_def split: prod.split res.split)
  have set: "set (turn_order (rt_horizonIdx r) (rt_horizonClients r)) = set (rt_horizonClients r)"
    by (simp add: turn_order_def)
  have "\<exists>s. fst (try_each (horizon_attempt net x) final (turn_order (rt_horizonIdx r) (rt_horizonClients r)) nw) = Ok s"
    for final
  proof (rule try_each_healthy)
    show "c \<in> set (turn_order (rt_horizonIdx r) (rt_horizonClients r))" using assms(4) set by simp
    show "\<exists>s. fst (horizon_attempt net x c w) = Return (Ok s)" for w
      using spec [OF assms(5), of w] by (auto simp: att)
    show "fst (horizon_attempt net x d w) = Continue \<or> (\<exists>s. fst (horizon_attempt net x d w) = Return (Ok s))"
      if "d \<in> set (turn_order (rt_horizonIdx r) (rt_horizonClients r))" for d w
      using assms(3) that set by (auto simp: att split: res.splits dest!: spec [of _ d] spec [of _ w])
  qed
  then have healthy: "\<exists>s. fst (try_each (horizon_attempt net x) final
      (turn_order (rt_horizonIdx r) (rt_horizonClients r)) nw) = Ok s" for final .
  obtain m where "submitWithFailover net x (r, nw) =
      (let (y, nw') = try_each (horizon_attempt net x)
             (Error (ErrText [Lit ''all horizon endpoints failed after '',
                Num (int (length (rt_horizonClients r))), Lit '' attempts'']))
             (turn_order (rt_horizonIdx r) (rt_horizonClients r)) nw
       in (y, (r\<lparr>rt_horizonIdx := rt_horizonIdx r + of_nat m\<rparr>, nw')))"
    unfolding submitWithFailover_def fst_conv
    using horizon_rr.once_around [OF assms(1,2), where f = "horizon_attempt net x" and nw = nw and
        final = "Error (ErrText [Lit ''all horizon endpoints failed after '',
          Num (int (length (rt_horizonClients r))), Lit '' attempts''])"] by blast
  then have "fst (submitWithFailover net x (r, nw)) = fst (try_each (horizon_attempt net x)
      (Error (ErrText [Lit ''all horizon endpoints failed after '',
         Num (int (length (rt_horizonClients r))), Lit '' attempts'']))
      (turn_order (rt_horizonIdx r) (rt_horizonClients r)) nw)"
    by (simp add: case_prod_unfold Let_def)
  then show ?thesis using healthy by simp
qed

theorem failover_finds_healthy_witness:
  "\<exists>s. fst (submitWithFailover
      (answering (\<lambda>u. if u = ''h2'' then Error (HTTPError 503 []) else Ok None) (Ok ())) ''AAAA''
      (two_endpoints, ())) = Ok s"
  by (rule failover_finds_healthy [where c = "\<lparr>hc_baseURL = ''h1''\<rparr>"])
     (simp_all add: HorizonClient_SubmitTransaction_def wrap_err_def try_call_def isRetryable_def)

text \<open>
  Which errors fail over: exactly those whose wrapping chain ends in an HTTP error of status 500
  or more, an expired deadline, a cancelled context or an end of file, under any number of wraps.
\<close>

lemma isRetryable_root:
  "isRetryable (Some e) =
     (case root_err e of
        HTTPError c t \<Rightarrow> 500 \<le> c
      | DeadlineExceeded \<Rightarrow> True
      | Canceled \<Rightarrow> True
      | EOF \<Rightarrow> True
      | _ \<Rightarrow> False)"
  by (auto simp: isRetryable_def errors_Is_root errors_As_root split: goerr.split option.split)

lemma soroban_attempt_no_Ok: "fst (soroban_attempt parse net x c nw) \<noteq> Return (Ok s)"
  by (simp add: soroban_attempt_def attempt_call_def split: prod.split res.split)

lemma soroban_attempt_outcome: "soroban_attempt parse net x c nw \<noteq> (Return (Ok s), nw')"
  using soroban_attempt_no_Ok [of parse net x c nw s] by auto

lemma for_loop_no_Ok:
  assumes "\<And>s r. fst (body s) \<noteq> Return (Ok r)" "\<And>r. final \<noteq> Ok r"
  shows "fst (for_loop k body final s) \<noteq> Ok r"
proof (induction k arbitrary: s)
  case (Suc k)
  then show ?case using assms(1) [of s r] by (auto split: prod.splits verdict.splits)
qed (simp add: assms)

text \<open>
  C27. An envelope that invokes a contract never succeeds: whatever the network answers, the router
  returns an error (or panics), also when Soroban accepts the transaction.
\<close>

theorem soroban_never_succeeds:
  assumes "route parse x = BackendSoroban"
  shows "fst (Router_SubmitTransaction parse net x s) \<noteq> Ok y"
proof -
  have "fst (next_client_body rt_sorobanIdx put_sidx rt_sorobanClients (soroban_attempt parse net x) u)
      \<noteq> Return (Ok z)" for u z
    by (auto simp: next_client_body_def Let_def soroban_attempt_outcome split: option.split prod.splits)
  then have "fst (submitSoroban parse net x s) \<noteq> Ok y"
    unfolding submitSoroban_def by (rule for_loop_no_Ok) simp
  then show ?thesis using assms by (simp add: Router_SubmitTransaction_def)
qed

theorem soroban_never_succeeds_witness:
  "fst (Router_SubmitTransaction (\<lambda>x. Inr \<lparr>env_Operations = [InvokeHostFunction], env_SourceAccount = [], env_Fee = 0\<rparr>)
      (answering (\<lambda>u. Ok None) (Ok ())) ''AAAA'' (two_endpoints, ())) \<noteq> Ok None"
  by (rule soroban_never_succeeds) (simp add: route_def)

text \<open>
  A contract call that Soroban simulates and accepts at the first endpoint tried is reported as
  the error \<open>soroban submission succeeded\<close>.
\<close>

lemma soroban_success_is_error:
  assumes "route parse x = BackendSoroban" "rt_sorobanClients r = c # cs"
    and "go_index (rt_sorobanIdx r + 1) (rt_sorobanClients r) = Some d"
    and "SorobanClient_SimulateTransaction parse net d x nw = (Ok (), na)"
    and "SorobanClient_SubmitTransaction parse net d x na = (Ok (), nb)"
  shows "Router_SubmitTransaction parse net x (r, nw) =
    (Error (ErrText [Lit ''soroban submission succeeded'']), (r\<lparr>rt_sorobanIdx := rt_sorobanIdx r + 1\<rparr>, nb))"
proof -
  have "next_client_body rt_sorobanIdx put_sidx rt_sorobanClients (soroban_attempt parse net x) (r, nw) =
      (Return (Error (ErrText [Lit ''soroban submission succeeded''])),
       (r\<lparr>rt_sorobanIdx := rt_sorobanIdx r + 1\<rparr>, nb))"
    using assms(3-5) by (simp add: next_client_body_def Let_def soroban_attempt_def attempt_call_def)
  then show ?thesis
    using assms(1,2) by (simp add: Router_SubmitTransaction_def submitSoroban_def)
qed

text \<open>
  C28. The round robin counter is not safe for ever: once it has reached the largest \<open>int64\<close>, the next
  submission over three endpoints indexes with a negative number and panics, before any call.
\<close>

theorem counter_wrap_panics:
  assumes "rt_horizonIdx r = 2 ^ 63 - 1" "length (rt_horizonClients r) = 3"
  shows "submitWithFailover net x (r, nw) = (Panic, (r\<lparr>rt_horizonIdx := - (2 ^ 63)\<rparr>, nw))"
proof -
  have i: "rt_horizonIdx r + 1 = - (2 ^ 63)" using assms(1) by simp
  have "go_index (rt_horizonIdx r + 1) (rt_horizonClients r) = None"
    unfolding i using assms(2)
    by (simp add: go_index_def Let_def signed_modulo_int_def signed_divide_int_def)
  then have "next_client_body rt_horizonIdx put_hidx rt_horizonClients (horizon_attempt net x) (r, nw)
      = (Return Panic, (r\<lparr>rt_horizonIdx := - (2 ^ 63)\<rparr>, nw))"
    by (simp add: next_client_body_def Let_def i)
  then show ?thesis using assms(2) by (simp add: submitWithFailover_def eval_nat_numeral)
qed

theorem counter_wrap_panics_witness:
  "fst (submitWithFailover (answering (\<lambda>u. Ok None) (Ok ())) ''AAAA''
     (\<lparr>rt_horizonClients = [\<lparr>hc_baseURL = ''h1''\<rparr>, \<lparr>hc_baseURL = ''h2''\<rparr>, \<lparr>hc_baseURL = ''h3''\<rparr>],
       rt_sorobanClients = [\<lparr>sc_backend = 0\<rparr>], rt_horizonIdx = 2 ^ 63 - 1, rt_sorobanIdx = 0\<rparr>, ())) = Panic"
  by (subst counter_wrap_panics) simp_all

text \<open>
  Routing: Soroban for an envelope that parses and has an invoke-host-function operation,
  Horizon for every other one, those that do not parse included.
\<close>

lemma route_iff:
  "route parse x = BackendSoroban \<longleftrightarrow>
     (\<exists>env. parse x = Inr env \<and> InvokeHostFunction \<in> set (env_Operations env))"
  by (auto simp: route_def list_ex_iff split: sum.split)

end
