(* ===== verification/Float64.thy ===== *)
theory Float64
  imports Prelude
begin

text \<open>
  Go's \<open>float64\<close> as the code uses it: every finite double is an integer times a power of two, so
  products are computed exactly on integers and rounded to 53 significant bits, ties to even, with
  overflow to an infinity past the exponent range. The sign of zero and gradual underflow are left
  out: the factors are at least 1/4 in magnitude wherever the code multiplies. \<open>math.Pow\<close> is the
  standard library's loop (repeated squaring on a normalised fraction with a separate exponent).
\<close>

section \<open>Doubles\<close>

datatype f64 = Fin int int | PInf | NInf | NaN

fun bits :: "nat \<Rightarrow> nat" where
  "bits n = (if n = 0 then 0 else Suc (bits (n div 2)))"

declare bits.simps [simp del]

definition f64_pack :: "int \<Rightarrow> int \<Rightarrow> f64" where
  "f64_pack m e =
     (if m = 0 then Fin 0 0
      else if int (bits (nat \<bar>m\<bar>)) + e > 1024 then (if 0 < m then PInf else NInf)
      else Fin m e)"

definition f64_round :: "int \<Rightarrow> int \<Rightarrow> f64" where
  "f64_round m e =
     (let k = bits (nat \<bar>m\<bar>) in
      if k \<le> 53 then f64_pack m e
      else let s = k - 53;
               q = \<bar>m\<bar> div 2 ^ s;
               r = \<bar>m\<bar> mod 2 ^ s;
               q' = (if 2 * r > 2 ^ s \<or> (2 * r = 2 ^ s \<and> odd q) then q + 1 else q)
           in f64_pack (sgn m * q') (e + int s))"

definition f64_of_int :: "int \<Rightarrow> f64" where
  "f64_of_int i = f64_round i 0"

definition f64_sign :: "f64 \<Rightarrow> int" where
  "f64_sign x = (case x of Fin m e \<Rightarrow> sgn m | PInf \<Rightarrow> 1 | NInf \<Rightarrow> -1 | NaN \<Rightarrow> 0)"

definition f64_mul :: "f64 \<Rightarrow> f64 \<Rightarrow> f64" where
  "f64_mul x y =
     (case (x, y) of
        (NaN, _) \<Rightarrow> NaN
      | (_, NaN) \<Rightarrow> NaN
      | (Fin m e, Fin m' e') \<Rightarrow> f64_round (m * m') (e + e')
      | _ \<Rightarrow> (let s = f64_sign x * f64_sign y in
              if s = 0 then NaN else if 0 < s then PInf else NInf))"

text \<open>\<open>x < y\<close>; every comparison with a NaN is false.\<close>

definition f64_less :: "f64 \<Rightarrow> f64 \<Rightarrow> bool" where
  "f64_less x y =
     (case (x, y) of
        (NaN, _) \<Rightarrow> False
      | (_, NaN) \<Rightarrow> False
      | (Fin m e, Fin m' e') \<Rightarrow> m * 2 ^ nat (e - min e e') < m' * 2 ^ nat (e' - min e e')
      | (_, PInf) \<Rightarrow> x \<noteq> PInf
      | (NInf, _) \<Rightarrow> y \<noteq> NInf
      | _ \<Rightarrow> False)"

definition f64_eq :: "f64 \<Rightarrow> f64 \<Rightarrow> bool" where
  "f64_eq x y \<longleftrightarrow> x \<noteq> NaN \<and> y \<noteq> NaN \<and> \<not> f64_less x y \<and> \<not> f64_less y x"

text \<open>The conversion \<open>int64(x)\<close>: truncation; outside the range the Go specification leaves the
  value to the implementation, here the parameter \<open>conv\<close>.\<close>

definition f64_trunc :: "int \<Rightarrow> int \<Rightarrow> int" where
  "f64_trunc m e = (if 0 \<le> e then m * 2 ^ nat e else sgn m * (\<bar>m\<bar> div 2 ^ nat (- e)))"

definition f64_to_i64 :: "(f64 \<Rightarrow> i64) \<Rightarrow> f64 \<Rightarrow> i64" where
  "f64_to_i64 conv x =
     (case x of
        Fin m e \<Rightarrow> (let i = f64_trunc m e in
           if - (2 ^ 63) \<le> i \<and> i < 2 ^ 63 then word_of_int i else conv x)
      | _ \<Rightarrow> conv x)"

section \<open>math.Pow with an integral exponent\<close>

text \<open>\<open>Frexp\<close> of a nonzero finite number: a fraction in [1/2, 1) and a power of two.\<close>

definition f64_frexp :: "int \<Rightarrow> int \<Rightarrow> f64 \<times> int" where
  "f64_frexp m e = (Fin m (- int (bits (nat \<bar>m\<bar>))), e + int (bits (nat \<bar>m\<bar>)))"

definition f64_half :: f64 where
  "f64_half = Fin 1 (- 1)"

definition f64_one :: f64 where
  "f64_one = Fin 1 0"

fun f64_ldexp :: "f64 \<Rightarrow> int \<Rightarrow> f64" where
  "f64_ldexp (Fin m e) k = f64_pack m (e + k)"
| "f64_ldexp x k = x"

text \<open>The loop \<open>for i := int64(yi); i != 0; i >>= 1\<close> over \<open>x1\<close>, \<open>xe\<close>, \<open>a1\<close>, \<open>ae\<close>.\<close>

function pow_loop :: "nat \<Rightarrow> f64 \<Rightarrow> int \<Rightarrow> f64 \<Rightarrow> int \<Rightarrow> f64 \<times> int" where
  "pow_loop i x1 xe a1 ae =
     (if i = 0 then (a1, ae)
      else if xe < - 4096 \<or> 4096 < xe then (a1, ae + xe)
      else let a1' = (if odd i then f64_mul a1 x1 else a1);
               ae' = (if odd i then ae + xe else ae);
               x2 = f64_mul x1 x1
           in if f64_less x2 f64_half
              then pow_loop (i div 2) (f64_ldexp x2 1) (2 * xe - 1) a1' ae'
              else pow_loop (i div 2) x2 (2 * xe) a1' ae')"
  by pat_completeness auto
termination
  by (relation "measure (\<lambda>(i, _). i)") auto

declare pow_loop.simps [simp del]

definition f64_pow :: "f64 \<Rightarrow> nat \<Rightarrow> f64" where
  "f64_pow x y =
     (if y = 0 \<or> f64_eq x f64_one then f64_one
      else if y = 1 then x
      else case x of
        NaN \<Rightarrow> NaN
      | PInf \<Rightarrow> PInf
      | NInf \<Rightarrow> (if odd y then NInf else PInf)
      | Fin m e \<Rightarrow>
          (if m = 0 then Fin 0 0
           else let (x1, xe) = f64_frexp m e;
                    (a1, ae) = pow_loop y x1 xe f64_one 0
                in f64_ldexp a1 ae))"

section \<open>Facts\<close>

lemma bits_bound: "n < 2 ^ k \<Longrightarrow> bits n \<le> k"
proof (induction k arbitrary: n)
  case 0
  then show ?case by (simp add: bits.simps)
next
  case (Suc k)
  then have "bits (n div 2) \<le> k" by (intro Suc.IH) auto
  then show ?case by (simp add: bits.simps [of n])
qed

lemma bits_1 [simp]: "bits (Suc 0) = Suc 0"
  by (simp add: bits.simps)

lemma f64_round_exact:
  assumes "\<bar>m\<bar> < 2 ^ 53" "m \<noteq> 0" "e \<le> 971"
  shows "f64_round m e = Fin m e"
proof -
  have "nat \<bar>m\<bar> < 2 ^ 53" using assms(1) by (simp add: nat_less_iff)
  then have "bits (nat \<bar>m\<bar>) \<le> 53" by (rule bits_bound)
  then show ?thesis using assms by (simp add: f64_round_def f64_pack_def)
qed

lemma f64_of_int_exact: "\<bar>i\<bar> < 2 ^ 53 \<Longrightarrow> i \<noteq> 0 \<Longrightarrow> f64_of_int i = Fin i 0"
  by (simp add: f64_of_int_def f64_round_exact)

text \<open>Powers of a power of two are computed exactly, as long as nothing overflows.\<close>

lemma f64_mul_pow2: "e + e' \<le> 971 \<Longrightarrow> f64_mul (Fin 1 e) (Fin 1 e') = Fin 1 (e + e')"
  by (simp add: f64_mul_def f64_round_exact)

lemma pow_loop_pow2:
  assumes "0 \<le> t" "int i * t \<le> 900" "p \<le> 0" "t \<le> 900"
  shows "\<exists>p' ae'. pow_loop i (Fin 1 (- 1)) (t + 1) (Fin 1 p) ae = (Fin 1 p', ae') \<and>
    p' \<le> 0 \<and> p' + ae' = p + ae + int i * t"
  using assms
proof (induction i arbitrary: t p ae rule: less_induct)
  case (less i)
  show ?case
  proof (cases "i = 0")
    case True
    with less.prems show ?thesis by (simp add: pow_loop.simps)
  next
    case False
    let ?p = "if odd i then p - 1 else p" and ?ae = "if odd i then ae + (t + 1) else ae"
    have sq: "f64_mul (Fin 1 (- 1)) (Fin 1 (- 1)) = Fin 1 (- 2)"
      using f64_mul_pow2 [of "- 1" "- 1"] by simp
    have step: "pow_loop i (Fin 1 (- 1)) (t + 1) (Fin 1 p) ae
        = pow_loop (i div 2) (Fin 1 (- 1)) (2 * t + 1) (Fin 1 ?p) ?ae"
      using False less.prems f64_mul_pow2 [of p "- 1"]
      by (subst pow_loop.simps) (simp add: sq f64_less_def f64_half_def f64_pack_def Let_def
          add.commute [of 1 "2 * t"])
    show ?thesis
    proof (cases "i = 1")
      case True
      then show ?thesis using step less.prems by (simp add: pow_loop.simps)
    next
      case big: False
      have i2: "int (i div 2) * (2 * t) + (if odd i then t else 0) = int i * t"
      proof -
        have "int i = 2 * int (i div 2) + (if odd i then 1 else 0)" by presburger
        then show ?thesis by (simp add: algebra_simps)
      qed
      have "2 * t \<le> int i * t" using False big less.prems by (intro mult_right_mono) auto
      moreover have "int (i div 2) * (2 * t) \<le> 900"
      proof (rule order_trans [OF _ less.prems(2)])
        have "0 \<le> (if odd i then t else 0)" using less.prems(1) by simp
        then show "int (i div 2) * (2 * t) \<le> int i * t" using i2 by linarith
      qed
      ultimately have "\<exists>p' ae'. pow_loop (i div 2) (Fin 1 (- 1)) (2 * t + 1) (Fin 1 ?p) ?ae
          = (Fin 1 p', ae') \<and> p' \<le> 0 \<and> p' + ae' = ?p + ?ae + int (i div 2) * (2 * t)"
        using less.prems False by (intro less.IH) (auto split: if_splits)
      then show ?thesis using step i2 by (auto split: if_splits)
    qed
  qed
qed

lemma f64_pow_pow2:
  assumes "1 \<le> t" "int n * t \<le> 900"
  shows "f64_pow (Fin 1 t) n = Fin 1 (int n * t)"
proof -
  have ne: "\<not> f64_eq (Fin 1 t) f64_one"
    using assms(1) by (simp add: f64_eq_def f64_one_def f64_less_def)
  consider "n = 0" | "n = 1" | "2 \<le> n" by linarith
  then show ?thesis
  proof cases
    case 2
    with ne show ?thesis by (simp add: f64_pow_def)
  next
    case 3
    have t: "t \<le> 900" using 3 assms mult_right_mono [of 1 "int n" t] by linarith
    obtain p' ae' where l: "pow_loop n (Fin 1 (- 1)) (t + 1) (Fin 1 0) 0 = (Fin 1 p', ae')"
        "p' + ae' = int n * t"
      using pow_loop_pow2 [of t n 0 0] assms t by auto
    then show ?thesis
      using 3 ne assms by (simp add: f64_pow_def f64_frexp_def f64_one_def f64_pack_def)
  qed (simp_all add: f64_pow_def f64_one_def)
qed

end
