(* ===== verification/GoNumbers.thy ===== *)
theory GoNumbers
  imports Float64 Strconv
begin

text \<open>
  Go's readers of numbers that the configuration and the JSON decoder use: \<open>strconv.ParseFloat(s, 64)\<close>
  and \<open>time.ParseDuration\<close>, branch by branch. The value of a float is computed exactly and rounded
  once to the nearest double, ties to even, with gradual underflow; \<open>ParseFloat\<close> promises no less.
\<close>

section \<open>Rounding a fraction\<close>

text \<open>Doubles as an odd integer times a power of two.\<close>

function f64_norm :: "nat \<Rightarrow> int \<Rightarrow> nat \<times> int" where
  "f64_norm m e = (if m \<noteq> 0 \<and> even m then f64_norm (m div 2) (e + 1) else (m, e))"
  by pat_completeness auto
termination
  by (relation "measure fst") auto

declare f64_norm.simps [simp del]

definition round_half_even :: "nat \<Rightarrow> nat \<Rightarrow> nat" where
  "round_half_even n d =
     (let q = n div d; r = n mod d in
      if 2 * r > d \<or> 2 * r = d \<and> odd q then q + 1 else q)"

text \<open>The exponent of the last place of a 53-bit quotient, at least that of the subnormals.\<close>

definition ulp_exponent :: "nat \<Rightarrow> nat \<Rightarrow> int" where
  "ulp_exponent n d =
     (let e = int (bits n) - int (bits d) - 53;
          q = n * 2 ^ nat (- e) div (d * 2 ^ nat e)
      in max (- 1074) (if bits q > 53 then e + 1 else e))"

definition f64_of_fraction :: "bool \<Rightarrow> nat \<Rightarrow> nat \<Rightarrow> f64" where
  "f64_of_fraction neg n d =
     (let e = ulp_exponent n d;
          (m, e') = f64_norm (round_half_even (n * 2 ^ nat (- e)) (d * 2 ^ nat e)) e
      in f64_pack (if neg then - int m else int m) e')"

definition f64_div :: "f64 \<Rightarrow> f64 \<Rightarrow> f64" where
  "f64_div x y =
     (case (x, y) of
        (Fin m e, Fin m' e') \<Rightarrow>
          (if m' = 0 then (if m = 0 then NaN else if 0 < m then PInf else NInf)
           else f64_of_fraction ((m < 0) \<noteq> (m' < 0)) (nat \<bar>m\<bar> * 2 ^ nat (e - e')) (nat \<bar>m'\<bar> * 2 ^ nat (e' - e)))
      | (Fin m e, PInf) \<Rightarrow> Fin 0 0
      | (Fin m e, NInf) \<Rightarrow> Fin 0 0
      | (PInf, Fin m e) \<Rightarrow> (if m < 0 then NInf else PInf)
      | (NInf, Fin m e) \<Rightarrow> (if m < 0 then PInf else NInf)
      | _ \<Rightarrow> NaN)"

section \<open>strconv.ParseFloat\<close>

definition lower :: "char \<Rightarrow> char" where
  "lower c = (let n = of_char c :: nat in if 65 \<le> n \<and> n \<le> 90 then char_of (n + 32) else c)"

definition strip_sign :: "string \<Rightarrow> bool \<times> string" where
  "strip_sign s =
     (case s of
        [] \<Rightarrow> (False, [])
      | c # cs \<Rightarrow> (if c = CHR ''-'' then (True, cs) else if c = CHR ''+'' then (False, cs) else (False, s)))"

text \<open>\<open>special\<close>: the names of the infinities and of NaN, in any case; NaN has no sign.\<close>

definition special :: "string \<Rightarrow> f64 option" where
  "special s =
     (let (neg, b) = strip_sign s in
      if map lower b = ''inf'' \<or> map lower b = ''infinity'' then Some (if neg then NInf else PInf)
      else if map lower s = ''nan'' then Some NaN else None)"

definition hex_val :: "char \<Rightarrow> nat option" where
  "hex_val c =
     (case digit_val c of
        Some d \<Rightarrow> Some d
      | None \<Rightarrow> (let n = of_char (lower c) :: nat in if 97 \<le> n \<and> n \<le> 102 then Some (n - 87) else None))"

text \<open>
  The loop over the digits of \<open>readFloat\<close>: the digits read as one number, how many follow the point,
  whether there was any, and the rest. Underscores are skipped here and checked afterwards.
\<close>

fun read_digits :: "bool \<Rightarrow> bool \<Rightarrow> nat \<Rightarrow> nat \<Rightarrow> bool \<Rightarrow> string \<Rightarrow> nat \<times> nat \<times> bool \<times> string" where
  "read_digits hex dot m k saw [] = (m, k, saw, [])"
| "read_digits hex dot m k saw (c # cs) =
     (if c = CHR ''_'' then read_digits hex dot m k saw cs
      else if c = CHR ''.'' then
        (if dot then (m, k, saw, c # cs) else read_digits hex True m k saw cs)
      else case (if hex then hex_val c else digit_val c) of
        Some d \<Rightarrow> read_digits hex dot (m * (if hex then 16 else 10) + d) (if dot then k + 1 else k) True cs
      | None \<Rightarrow> (m, k, saw, c # cs))"

text \<open>The digits of an exponent, which stops growing at 10000.\<close>

fun read_exponent :: "nat \<Rightarrow> string \<Rightarrow> nat \<times> string" where
  "read_exponent e [] = (e, [])"
| "read_exponent e (c # cs) =
     (if c = CHR ''_'' then read_exponent e cs
      else case digit_val c of
        Some d \<Rightarrow> read_exponent (if e < 10000 then e * 10 + d else e) cs
      | None \<Rightarrow> (e, c # cs))"

text \<open>An exponent must start with a digit after its sign.\<close>

definition signed_exponent :: "string \<Rightarrow> (int \<times> string) option" where
  "signed_exponent s =
     (let (neg, ds) = strip_sign s in
      case ds of
        [] \<Rightarrow> None
      | c # _ \<Rightarrow> (if digit_val c = None then None
                  else let (e, rest) = read_exponent 0 ds in Some (if neg then - int e else int e, rest)))"

text \<open>\<open>underscoreOK\<close>: an underscore stands between digits, where a base prefix counts as a digit.\<close>

datatype last_seen = AtStart | Digit | Underscore | OtherChar

fun underscores_between :: "bool \<Rightarrow> last_seen \<Rightarrow> string \<Rightarrow> bool" where
  "underscores_between hex saw [] = (saw \<noteq> Underscore)"
| "underscores_between hex saw (c # cs) =
     (if digit_val c \<noteq> None \<or> hex \<and> hex_val c \<noteq> None then underscores_between hex Digit cs
      else if c = CHR ''_'' then saw = Digit \<and> underscores_between hex Underscore cs
      else saw \<noteq> Underscore \<and> underscores_between hex OtherChar cs)"

definition underscoreOK :: "string \<Rightarrow> bool" where
  "underscoreOK s =
     (let b = snd (strip_sign s) in
      case b of
        c # x # cs \<Rightarrow>
          (if c = CHR ''0'' \<and> lower x \<in> {CHR ''b'', CHR ''o'', CHR ''x''}
           then underscores_between (lower x = CHR ''x'') Digit cs
           else underscores_between False AtStart b)
      | _ \<Rightarrow> underscores_between False AtStart b)"

text \<open>\<open>readFloat\<close>: the sign, the digits, their scale as a power of the exponent's base, and the base.\<close>

definition readFloat :: "string \<Rightarrow> (bool \<times> nat \<times> int \<times> bool) option" where
  "readFloat s =
     (let (neg, b) = strip_sign s;
          hex = (2 < length b \<and> b ! 0 = CHR ''0'' \<and> lower (b ! 1) = CHR ''x'');
          (m, k, saw, rest) = read_digits hex False 0 0 False (if hex then drop 2 b else b);
          scale = - (if hex then 4 * int k else int k)
      in if \<not> saw then None
         else let ex = (case rest of
                  c # cs \<Rightarrow> (if lower c = (if hex then CHR ''p'' else CHR ''e'') then signed_exponent cs
                             else if hex then None else Some (0, rest))
                | [] \<Rightarrow> (if hex then None else Some (0, [])))
              in case ex of
                   Some (e, []) \<Rightarrow>
                     (if CHR ''_'' \<in> set s \<and> \<not> underscoreOK s then None else Some (neg, m, scale + e, hex))
                 | _ \<Rightarrow> None)"

text \<open>A value out of range is an error, so a parsed infinity is one that was written as such.\<close>

definition ParseFloat :: "string \<Rightarrow> f64 option" where
  "ParseFloat s =
     (case special s of
        Some x \<Rightarrow> Some x
      | None \<Rightarrow>
          (case readFloat s of
             None \<Rightarrow> None
           | Some (neg, m, e, hex) \<Rightarrow>
               (let b = (if hex then 2 else 10) :: nat;
                    x = (if m = 0 then Fin 0 0 else f64_of_fraction neg (m * b ^ nat e) (b ^ nat (- e)))
                in if x = PInf \<or> x = NInf then None else Some x)))"

section \<open>time.ParseDuration\<close>

text \<open>\<open>leadingInt\<close>: None when the number passes 2 to the 63.\<close>

fun leadingInt :: "nat \<Rightarrow> string \<Rightarrow> (nat \<times> string) option" where
  "leadingInt x [] = Some (x, [])"
| "leadingInt x (c # cs) =
     (case digit_val c of
        None \<Rightarrow> Some (x, c # cs)
      | Some d \<Rightarrow>
          (if x > 2 ^ 63 div 10 then None
           else let x' = x * 10 + d in if x' > 2 ^ 63 then None else leadingInt x' cs))"

text \<open>\<open>leadingFraction\<close>: digits past the precision are skipped.\<close>

fun leadingFraction :: "bool \<Rightarrow> nat \<Rightarrow> f64 \<Rightarrow> string \<Rightarrow> nat \<times> f64 \<times> string" where
  "leadingFraction ovf x scale [] = (x, scale, [])"
| "leadingFraction ovf x scale (c # cs) =
     (case digit_val c of
        None \<Rightarrow> (x, scale, c # cs)
      | Some d \<Rightarrow>
          (if ovf then leadingFraction True x scale cs
           else if x > (2 ^ 63 - 1) div 10 then leadingFraction True x scale cs
           else let y = x * 10 + d in
                if y > 2 ^ 63 then leadingFraction True x scale cs
                else leadingFraction False y (f64_mul scale (Fin 5 1)) cs))"

definition unit_name_end :: "char \<Rightarrow> bool" where
  "unit_name_end c \<longleftrightarrow> c = CHR ''.'' \<or> digit_val c \<noteq> None"

definition unitMap :: "(string \<times> nat) list" where
  "unitMap = [(''ns'', 1), (''us'', 1000), ([CHR 0xC2, CHR 0xB5, CHR ''s''], 1000),
     ([CHR 0xCE, CHR 0xBC, CHR ''s''], 1000), (''ms'', 1000000), (''s'', 1000000000),
     (''m'', 60000000000), (''h'', 3600000000000)]"

text \<open>\<open>uint64(float64(f) * (float64(unit) / scale))\<close>; the value is far below 2 to the 63.\<close>

definition fraction_ns :: "nat \<Rightarrow> f64 \<Rightarrow> nat \<Rightarrow> nat" where
  "fraction_ns f scale u =
     (case f64_mul (f64_of_int (int f)) (f64_div (f64_of_int (int u)) scale) of
        Fin m e \<Rightarrow> nat (f64_trunc m e)
      | _ \<Rightarrow> 0)"

text \<open>One number with its unit: the nanoseconds and the rest.\<close>

definition duration_item :: "string \<Rightarrow> (nat \<times> string) option" where
  "duration_item s =
     (case leadingInt 0 s of
        None \<Rightarrow> None
      | Some (v, s1) \<Rightarrow>
          (let pre = (length s1 \<noteq> length s);
               dot = (s1 \<noteq> [] \<and> hd s1 = CHR ''.'');
               s2 = (if dot then tl s1 else s1);
               (f, scale, s3) = (if dot then leadingFraction False 0 (Fin 1 0) s2 else (0, Fin 1 0, s2));
               post = (dot \<and> length s3 \<noteq> length s2);
               u = takeWhile (\<lambda>c. \<not> unit_name_end c) s3;
               s4 = dropWhile (\<lambda>c. \<not> unit_name_end c) s3
           in if \<not> pre \<and> \<not> post then None
              else if u = [] then None
              else case map_of unitMap u of
                None \<Rightarrow> None
              | Some unt \<Rightarrow>
                  (if v > 2 ^ 63 div unt then None
                   else let v' = v * unt + (if f > 0 then fraction_ns f scale unt else 0)
                        in if v' > 2 ^ 63 then None else Some (v', s4))))"

lemma leadingInt_length: "leadingInt x s = Some (y, t) \<Longrightarrow> length t \<le> length s"
  by (induction x s rule: leadingInt.induct) (fastforce split: option.splits if_splits simp: Let_def)+

lemma leadingFraction_length: "leadingFraction ovf x sc s = (y, sc', t) \<Longrightarrow> length t \<le> length s"
proof (induction ovf x sc s arbitrary: y sc' t rule: leadingFraction.induct)
  case (2 ovf x scale c cs)
  then show ?case by (fastforce split: option.splits if_splits simp: Let_def)
qed simp

lemma duration_item_shorter: "duration_item s = Some (v, t) \<Longrightarrow> length t < length s"
proof -
  assume a: "duration_item s = Some (v, t)"
  have dw: "takeWhile P xs \<noteq> [] \<Longrightarrow> length (dropWhile P xs) < length xs" for P and xs :: string
    by (metis append_Nil length_append length_dropWhile_le less_add_same_cancel2 length_greater_0_conv takeWhile_dropWhile_id)
  obtain x s1 where l: "leadingInt 0 s = Some (x, s1)" using a by (auto simp: duration_item_def split: option.splits)
  note b = leadingInt_length [OF l]
  let ?P = "\<lambda>c. \<not> unit_name_end c"
  obtain f sc s3 where s3: "(if s1 \<noteq> [] \<and> hd s1 = CHR ''.'' then leadingFraction False 0 (Fin 1 0) (tl s1)
      else (0, Fin 1 0, s1)) = (f, sc, s3)" by (metis prod_cases3)
  then have "length s3 \<le> length s1"
    using leadingFraction_length [of False 0 "Fin 1 0" "tl s1" f sc s3] by (auto split: if_splits)
  moreover have "takeWhile ?P s3 \<noteq> []" "t = dropWhile ?P s3"
    using a l s3 by (auto simp: duration_item_def Let_def split: if_splits option.splits)
  ultimately show ?thesis using b dw [of ?P s3] by simp
qed

text \<open>The loop over the items; \<open>d\<close> is an unsigned 64-bit sum.\<close>

function duration_loop :: "nat \<Rightarrow> string \<Rightarrow> nat option" where
  "duration_loop d s =
     (if s = [] then Some d
      else if hd s \<noteq> CHR ''.'' \<and> digit_val (hd s) = None then None
      else case duration_item s of
        None \<Rightarrow> None
      | Some (v, rest) \<Rightarrow>
          (let d' = (d + v) mod 2 ^ 64 in if d' > 2 ^ 63 then None else duration_loop d' rest))"
  by pat_completeness auto
termination
  by (relation "measure (\<lambda>(d, s). length s)") (auto dest: duration_item_shorter)

declare duration_loop.simps [simp del]

definition ParseDuration :: "string \<Rightarrow> i64 option" where
  "ParseDuration s =
     (let (neg, b) = strip_sign s in
      if b = ''0'' then Some 0
      else if b = [] then None
      else case duration_loop 0 b of
        None \<Rightarrow> None
      | Some d \<Rightarrow> (if neg then Some (- of_nat d) else if d > 2 ^ 63 - 1 then None else Some (of_nat d)))"

section \<open>Facts about floats\<close>

text \<open>Rules that evaluate on numerals.\<close>

lemma bits_numeral [simp]:
  "bits 0 = 0" "bits 1 = 1" "bits (numeral (Num.Bit0 k)) = Suc (bits (numeral k))"
  "bits (numeral (Num.Bit1 k)) = Suc (bits (numeral k))"
  by (simp_all add: bits.simps [of 0] bits.simps [of "numeral (Num.Bit0 k)"] bits.simps [of "numeral (Num.Bit1 k)"])

lemma f64_norm_numeral [simp]:
  "f64_norm (Suc 0) e = (1, e)" "f64_norm 1 e = (1, e)"
  "f64_norm (numeral (Num.Bit0 k)) e = f64_norm (numeral k) (e + 1)"
  "f64_norm (numeral (Num.Bit1 k)) e = (numeral (Num.Bit1 k), e)"
  by (simp_all add: f64_norm.simps [of "Suc 0"] f64_norm.simps [of "numeral (Num.Bit0 k)"]
      f64_norm.simps [of "numeral (Num.Bit1 k)"])

lemma bits_lt: "n < 2 ^ bits n"
proof (induction n rule: bits.induct)
  case (1 n)
  show ?case
  proof (cases "n = 0")
    case False
    then have "n div 2 < 2 ^ bits (n div 2)" using 1 by simp
    then show ?thesis using False by (simp add: bits.simps [of n])
  qed simp
qed

lemma bits_ge: "0 < n \<Longrightarrow> 2 ^ bits n \<le> 2 * n"
proof (induction n rule: bits.induct)
  case (1 n)
  show ?case
  proof (cases "n = 1")
    case False
    then have "2 ^ bits (n div 2) \<le> 2 * (n div 2)" using 1 by simp
    then show ?thesis using "1.prems" by (simp add: bits.simps [of n])
  qed simp
qed

text \<open>The quotient a place is worth: one place up halves it.\<close>

definition scaled_quotient :: "nat \<Rightarrow> nat \<Rightarrow> int \<Rightarrow> nat" where
  "scaled_quotient n d e = n * 2 ^ nat (- e) div (d * 2 ^ nat e)"

lemma scaled_quotient_Suc: "scaled_quotient n d (e + 1) = scaled_quotient n d e div 2"
proof (cases "0 \<le> e")
  case True
  then have "nat (e + 1) = Suc (nat e)" "nat (- e) = 0" "nat (- (e + 1)) = 0" by auto
  then have "d * 2 ^ nat (e + 1) = d * 2 ^ nat e * 2" by simp
  then show ?thesis using True by (simp only: scaled_quotient_def div_mult2_eq) simp
next
  case False
  then have "nat (- e) = Suc (nat (- (e + 1)))" "nat e = 0" "nat (e + 1) = 0" by auto
  then show ?thesis by (simp add: scaled_quotient_def div_mult2_eq [symmetric] mult.commute mult.left_commute)
qed

lemma scaled_quotient_mono: "scaled_quotient n d (e + int j) \<le> scaled_quotient n d e"
proof (induction j)
  case (Suc j)
  have "scaled_quotient n d (e + int (Suc j)) = scaled_quotient n d (e + int j) div 2"
    using scaled_quotient_Suc [of n d "e + int j"] by (simp add: algebra_simps)
  then show ?case using Suc by linarith
qed simp

lemma scaled_quotient_bound:
  assumes "0 < d"
  shows "scaled_quotient n d (int (bits n) - int (bits d) - 53) < 2 ^ 54"
proof -
  let ?e = "int (bits n) - int (bits d) - 53"
  have n: "n < 2 ^ bits n" and d: "2 ^ bits d \<le> 2 * d" using bits_lt bits_ge [OF assms] by auto
  have "n * 2 ^ nat (- ?e) < 2 ^ 54 * (d * 2 ^ nat ?e)"
  proof (cases "0 \<le> ?e")
    case True
    then have b: "bits n = bits d + (53 + nat ?e)" by simp
    have "n < 2 ^ bits d * 2 ^ (53 + nat ?e)" using n by (simp only: power_add [symmetric] b [symmetric])
    also have "\<dots> \<le> (2 * d) * 2 ^ (53 + nat ?e)" using d by (rule mult_right_mono) simp
    finally show ?thesis using True by (simp add: power_add)
  next
    case False
    then have b: "bits d + 53 = bits n + nat (- ?e)" by simp
    have "n * 2 ^ nat (- ?e) < 2 ^ bits n * 2 ^ nat (- ?e)" using n by simp
    also have "\<dots> = 2 ^ bits d * 2 ^ 53" using b by (simp only: power_add [symmetric])
    also have "\<dots> \<le> (2 * d) * 2 ^ 53" using d by (rule mult_right_mono) simp
    finally show ?thesis using False by simp
  qed
  then show ?thesis unfolding scaled_quotient_def by (rule less_mult_imp_div_less)
qed

lemma ulp_exponent_bound:
  assumes "0 < d"
  shows "scaled_quotient n d (ulp_exponent n d) < 2 ^ 53" "- 1074 \<le> ulp_exponent n d"
proof -
  let ?e = "int (bits n) - int (bits d) - 53"
  let ?b = "if bits (scaled_quotient n d ?e) > 53 then ?e + 1 else ?e"
  have u: "ulp_exponent n d = max (- 1074) ?b" by (simp add: ulp_exponent_def scaled_quotient_def Let_def)
  then show "- 1074 \<le> ulp_exponent n d" by simp
  have "scaled_quotient n d ?b < 2 ^ 53"
  proof (cases "bits (scaled_quotient n d ?e) > 53")
    case True
    then show ?thesis
      using scaled_quotient_bound [OF assms, of n] scaled_quotient_Suc [of n d ?e] by simp
  next
    case False
    then have "(2 :: nat) ^ bits (scaled_quotient n d ?e) \<le> 2 ^ 53" by (intro power_increasing) auto
    then show ?thesis using bits_lt [of "scaled_quotient n d ?e"] False by simp
  qed
  moreover obtain j where "ulp_exponent n d = ?b + int j"
    using u by (metis max.cobounded2 zle_iff_zadd)
  ultimately show "scaled_quotient n d (ulp_exponent n d) < 2 ^ 53"
    using scaled_quotient_mono [of n d ?b j] by (simp only:)
qed

lemma f64_norm_props:
  "f64_norm m e = (m', e') \<Longrightarrow> m \<noteq> 0 \<Longrightarrow> odd m' \<and> m' \<le> m \<and> e \<le> e'"
proof (induction m e rule: f64_norm.induct)
  case (1 m e)
  show ?case
  proof (cases "even m")
    case True
    moreover have "m div 2 \<noteq> 0" using "1.prems"(2) True by presburger
    ultimately have "odd m' \<and> m' \<le> m div 2 \<and> e + 1 \<le> e'"
      using 1 by (simp add: f64_norm.simps [of m])
    then show ?thesis by linarith
  next
    case False
    then show ?thesis using 1(2) by (simp add: f64_norm.simps [of m])
  qed
qed

text \<open>A double in its canonical form: zero, an odd 53-bit integer times a power of two in the range of
  the exponent, an infinity or NaN.\<close>

definition f64_canonical :: "f64 \<Rightarrow> bool" where
  "f64_canonical x =
     (case x of
        Fin m e \<Rightarrow> m = 0 \<and> e = 0 \<or> odd m \<and> \<bar>m\<bar> < 2 ^ 53 \<and> - 1074 \<le> e \<and> int (bits (nat \<bar>m\<bar>)) + e \<le> 1024
      | _ \<Rightarrow> True)"

lemma f64_of_fraction_canonical:
  assumes "0 < d"
  shows "f64_canonical (f64_of_fraction neg n d)"
proof -
  let ?e = "ulp_exponent n d"
  let ?q = "round_half_even (n * 2 ^ nat (- ?e)) (d * 2 ^ nat ?e)"
  obtain m e' where f: "f64_norm ?q ?e = (m, e')" by (cases "f64_norm ?q ?e")
  have q: "?q \<le> 2 ^ 53"
    using ulp_exponent_bound(1) [OF assms, of n] by (simp add: round_half_even_def scaled_quotient_def Let_def)
  show ?thesis
  proof (cases "?q = 0")
    case True
    then have "m = 0" using f by (simp add: f64_norm.simps)
    then show ?thesis using f by (simp add: f64_of_fraction_def Let_def f64_pack_def f64_canonical_def)
  next
    case False
    note p = f64_norm_props [OF f False]
    then have "m \<noteq> 2 ^ 53" by auto
    then have "m < 2 ^ 53" using p q by simp
    then have "int m < 2 ^ 53" by simp
    then show ?thesis
      using p ulp_exponent_bound(2) [OF assms, of n] f
      by (auto simp: f64_of_fraction_def Let_def f64_pack_def f64_canonical_def)
  qed
qed

lemma ParseFloat_canonical: "ParseFloat s = Some x \<Longrightarrow> f64_canonical x"
  using f64_of_fraction_canonical
  by (auto simp: ParseFloat_def special_def Let_def f64_canonical_def split: option.splits if_splits prod.splits)

lemma ParseFloat_nan: "map lower s = ''nan'' \<Longrightarrow> ParseFloat s = Some NaN"
proof -
  assume a: "map lower s = ''nan''"
  then obtain c cs where s: "s = c # cs" "lower c = CHR ''n''" "map lower cs = ''an''" by (cases s) auto
  then have "c \<noteq> CHR ''-''" "c \<noteq> CHR ''+''" by (auto simp: lower_def)
  then have "strip_sign s = (False, s)" by (simp add: strip_sign_def s(1))
  then show ?thesis using a by (simp add: ParseFloat_def special_def)
qed

section \<open>Facts about durations\<close>

lemma dec_value_mono: "dec_value x ds = Some n \<Longrightarrow> x \<le> n"
proof (induction ds arbitrary: x)
  case (Cons c ds)
  then obtain d where "dec_value (x * 10 + d) ds = Some n" by (auto split: option.splits)
  from Cons.IH [OF this] show ?case by simp
qed simp

lemma leadingInt_digits:
  assumes "dec_value x ds = Some n" "n \<le> 2 ^ 63" "rest = [] \<or> digit_val (hd rest) = None"
  shows "leadingInt x (ds @ rest) = Some (n, rest)"
  using assms
proof (induction ds arbitrary: x)
  case Nil
  then show ?case by (cases rest) auto
next
  case (Cons c ds)
  then obtain d where d: "digit_val c = Some d" "dec_value (x * 10 + d) ds = Some n"
    by (auto split: option.splits)
  have "x * 10 + d \<le> 2 ^ 63" using dec_value_mono [OF d(2)] Cons.prems(2) by linarith
  moreover have "\<not> x > 2 ^ 63 div 10" using calculation by simp
  ultimately show ?case using Cons.IH [OF d(2)] Cons.prems(2,3) d(1) by (simp add: Let_def)
qed

lemma dec_digits_head: "\<exists>c cs. dec_digits n = c # cs \<and> digit_val c \<noteq> None \<and> c \<notin> {CHR ''-'', CHR ''+'', CHR ''.''}"
proof -
  obtain c cs where cs: "dec_digits n = c # cs" using dec_digits_nonempty by (cases "dec_digits n") auto
  have "digit_val c \<noteq> None" using dec_value_digits [of n] cs by (auto split: option.splits)
  then show ?thesis using cs by (auto simp: digit_val_def Let_def split: if_splits)
qed

text \<open>A whole number of one of the units, as an operator writes it.\<close>

lemma duration_units:
  assumes "(u, k) \<in> set unitMap" "n * k < 2 ^ 63"
  shows "ParseDuration (dec_digits n @ u) = Some (of_nat (n * k))"
proof -
  let ?s = "dec_digits n @ u"
  have u: "u \<noteq> []" "digit_val (hd u) = None" "hd u \<noteq> CHR ''.''" "map_of unitMap u = Some k" "0 < k"
      "takeWhile (\<lambda>c. \<not> unit_name_end c) u = u" "dropWhile (\<lambda>c. \<not> unit_name_end c) u = []"
    using assms(1) unfolding unitMap_def
    by (auto simp: unit_name_end_def digit_val_def Let_def)
  obtain c cs where c: "dec_digits n = c # cs" "digit_val c \<noteq> None" "c \<notin> {CHR ''-'', CHR ''+'', CHR ''.''}"
    using dec_digits_head by blast
  have "n * 1 \<le> n * k" using u(5) by (intro mult_left_mono) auto
  then have "n \<le> 2 ^ 63" using assms(2) by linarith
  then have l: "leadingInt 0 ?s = Some (n, u)"
    using dec_value_digits u(2) by (intro leadingInt_digits) auto
  have "n \<le> 2 ^ 63 div k"
    using assms(2) u(5) by (metis div_le_mono less_imp_le_nat nonzero_mult_div_cancel_right not_gr_zero)
  moreover have "length u \<noteq> length ?s" using dec_digits_nonempty by simp
  ultimately have i: "duration_item ?s = Some (n * k, [])"
    using u(1,3,4) assms(2)
    unfolding duration_item_def l option.case prod.case by (simp add: Let_def u(6,7))
  have "duration_loop 0 ?s = Some (n * k)"
    using i assms(2) c by (simp add: duration_loop.simps [of 0 "c # cs @ u"] duration_loop.simps [of _ "[]"])
  moreover have "strip_sign ?s = (False, ?s)" "?s \<noteq> ''0''"
    using c u(1) by (auto simp: strip_sign_def)
  ultimately show ?thesis using assms(2) c(1) u(1) by (simp add: ParseDuration_def)
qed

section \<open>Integers as floats\<close>

text \<open>An integer of 64 bits, in decimal, is a float.\<close>

lemma f64_norm_bits: "f64_norm m e = (m', e') \<Longrightarrow> m \<noteq> 0 \<Longrightarrow> int (bits m') + e' = int (bits m) + e"
proof (induction m e rule: f64_norm.induct)
  case (1 m e)
  show ?case
  proof (cases "even m")
    case True
    moreover have "m div 2 \<noteq> 0" using "1.prems"(2) True by presburger
    ultimately have "int (bits m') + e' = int (bits (m div 2)) + (e + 1)"
      using 1 by (simp add: f64_norm.simps [of m])
    then show ?thesis using "1.prems"(2) by (simp add: bits.simps [of m])
  next
    case False
    then show ?thesis using 1(2) by (simp add: f64_norm.simps [of m])
  qed
qed

lemma f64_of_fraction_finite:
  assumes "0 < d" "bits n \<le> bits d + 960"
  shows "f64_of_fraction neg n d \<notin> {PInf, NInf}"
proof -
  let ?e = "ulp_exponent n d"
  let ?q = "round_half_even (n * 2 ^ nat (- ?e)) (d * 2 ^ nat ?e)"
  obtain m e' where f: "f64_norm ?q ?e = (m, e')" by (cases "f64_norm ?q ?e")
  show ?thesis
  proof (cases "m = 0")
    case True
    then show ?thesis using f by (simp add: f64_of_fraction_def f64_pack_def)
  next
    case False
    have "?q = 0 \<Longrightarrow> m = 0" using f by (simp add: f64_norm.simps [of 0])
    then have "?q \<noteq> 0" using False by blast
    then have b: "int (bits m) + e' = int (bits ?q) + ?e" using f64_norm_bits [OF f] by simp
    have "?q \<le> 2 ^ 53"
      using ulp_exponent_bound(1) [OF assms(1), of n] by (simp add: round_half_even_def scaled_quotient_def Let_def)
    then have "bits ?q \<le> 54" by (intro bits_bound) simp
    moreover have "?e \<le> 908" using assms(2) by (simp add: ulp_exponent_def Let_def)
    ultimately show ?thesis using f b by (simp add: f64_of_fraction_def f64_pack_def)
  qed
qed

lemma dec_value_all: "dec_value x ds = Some n \<Longrightarrow> \<forall>c \<in> set ds. digit_val c \<noteq> None"
  by (induction ds arbitrary: x) (auto split: option.splits)

lemma digit_no_letter: "digit_val c \<noteq> None \<Longrightarrow> c \<noteq> CHR ''_'' \<and> c \<noteq> CHR ''.'' \<and> lower c = c \<and> c \<noteq> CHR ''x'' \<and> c \<noteq> CHR ''i'' \<and> c \<noteq> CHR ''n''"
  by (auto simp: digit_val_def lower_def Let_def split: if_splits)

lemma read_digits_dec:
  "dec_value m ds = Some n \<Longrightarrow> read_digits False False m k saw ds = (n, k, saw \<or> ds \<noteq> [], [])"
proof (induction ds arbitrary: m saw)
  case (Cons c ds)
  then obtain d where d: "digit_val c = Some d" "dec_value (m * 10 + d) ds = Some n" by (auto split: option.splits)
  then show ?case using Cons.IH [OF d(2)] digit_no_letter [of c] by simp
qed simp

lemma readFloat_digits:
  assumes "strip_sign s = (neg, dec_digits n)" "CHR ''_'' \<notin> set s"
  shows "readFloat s = Some (neg, n, 0, False)"
proof -
  have "(2 < length (dec_digits n) \<and> dec_digits n ! 0 = CHR ''0'' \<and> lower (dec_digits n ! 1) = CHR ''x'') = False"
    using dec_value_all [OF dec_value_digits [of n]] digit_no_letter [of "dec_digits n ! 1"] by auto
  then show ?thesis
    using assms read_digits_dec [OF dec_value_digits [of n], of 0 False] dec_digits_nonempty [of n]
    by (simp only: readFloat_def Let_def prod.case if_False) simp
qed

lemma ParseFloat_itoa:
  assumes "i64_range i"
  shows "ParseFloat (itoa i) \<noteq> None"
proof -
  let ?n = "nat \<bar>i\<bar>"
  obtain c cs where cs: "dec_digits ?n = c # cs" "digit_val c \<noteq> None" "c \<notin> {CHR ''-'', CHR ''+'', CHR ''.''}"
    using dec_digits_head by blast
  have s: "strip_sign (itoa i) = (i < 0, dec_digits ?n)"
    using cs by (cases "i < 0") (simp_all add: itoa_def strip_sign_def)
  have us: "CHR ''_'' \<notin> set (dec_digits n)" for n
    using dec_value_all [OF dec_value_digits [of n]] digit_no_letter by blast
  then have "CHR ''_'' \<notin> set (itoa i)" by (simp add: itoa_def)
  with s have r: "readFloat (itoa i) = Some (i < 0, ?n, 0, False)" by (rule readFloat_digits)
  have "special (itoa i) = None"
    using digit_no_letter [OF cs(2)] s cs(1) by (auto simp: special_def itoa_def lower_def split: if_splits)
  moreover have "?n < 2 ^ 64" using assms by (auto simp: i64_range_def)
  then have "bits ?n \<le> 64" by (rule bits_bound)
  then have "f64_of_fraction (i < 0) ?n 1 \<notin> {PInf, NInf}" by (intro f64_of_fraction_finite) auto
  ultimately show ?thesis using r by (auto simp: ParseFloat_def Let_def)
qed

section \<open>Some floats\<close>

lemma special_examples: "special ''1.5'' = None" "special ''2'' = None" "special ''2.0'' = None"
  by (simp_all add: special_def strip_sign_def lower_def)

lemma readFloat_examples:
  "readFloat ''1.5'' = Some (False, 15, - 1, False)" "readFloat ''2'' = Some (False, 2, 0, False)"
  "readFloat ''2.0'' = Some (False, 20, - 1, False)"
  by (simp_all add: readFloat_def strip_sign_def digit_val_def lower_def)

lemma ulp_examples: "ulp_exponent 15 10 = - 52" "ulp_exponent 2 1 = - 51" "ulp_exponent 20 10 = - 51"
  by (simp_all add: ulp_exponent_def)

lemma ParseFloat_examples:
  "ParseFloat ''1.5'' = Some (Fin 3 (- 1))" "ParseFloat ''2'' = Some (Fin 1 1)" "ParseFloat ''2.0'' = Some (Fin 1 1)"
proof -
  have "f64_of_fraction False 15 10 = Fin 3 (- 1)" "f64_of_fraction False 2 1 = Fin 1 1"
    "f64_of_fraction False 20 10 = Fin 1 1"
    by (simp_all add: f64_of_fraction_def ulp_examples [unfolded One_nat_def] ulp_examples round_half_even_def f64_pack_def)
  then show "ParseFloat ''1.5'' = Some (Fin 3 (- 1))" "ParseFloat ''2'' = Some (Fin 1 1)"
    "ParseFloat ''2.0'' = Some (Fin 1 1)"
    by (simp_all add: ParseFloat_def special_examples readFloat_examples)
qed

end
