(* ===== verification/Engine.thy ===== *)
theory Engine
  imports Pool Router Config
begin

text \<open>
  internal/submission: the engine that takes pending transactions through a leased channel account
  and the router (engine.go), and the fee-bump retry of failed ones (retry.go). The engine works
  over the \<open>TxStore\<close> and \<open>Submitter\<close> interfaces and the account pool. Third-party functions are
  parameters: parsing an envelope, drawing and rendering a uuid, building a fee bump.
\<close>

section \<open>The engine\<close>

record Request =
  rq_EnvelopeXDR :: string

record 'w Engine =
  eg_store :: "'w TxStore"
  eg_router :: "'w Submitter"
  eg_pool :: "'w Pool"
  eg_cfg :: Config

definition NewEngine :: "'w TxStore \<Rightarrow> 'w Submitter \<Rightarrow> 'w Pool \<Rightarrow> Config \<Rightarrow> 'w Engine" where
  "NewEngine store router pool cfg =
     \<lparr>eg_store = store, eg_router = router, eg_pool = pool, eg_cfg = cfg\<rparr>"

text \<open>\<open>uuid_New\<close> draws a random uuid from the world. The literal leaves the other fields zero.\<close>

definition pending_tx :: "uuid \<Rightarrow> string \<Rightarrow> Transaction" where
  "pending_tx i envelopeXDR =
     \<lparr>tx_ID = i, tx_EnvelopeXDR = envelopeXDR, tx_Status = TxStatusPending, tx_ChannelAccount = [],
      tx_RetryCount = 0, tx_LastError = [], tx_CreatedAt = 0, tx_UpdatedAt = 0\<rparr>"

definition Enqueue ::
  "parse_envelope \<Rightarrow> ('w, uuid) op \<Rightarrow> 'w Engine \<Rightarrow> Request \<Rightarrow> ('w, uuid) op" where
  "Enqueue parse uuid_New e req =
     (if rq_EnvelopeXDR req = [] then ret (Error (ErrText [Lit ''envelope XDR is required'']))
      else case parse (rq_EnvelopeXDR req) of
        Inl err \<Rightarrow> ret (Error (Wrap [Lit ''envelope XDR is not valid: ''] err))
      | Inr _ \<Rightarrow>
          try_call uuid_New
            (\<lambda>i. try_call (ts_SaveTransaction (eg_store e) (pending_tx i (rq_EnvelopeXDR req)))
               (\<lambda>_. ret (Ok i))
               (\<lambda>err. ret (Error (Wrap [Lit ''enqueuing transaction: ''] err))))
            (\<lambda>err. ret Panic))"

section \<open>processBatch\<close>

definition failTransaction ::
  "(uuid \<Rightarrow> string) \<Rightarrow> 'w Engine \<Rightarrow> uuid \<Rightarrow> string \<Rightarrow> goerr \<Rightarrow> ('w, unit) op" where
  "failTransaction us e i channelAccount err =
     log_err (ts_UpdateTransactionStatus (eg_store e) i TxStatusFailed channelAccount (err_msg us err))
       (ret (Ok ()))"

text \<open>What happens once the router has answered and the account is released.\<close>

definition conclude ::
  "(uuid \<Rightarrow> string) \<Rightarrow> 'w Engine \<Rightarrow> uuid \<Rightarrow> string \<Rightarrow> TransactionResult option \<Rightarrow> ('w, unit) op" where
  "conclude us e i pk status =
     (if (case status of Some r \<Rightarrow> rc_Operation r | None \<Rightarrow> False)
      then failTransaction us e i pk (ErrText [Lit ''operation rejected by horizon''])
      else log_err (ts_UpdateTransactionStatus (eg_store e) i TxStatusConfirmed pk []) (ret (Ok ())))"

text \<open>
  The account is leased: store the incremented sequence number, submit, release, conclude. The sum
  wraps like Go's \<open>int64\<close> addition.
\<close>

definition submit_leased ::
  "(uuid \<Rightarrow> string) \<Rightarrow> ('w \<Rightarrow> time) \<Rightarrow> 'w Engine \<Rightarrow> Transaction \<Rightarrow> Account \<Rightarrow> ('w, unit) op" where
  "submit_leased us now e tx acct =
     log_err (ts_UpdateSequenceNumber (eg_store e) (acc_PublicKey acct) (acc_SequenceNumber acct + 1))
       (try_call (sm_SubmitTransaction (eg_router e) (tx_EnvelopeXDR tx))
          (\<lambda>status. log_err (Pool_Release now (eg_pool e) acct)
             (conclude us e (tx_ID tx) (acc_PublicKey acct) status))
          (\<lambda>submitErr. log_err (Pool_Release now (eg_pool e) acct)
             (failTransaction us e (tx_ID tx) (acc_PublicKey acct) submitErr)))"

definition process_one ::
  "(uuid \<Rightarrow> string) \<Rightarrow> ('w \<Rightarrow> time) \<Rightarrow> 'w Engine \<Rightarrow> Transaction \<Rightarrow> ('w, unit) op" where
  "process_one us now e tx =
     try_call (ts_UpdateTransactionStatus (eg_store e) (tx_ID tx) TxStatusSubmitting [] [])
       (\<lambda>_. try_call (Pool_Lease (eg_pool e))
          (submit_leased us now e tx)
          (\<lambda>err. failTransaction us e (tx_ID tx) [] (Wrap [Lit ''no channel account: ''] err)))
       (\<lambda>_. ret (Ok ()))"

definition processBatch ::
  "(uuid \<Rightarrow> string) \<Rightarrow> ('w \<Rightarrow> time) \<Rightarrow> 'w Engine \<Rightarrow> ('w, unit) op" where
  "processBatch us now e =
     try_call (ts_GetPendingTransactions (eg_store e) 1)
       (\<lambda>txs. case txs of [] \<Rightarrow> ret (Ok ()) | tx # _ \<Rightarrow> process_one us now e tx)
       (\<lambda>_. ret (Ok ()))"

section \<open>ProcessQueue\<close>

text \<open>
  The select loop over what the channels deliver: the ticker's ticks and the cancellation of the
  context. None: the loop is still waiting when the events run out. \<open>time.NewTicker\<close> panics on a
  period that is not positive.
\<close>

datatype loop_event = Tick | CtxDone goerr

primrec queue_loop ::
  "(uuid \<Rightarrow> string) \<Rightarrow> ('w \<Rightarrow> time) \<Rightarrow> 'w Engine \<Rightarrow> loop_event list \<Rightarrow> 'w \<Rightarrow> unit res option \<times> 'w" where
  "queue_loop us now e [] w = (None, w)"
| "queue_loop us now e (ev # evs) w =
     (case ev of
        CtxDone err \<Rightarrow> (Some (Error err), w)
      | Tick \<Rightarrow> (case processBatch us now e w of
            (Panic, w') \<Rightarrow> (Some Panic, w')
          | (_, w') \<Rightarrow> queue_loop us now e evs w'))"

definition ProcessQueue ::
  "(uuid \<Rightarrow> string) \<Rightarrow> ('w \<Rightarrow> time) \<Rightarrow> 'w Engine \<Rightarrow> loop_event list \<Rightarrow> 'w \<Rightarrow> unit res option \<times> 'w" where
  "ProcessQueue us now e evs w =
     (if sint (cfg_QueuePollInterval (eg_cfg e)) \<le> 0 then (Some Panic, w)
      else queue_loop us now e evs w)"

section \<open>Retry\<close>

text \<open>\<open>conv\<close> is the implementation's conversion of an out-of-range double to \<open>int64\<close>.\<close>

definition backoffDuration :: "(f64 \<Rightarrow> i64) \<Rightarrow> int \<Rightarrow> i64 \<Rightarrow> f64 \<Rightarrow> i64" where
  "backoffDuration conv attempt base multiplier =
     (if attempt \<le> 0 then base
      else let delay = f64_mul (f64_of_int (sint base)) (f64_pow multiplier (nat attempt))
           in f64_to_i64 conv delay)"

record 'fb FeeBumpSDK =
  fb_New :: "Envelope \<Rightarrow> i64 \<Rightarrow> string \<Rightarrow> goerr + 'fb"
  fb_MarshalXDR :: "'fb \<Rightarrow> goerr + string"

definition createFeeBump :: "parse_envelope \<Rightarrow> 'fb FeeBumpSDK \<Rightarrow> Transaction \<Rightarrow> goerr + string" where
  "createFeeBump parse fb tx =
     (case parse (tx_EnvelopeXDR tx) of
        Inl err \<Rightarrow> Inl (Wrap [Lit ''parsing original envelope: ''] err)
      | Inr origTx \<Rightarrow>
          (let feeSource = env_SourceAccount origTx in
           case fb_New fb origTx (env_Fee origTx * 10) feeSource of
             Inl err \<Rightarrow> Inl (Wrap [Lit ''building fee bump: ''] err)
           | Inr fbTx \<Rightarrow>
               (case fb_MarshalXDR fb fbTx of
                  Inl err \<Rightarrow> Inl (Wrap [Lit ''serializing fee bump: ''] err)
                | Inr fbXDR \<Rightarrow> Inr fbXDR)))"

text \<open>
  \<open>wait d\<close> is the select between \<open>ctx.Done()\<close>, which returns \<open>ctx.Err()\<close>, and \<open>time.After(d)\<close>.
\<close>

record ('w, 'fb) retry_env =
  re_parse :: parse_envelope
  re_feebump :: "'fb FeeBumpSDK"
  re_conv :: "f64 \<Rightarrow> i64"
  re_wait :: "i64 \<Rightarrow> ('w, unit) op"

text \<open>After the counter is raised: mark, submit, record.\<close>

definition retry_resubmit :: "'w Engine \<Rightarrow> uuid \<Rightarrow> string \<Rightarrow> ('w, unit) op" where
  "retry_resubmit e i fbEnvelope =
     try_call (ts_UpdateTransactionStatus (eg_store e) i TxStatusSubmitting [] [])
       (\<lambda>_. try_call (sm_SubmitTransaction (eg_router e) fbEnvelope)
          (\<lambda>result.
             if (case result of Some r \<Rightarrow> rc_Operation r | None \<Rightarrow> False)
             then log_err (ts_UpdateTransactionStatus (eg_store e) i TxStatusFailed []
                    ''fee bump operation rejected'')
                  (ret (Error (ErrText [Lit ''fee bump operation rejected''])))
             else log_err (ts_UpdateTransactionStatus (eg_store e) i TxStatusConfirmed [] [])
                  (ret (Ok ())))
          (\<lambda>err. ret (Error (Wrap [Lit ''submitting fee bump for '', Uid i, Lit '': ''] err))))
       (\<lambda>err. ret (Error (Wrap [Lit ''marking '', Uid i, Lit '' as submitting for retry: ''] err)))"

text \<open>The part after the backoff: bump, count, resubmit.\<close>

definition retry_submit :: "('w, 'fb) retry_env \<Rightarrow> 'w Engine \<Rightarrow> uuid \<Rightarrow> Transaction \<Rightarrow> ('w, unit) op" where
  "retry_submit v e i tx =
     (case createFeeBump (re_parse v) (re_feebump v) tx of
        Inl err \<Rightarrow> ret (Error (Wrap [Lit ''creating fee bump for '', Uid i, Lit '': ''] err))
      | Inr fbEnvelope \<Rightarrow>
          try_call (ts_IncrementRetry (eg_store e) i)
            (\<lambda>_. retry_resubmit e i fbEnvelope)
            (\<lambda>err. ret (Error (Wrap [Lit ''incrementing retry for '', Uid i, Lit '': ''] err))))"

text \<open>
  \<open>Retry\<close> in two parts, before and after its wait: it reads the transaction and checks it; it waits for
  the backoff, holding no lock, and goes on with the transaction it read.
\<close>

definition retry_read :: "'w Engine \<Rightarrow> uuid \<Rightarrow> ('w, Transaction) op" where
  "retry_read e i =
     try_call (ts_GetTransactionForRetry (eg_store e) i)
       (\<lambda>tx.
          if tx_Status tx \<noteq> TxStatusFailed
          then ret (Error (ErrText [Lit ''transaction '', Uid i,
                 Lit '' is not in failed state (status='', Lit (tx_Status tx), Lit '')'']))
          else if tx_RetryCount tx \<ge> cfg_MaxRetryAttempts (eg_cfg e)
          then ret (Error (ErrText [Lit ''max retry attempts ('',
                 Num (cfg_MaxRetryAttempts (eg_cfg e)), Lit '') reached for '', Uid i]))
          else ret (Ok tx))
       (\<lambda>err. ret (Error (Wrap [Lit ''fetching transaction '', Uid i, Lit '' for retry: ''] err)))"

definition retry_resume :: "('w, 'fb) retry_env \<Rightarrow> 'w Engine \<Rightarrow> uuid \<Rightarrow> Transaction \<Rightarrow> ('w, unit) op" where
  "retry_resume v e i tx =
     try_call (re_wait v (backoffDuration (re_conv v) (tx_RetryCount tx)
                 (cfg_RetryBaseDelay (eg_cfg e)) (cfg_RetryMultiplier (eg_cfg e))))
       (\<lambda>_. retry_submit v e i tx)
       (\<lambda>err. ret (Error err))"

definition Retry :: "('w, 'fb) retry_env \<Rightarrow> 'w Engine \<Rightarrow> uuid \<Rightarrow> ('w, unit) op" where
  "Retry v e i = try_call (retry_read e i) (retry_resume v e i) (\<lambda>err. ret (Error err))"

lemmas Retry_defs = Retry_def retry_read_def retry_resume_def

section \<open>Abstract specification of a batch\<close>

text \<open>What the router's answer makes of a transaction: its final status and error text.\<close>

definition outcome_of :: "(uuid \<Rightarrow> string) \<Rightarrow> TransactionResult option res \<Rightarrow> TxStatus \<times> string" where
  "outcome_of us rep =
     (case rep of
        Ok None \<Rightarrow> (TxStatusConfirmed, [])
      | Ok (Some r) \<Rightarrow> (if rc_Operation r then (TxStatusFailed, ''operation rejected by horizon'')
                       else (TxStatusConfirmed, []))
      | Error err \<Rightarrow> (TxStatusFailed, err_msg us err)
      | Panic \<Rightarrow> (TxStatusSubmitting, []))"

definition settle :: "TxStatus \<times> string \<Rightarrow> string \<Rightarrow> tx_view \<Rightarrow> tx_view" where
  "settle oc pk t = t\<lparr>av_status := fst oc, av_chan := Some pk, av_err := Some (snd oc)\<rparr>"

definition used_account :: "time \<Rightarrow> acct_view \<Rightarrow> acct_view" where
  "used_account t v = v\<lparr>aw_seq := aw_seq v + 1, aw_last := Some t\<rparr>"

text \<open>A panic of the router ends the batch: the transaction stays submitting, its account leased.\<close>

definition batch_result :: "'a res \<Rightarrow> unit res" where
  "batch_result rep = (case rep of Panic \<Rightarrow> Panic | _ \<Rightarrow> Ok ())"

definition tx_after ::
  "(uuid \<Rightarrow> string) \<Rightarrow> TransactionResult option res \<Rightarrow> string \<Rightarrow> tx_view \<Rightarrow> tx_view" where
  "tx_after us rep k t = settle (outcome_of us rep) (case rep of Panic \<Rightarrow> [] | _ \<Rightarrow> k) t"

definition account_after :: "time \<Rightarrow> 'a res \<Rightarrow> acct_view \<Rightarrow> acct_view" where
  "account_after t rep v =
     (case rep of
        Panic \<Rightarrow> v\<lparr>aw_status := AccountStatusLeased, aw_seq := aw_seq v + 1\<rparr>
      | _ \<Rightarrow> used_account t v)"

section \<open>Relations kept by the steps that only call the store\<close>

lemma keeps_Release:
  assumes "\<And>t. keeps R (ps_ReleaseChannelAccount (pl_store p) k t)" "acc_PublicKey a = k"
  shows "keeps R (Pool_Release now p a)"
  using assms by (auto simp: keeps_def Pool_Release_def)

locale engine_parts = kept_by_store S P R I
  for S :: "'w TxStore" and P :: "'w PoolStore" and R :: "'w \<Rightarrow> 'w \<Rightarrow> bool" and I :: "uuid set" +
  fixes E :: "'w Engine"
  assumes engine_store: "eg_store E = S" and engine_pool: "pl_store (eg_pool E) = P"
begin

lemma keeps_fail: "i \<in> I \<Longrightarrow> keeps R (failTransaction us E i pk err)"
  unfolding failTransaction_def engine_store
  by (intro keeps_log_err preorder kept_update keeps_ret) simp_all

lemma keeps_conclude: "i \<in> I \<Longrightarrow> keeps R (conclude us E i pk status)"
  unfolding conclude_def engine_store
  by (intro keeps_if keeps_fail keeps_log_err preorder kept_update keeps_ret) simp_all

lemma keeps_account_back: "keeps R (Pool_Release now (eg_pool E) a)"
  by (rule keeps_Release) (simp_all add: engine_pool kept_release)

lemma keeps_Lease: "keeps R (Pool_Lease (eg_pool E))"
  unfolding Pool_Lease_def engine_pool
  by (intro keeps_try_call preorder kept_lease keeps_ret)
     (auto intro: keeps_ret preorder split: option.split)

end

section \<open>The engine over any store and router that keep their contracts\<close>

text \<open>
  \<open>side\<close> is the part of the world no store call touches: the router's counters and the network. It
  ties the router's answer to the state the batch started from.
\<close>

locale engine_client = tx_store S quiet txs accts + pool_client P quiet txs accts p +
  side: engine_parts S P "\<lambda>w w'. side w' = side w" UNIV E
  for S :: "'w TxStore" and P :: "'w PoolStore" and quiet :: "'w \<Rightarrow> bool"
    and txs :: "'w \<Rightarrow> uuid \<Rightarrow> tx_view option"
    and accts :: "'w \<Rightarrow> string \<Rightarrow> acct_view option"
    and p :: "'w Pool" and side :: "'w \<Rightarrow> 's" and E :: "'w Engine" +
  assumes pool_of_engine: "eg_pool E = p"
    and submit_frame: "quiet w \<Longrightarrow> sm_SubmitTransaction (eg_router E) x w = (rep, w') \<Longrightarrow>
      quiet w' \<and> txs w' = txs w \<and> accts w' = accts w"
begin

lemmas store_of_engine = side.engine_store

lemmas side_update = keeps_result [OF side.kept_update [OF _ UNIV_I]]

lemmas side_seq = keeps_result [OF side.kept_seq]

lemmas side_lease = keeps_result [OF side.keeps_Lease]

lemmas side_release = keeps_result [OF side.keeps_account_back]

lemmas side_conclude = keeps_result [OF side.keeps_conclude [OF UNIV_I]]

lemmas side_fail = keeps_result [OF side.keeps_fail [OF UNIV_I]]

lemma fail_run:
  assumes "quiet w" "txs w i = Some t"
  shows "\<exists>w'. failTransaction us E i pk err w = (Ok (), w') \<and> quiet w' \<and> accts w' = accts w \<and>
    txs w' = (txs w)(i \<mapsto> settle (TxStatusFailed, err_msg us err) pk t)"
  using update_found [OF assms, of TxStatusFailed pk "err_msg us err"]
  by (auto simp: failTransaction_def log_err_def try_call_def store_of_engine settle_def)

lemma conclude_run:
  assumes "quiet w" "txs w i = Some t"
  shows "\<exists>w'. conclude us E i pk status w = (Ok (), w') \<and> quiet w' \<and> accts w' = accts w \<and>
    txs w' = (txs w)(i \<mapsto> settle (outcome_of us (Ok status)) pk t)"
proof (cases "case status of Some r \<Rightarrow> rc_Operation r | None \<Rightarrow> False")
  case True
  then have "outcome_of us (Ok status) = (TxStatusFailed,
      err_msg us (ErrText [Lit ''operation rejected by horizon'']))"
    by (auto simp: outcome_of_def msg_text_def split: option.splits)
  then show ?thesis
    using True fail_run [OF assms, of us pk "ErrText [Lit ''operation rejected by horizon'']"]
    by (simp add: conclude_def)
next
  case False
  then have "outcome_of us (Ok status) = (TxStatusConfirmed, [])"
    by (auto simp: outcome_of_def split: option.splits)
  then show ?thesis
    using False update_found [OF assms, of TxStatusConfirmed pk "[]"]
    by (auto simp: conclude_def log_err_def try_call_def store_of_engine settle_def)
qed

text \<open>From a leased account to the final state, whatever the router answers.\<close>

lemma submit_leased_run:
  assumes q: "quiet w" and t: "txs w (tx_ID tx) = Some (settle (TxStatusSubmitting, []) [] t)"
    and a: "accts w (acc_PublicKey a) = Some (v\<lparr>aw_status := AccountStatusLeased\<rparr>)"
      "acc_SequenceNumber a = aw_seq v" "aw_status v = AccountStatusIdle"
  shows "\<exists>w1 rep w2 w'. sm_SubmitTransaction (eg_router E) (tx_EnvelopeXDR tx) w1 = (rep, w2) \<and>
    submit_leased us now E tx a w = (batch_result rep, w') \<and> quiet w' \<and>
    side w1 = side w \<and> side w' = side w2 \<and>
    txs w' = (txs w)(tx_ID tx \<mapsto> tx_after us rep (acc_PublicKey a) t) \<and>
    accts w' = (accts w)(acc_PublicKey a \<mapsto> account_after (now w2) rep v)"
proof -
  let ?k = "acc_PublicKey a" and ?t = "settle (TxStatusSubmitting, []) [] t"
  let ?v = "v\<lparr>aw_status := AccountStatusLeased, aw_seq := aw_seq v + 1\<rparr>"
  obtain w1 where w1: "ts_UpdateSequenceNumber S ?k (acc_SequenceNumber a + 1) w = (Ok (), w1)"
      "quiet w1" "txs w1 = txs w" "accts w1 = (accts w)(?k \<mapsto> ?v)"
    using set_seq [OF q a(1), of "acc_SequenceNumber a + 1"] a(2) by auto
  obtain rep w2 where rep: "sm_SubmitTransaction (eg_router E) (tx_EnvelopeXDR tx) w1 = (rep, w2)"
    by (cases "sm_SubmitTransaction (eg_router E) (tx_EnvelopeXDR tx) w1")
  note f = submit_frame [OF w1(2) rep]
  have s1: "side w1 = side w" using side_seq [OF w1(1)] .
  have q2: "quiet w2" and k2: "accts w2 ?k = Some ?v" and t2: "txs w2 = txs w"
    using f w1(3,4) by simp_all
  note run = submit_leased_def log_err_def try_call_def store_of_engine pool_of_engine
  show ?thesis
  proof (cases "rep = Panic")
    case True
    have "submit_leased us now E tx a w = (Panic, w2)"
      using w1(1) rep True by (simp add: run)
    moreover have "txs w2 = (txs w)(tx_ID tx \<mapsto> tx_after us rep ?k t)"
      using t2 t True by (auto simp: tx_after_def outcome_of_def)
    moreover have "accts w2 = (accts w)(?k \<mapsto> account_after (now w2) rep v)"
      using f w1(4) True by (simp add: account_after_def)
    ultimately show ?thesis using rep q2 s1 True
      by (intro exI [of _ w1] exI [of _ rep] exI [of _ w2] exI [of _ w2]) (simp add: batch_result_def)
  next
    case np: False
    have used: "?v\<lparr>aw_status := AccountStatusIdle, aw_last := Some (now w2)\<rparr> = account_after (now w2) rep v"
      using a(3) np by (cases v) (simp add: used_account_def account_after_def split: res.split)
    from Release_ok [OF q2 k2, of now] obtain w3 where
      w3: "Pool_Release now p a w2 = (Ok (), w3)" "quiet w3" "txs w3 = txs w2"
        "accts w3 = (accts w2)(?k \<mapsto> ?v\<lparr>aw_status := AccountStatusIdle, aw_last := Some (now w2)\<rparr>)"
      by auto
    have A: "accts w3 = (accts w)(?k \<mapsto> account_after (now w2) rep v)"
      using w3(4) f w1(4) used by simp
    have T: "txs w3 (tx_ID tx) = Some ?t" using w3(3) t2 t by simp
    have s: "submit_leased us now E tx a w =
        (case rep of Ok s \<Rightarrow> conclude us E (tx_ID tx) ?k s w3
         | Error err \<Rightarrow> failTransaction us E (tx_ID tx) ?k err w3)"
      using w1(1) rep w3(1) np by (cases rep) (simp_all add: run)
    have s3: "side w3 = side w2" using side_release w3(1) pool_of_engine by metis
    have "\<exists>w'. submit_leased us now E tx a w = (Ok (), w') \<and> quiet w' \<and> accts w' = accts w3 \<and>
        side w' = side w3 \<and> txs w' = (txs w3)(tx_ID tx \<mapsto> settle (outcome_of us rep) ?k ?t)"
    proof (cases rep)
      case (Ok st)
      then show ?thesis using s conclude_run [OF w3(2) T, of us ?k st] side_conclude by fastforce
    next
      case (Error err)
      then show ?thesis using s fail_run [OF w3(2) T, of us ?k err] side_fail
        by (fastforce simp: outcome_of_def)
    qed (use np in simp)
    then obtain w' where w': "submit_leased us now E tx a w = (Ok (), w')" "quiet w'"
      "accts w' = accts w3" "side w' = side w3" "txs w' = (txs w3)(tx_ID tx \<mapsto> settle (outcome_of us rep) ?k ?t)"
      by blast
    have "batch_result rep = Ok ()" "tx_after us rep ?k t = settle (outcome_of us rep) ?k ?t"
      using np by (cases rep; simp add: batch_result_def tx_after_def settle_def)+
    with w' A w3(3) t2 rep s1 s3 show ?thesis
      by (intro exI [of _ w1] exI [of _ rep] exI [of _ w2] exI [of _ w']) simp
  qed
qed

lemma process_one_leased:
  assumes q: "quiet w" and t: "txs w (tx_ID tx) = Some t"
    and idle: "accts w k0 = Some v0" "aw_status v0 = AccountStatusIdle"
  shows "\<exists>k v w1 rep w2 w'. accts w k = Some v \<and> aw_status v = AccountStatusIdle \<and>
    sm_SubmitTransaction (eg_router E) (tx_EnvelopeXDR tx) w1 = (rep, w2) \<and>
    process_one us now E tx w = (batch_result rep, w') \<and> quiet w' \<and>
    side w1 = side w \<and> side w' = side w2 \<and>
    txs w' = (txs w)(tx_ID tx \<mapsto> tx_after us rep k t) \<and>
    accts w' = (accts w)(k \<mapsto> account_after (now w2) rep v)"
proof -
  obtain w1 where w1: "ts_UpdateTransactionStatus S (tx_ID tx) TxStatusSubmitting [] [] w = (Ok (), w1)"
      "quiet w1" "accts w1 = accts w"
      "txs w1 = (txs w)(tx_ID tx \<mapsto> settle (TxStatusSubmitting, []) [] t)"
    using update_found [OF q t, of TxStatusSubmitting "[]" "[]"] by (auto simp: settle_def)
  have "fst (Pool_Lease p w1) \<noteq> Panic" by (rule Lease_no_panic [OF w1(2)])
  moreover have "fst (Pool_Lease p w1) \<noteq> Error e" for e
    using Lease_err [OF w1(2)] idle w1(3) by (metis prod.collapse)
  ultimately obtain a w2 where l: "Pool_Lease p w1 = (Ok a, w2)"
    by (metis prod.collapse res.exhaust)
  obtain v where v: "accts w1 (acc_PublicKey a) = Some v" "aw_status v = AccountStatusIdle"
      "acc_SequenceNumber a = aw_seq v" "quiet w2" "txs w2 = txs w1"
      "accts w2 = (accts w1)(acc_PublicKey a \<mapsto> v\<lparr>aw_status := AccountStatusLeased\<rparr>)"
    using Lease_ok [OF w1(2) l] by blast
  have t2: "txs w2 (tx_ID tx) = Some (settle (TxStatusSubmitting, []) [] t)"
    using v(5) w1(4) by simp
  have a2: "accts w2 (acc_PublicKey a) = Some (v\<lparr>aw_status := AccountStatusLeased\<rparr>)"
    using v(6) by simp
  obtain w3 rep w4 w' where s:
    "sm_SubmitTransaction (eg_router E) (tx_EnvelopeXDR tx) w3 = (rep, w4)"
    "submit_leased us now E tx a w2 = (batch_result rep, w')" "quiet w'"
    "side w3 = side w2" "side w' = side w4"
    "txs w' = (txs w2)(tx_ID tx \<mapsto> tx_after us rep (acc_PublicKey a) t)"
    "accts w' = (accts w2)(acc_PublicKey a \<mapsto> account_after (now w4) rep v)"
    using submit_leased_run [OF v(4) t2 a2 v(3,2), of us now] by blast
  have "process_one us now E tx w = (batch_result rep, w')"
    using w1(1) l s(2) by (simp add: process_one_def try_call_def store_of_engine pool_of_engine)
  moreover have "txs w' = (txs w)(tx_ID tx \<mapsto> tx_after us rep (acc_PublicKey a) t)"
    using s(6) v(5) w1(4) by simp
  moreover have "accts w' = (accts w)(acc_PublicKey a \<mapsto> account_after (now w4) rep v)"
    using s(7) v(6) w1(3) by simp
  moreover have "accts w (acc_PublicKey a) = Some v" using v(1) w1(3) by simp
  moreover have "side w3 = side w"
    using s(4) side_lease [of w1 "Ok a" w2] side_update [OF _ w1(1)] l pool_of_engine by simp
  ultimately show ?thesis using s(1,3,5) v(2) by blast
qed

lemma process_one_no_account:
  assumes q: "quiet w" and t: "txs w (tx_ID tx) = Some t"
    and none: "\<And>k v. accts w k = Some v \<Longrightarrow> aw_status v \<noteq> AccountStatusIdle"
  shows "\<exists>err w'. process_one us now E tx w = (Ok (), w') \<and> quiet w' \<and> accts w' = accts w \<and>
    side w' = side w \<and>
    txs w' = (txs w)(tx_ID tx \<mapsto> settle (TxStatusFailed, ''no channel account: '' @ err_msg us err) [] t)"
proof -
  obtain w1 where w1: "ts_UpdateTransactionStatus S (tx_ID tx) TxStatusSubmitting [] [] w = (Ok (), w1)"
      "quiet w1" "accts w1 = accts w"
      "txs w1 = (txs w)(tx_ID tx \<mapsto> settle (TxStatusSubmitting, []) [] t)"
    using update_found [OF q t, of TxStatusSubmitting "[]" "[]"] by (auto simp: settle_def)
  have "fst (Pool_Lease p w1) \<noteq> Panic" by (rule Lease_no_panic [OF w1(2)])
  moreover have "fst (Pool_Lease p w1) \<noteq> Ok a" for a
    using Lease_ok [OF w1(2)] none w1(3) by (metis prod.collapse)
  ultimately obtain err w2 where l: "Pool_Lease p w1 = (Error err, w2)"
    by (metis prod.collapse res.exhaust)
  note f = Lease_err [OF w1(2) l]
  have t2: "txs w2 (tx_ID tx) = Some (settle (TxStatusSubmitting, []) [] t)"
    using f w1(4) by simp
  have q2: "quiet w2" using f by blast
  obtain w' where "failTransaction us E (tx_ID tx) [] (Wrap [Lit ''no channel account: ''] err) w2
        = (Ok (), w')" "quiet w'" "accts w' = accts w2"
      "txs w' = (txs w2)(tx_ID tx \<mapsto> settle (TxStatusFailed,
          err_msg us (Wrap [Lit ''no channel account: ''] err)) [] (settle (TxStatusSubmitting, []) [] t))"
    using fail_run [OF q2 t2] by blast
  then show ?thesis
    using w1 l f side_update [OF _ w1(1)] side_lease [of w1 "Error err" w2] side_fail
    by (intro exI [of _ err] exI [of _ w'])
       (simp add: process_one_def try_call_def store_of_engine pool_of_engine settle_def msg_text_def)
qed

text \<open>A batch on a queue whose head scans: the refinement of the batch by its specification.\<close>

lemma batch_run:
  assumes q: "quiet w"
    and g: "ts_GetPendingTransactions S 1 w = (Ok (tx # rest), w0)"
    and idle: "accts w k0 = Some v0" "aw_status v0 = AccountStatusIdle"
  shows "\<exists>t k v w1 rep w2 w'. txs w (tx_ID tx) = Some t \<and> av_status t = TxStatusPending \<and>
    accts w k = Some v \<and> aw_status v = AccountStatusIdle \<and>
    sm_SubmitTransaction (eg_router E) (av_env t) w1 = (rep, w2) \<and>
    processBatch us now E w = (batch_result rep, w') \<and> quiet w' \<and>
    side w1 = side w \<and> side w' = side w2 \<and>
    txs w' = (txs w)(tx_ID tx \<mapsto> tx_after us rep k t) \<and>
    accts w' = (accts w)(k \<mapsto> account_after (now w2) rep v)"
proof -
  have f: "quiet w0" "txs w0 = txs w" "accts w0 = accts w" "side w0 = side w"
    using pending_frame [OF q g] keeps_result [OF side.kept_pending g] by auto
  obtain t where t: "txs w (tx_ID tx) = Some t" "av_status t = TxStatusPending"
      "av_env t = tx_EnvelopeXDR tx"
    using pending_sound [OF q g, of tx] by auto
  have b: "processBatch us now E w = process_one us now E tx w0"
    using g by (simp add: processBatch_def try_call_def store_of_engine)
  show ?thesis
    using process_one_leased [OF f(1) _ _ idle(2), of tx t k0 us now] t idle f b by metis
qed

lemma batch_no_account:
  assumes q: "quiet w"
    and g: "ts_GetPendingTransactions S 1 w = (Ok (tx # rest), w0)"
    and none: "\<And>k v. accts w k = Some v \<Longrightarrow> aw_status v \<noteq> AccountStatusIdle"
  shows "\<exists>t err w'. txs w (tx_ID tx) = Some t \<and> processBatch us now E w = (Ok (), w') \<and>
    quiet w' \<and> accts w' = accts w \<and> side w' = side w \<and>
    txs w' = (txs w)(tx_ID tx \<mapsto> settle (TxStatusFailed, ''no channel account: '' @ err_msg us err) [] t)"
proof -
  have f: "quiet w0" "txs w0 = txs w" "accts w0 = accts w" "side w0 = side w"
    using pending_frame [OF q g] keeps_result [OF side.kept_pending g] by auto
  obtain t where t: "txs w (tx_ID tx) = Some t" using pending_sound [OF q g, of tx] by auto
  have b: "processBatch us now E w = process_one us now E tx w0"
    using g by (simp add: processBatch_def try_call_def store_of_engine)
  show ?thesis
    using process_one_no_account [OF f(1), of tx t us now] none t f b by auto
qed

lemma batch_unreadable:
  assumes "quiet w" "ts_GetPendingTransactions S 1 w = (r, w0)" "\<And>tx rest. r \<noteq> Ok (tx # rest)" "r \<noteq> Panic"
  shows "processBatch us now E w = (Ok (), w0) \<and> txs w0 = txs w \<and> accts w0 = accts w"
  using assms pending_frame [OF assms(1,2)]
  by (cases r) (auto simp: processBatch_def try_call_def store_of_engine split: list.splits)

end

section \<open>Retry over any store and router that keep their contracts\<close>

text \<open>What the router's answer makes of a retried transaction, and of the call.\<close>

definition retry_outcome :: "TransactionResult option res \<Rightarrow> TxStatus \<times> string" where
  "retry_outcome rep =
     (case rep of
        Ok None \<Rightarrow> (TxStatusConfirmed, [])
      | Ok (Some r) \<Rightarrow> (if rc_Operation r then (TxStatusFailed, ''fee bump operation rejected'')
                       else (TxStatusConfirmed, []))
      | _ \<Rightarrow> (TxStatusSubmitting, []))"

definition retry_result :: "uuid \<Rightarrow> TransactionResult option res \<Rightarrow> unit res" where
  "retry_result i rep =
     (case rep of
        Ok None \<Rightarrow> Ok ()
      | Ok (Some r) \<Rightarrow> (if rc_Operation r then Error (ErrText [Lit ''fee bump operation rejected''])
                       else Ok ())
      | Error err \<Rightarrow> Error (Wrap [Lit ''submitting fee bump for '', Uid i, Lit '': ''] err)
      | Panic \<Rightarrow> Panic)"

definition fee_bumped :: "('w, 'fb) retry_env \<Rightarrow> string \<Rightarrow> goerr + string" where
  "fee_bumped v envelopeXDR = createFeeBump (re_parse v) (re_feebump v) (pending_tx 0 envelopeXDR)"

lemma createFeeBump_envelope:
  "createFeeBump (re_parse v) (re_feebump v) tx = fee_bumped v (tx_EnvelopeXDR tx)"
  by (simp add: fee_bumped_def createFeeBump_def pending_tx_def)

definition may_retry :: "Config \<Rightarrow> tx_view \<Rightarrow> bool" where
  "may_retry cfg t \<longleftrightarrow> av_status t = TxStatusFailed \<and> av_retry t < cfg_MaxRetryAttempts cfg"

locale retry_client = engine_client S P quiet txs accts p side E +
  side: kept_by_store_and_retry S P "\<lambda>w w'. side w' = side w" UNIV
  for S :: "'w TxStore" and P :: "'w PoolStore" and quiet :: "'w \<Rightarrow> bool"
    and txs :: "'w \<Rightarrow> uuid \<Rightarrow> tx_view option"
    and accts :: "'w \<Rightarrow> string \<Rightarrow> acct_view option"
    and p :: "'w Pool" and side :: "'w \<Rightarrow> 's" and E :: "'w Engine" +
  fixes v :: "('w, 'fb) retry_env"
  assumes wait_frame: "quiet w \<Longrightarrow> re_wait v d w = (r, w') \<Longrightarrow>
      quiet w' \<and> txs w' = txs w \<and> accts w' = accts w"
    and wait_side: "side u = side w \<Longrightarrow> re_wait v d w = (r, w') \<Longrightarrow>
      \<exists>u'. re_wait v d u = (r, u') \<and> side u' = side w'"
begin

lemma Retry_refused:
  assumes q: "quiet w" and no: "\<And>t. txs w i = Some t \<Longrightarrow> \<not> may_retry (eg_cfg E) t"
    and r: "Retry v E i w = (r, w')"
  shows "r \<noteq> Ok () \<and> quiet w' \<and> txs w' = txs w \<and> accts w' = accts w"
proof -
  obtain g w1 where g: "ts_GetTransactionForRetry S i w = (g, w1)"
    by (cases "ts_GetTransactionForRetry S i w")
  note f = for_retry_frame [OF q g]
  show ?thesis
  proof (cases g)
    case (Ok tx)
    then obtain t where "txs w i = Some t" "tx_Status tx = av_status t" "tx_RetryCount tx = av_retry t"
      using for_retry_sound [OF q] g by blast
    with no have "tx_Status tx \<noteq> TxStatusFailed \<or> cfg_MaxRetryAttempts (eg_cfg E) \<le> tx_RetryCount tx"
      by (auto simp: may_retry_def)
    then show ?thesis
      using r g f Ok
      by (auto simp: Retry_defs try_call_def store_of_engine split: if_splits)
  next
    case (Error e)
    then show ?thesis using r g f by (auto simp: Retry_defs try_call_def store_of_engine)
  next
    case Panic
    then show ?thesis using r g f by (auto simp: Retry_defs try_call_def store_of_engine)
  qed
qed

lemma retry_submit_run:
  assumes q: "quiet w" and t: "txs w i = Some t" and b: "0 \<le> av_retry t" "av_retry t < int4_max"
    and fb: "fee_bumped v (tx_EnvelopeXDR tx) = Inr x"
  shows "\<exists>w1 rep w2 w'. sm_SubmitTransaction (eg_router E) x w1 = (rep, w2) \<and>
    retry_submit v E i tx w = (retry_result i rep, w') \<and> side w1 = side w \<and> side w' = side w2 \<and>
    quiet w' \<and> accts w' = accts w \<and>
    txs w' = (txs w)(i \<mapsto> settle (retry_outcome rep) [] (t\<lparr>av_retry := av_retry t + 1\<rparr>))"
proof -
  obtain w1 where w1: "ts_IncrementRetry S i w = (Ok (), w1)" "quiet w1" "accts w1 = accts w"
      "txs w1 = (txs w)(i \<mapsto> t\<lparr>av_retry := av_retry t + 1\<rparr>)"
    using increment [OF q t b] by blast
  then have t1: "txs w1 i = Some (t\<lparr>av_retry := av_retry t + 1\<rparr>)" by simp
  obtain w2 where w2: "ts_UpdateTransactionStatus S i TxStatusSubmitting [] [] w1 = (Ok (), w2)"
      "quiet w2" "accts w2 = accts w1"
      "txs w2 = (txs w1)(i \<mapsto> settle (TxStatusSubmitting, []) [] (t\<lparr>av_retry := av_retry t + 1\<rparr>))"
    using update_found [OF w1(2) t1, of TxStatusSubmitting "[]" "[]"] by (auto simp: settle_def)
  obtain rep w3 where rep: "sm_SubmitTransaction (eg_router E) x w2 = (rep, w3)"
    by (cases "sm_SubmitTransaction (eg_router E) x w2")
  note f = submit_frame [OF w2(2) rep]
  have q3: "quiet w3" using f by blast
  have t3: "txs w3 i = Some (settle (TxStatusSubmitting, []) [] (t\<lparr>av_retry := av_retry t + 1\<rparr>))"
    using f w2(4) by simp
  note u = update_found [OF q3 t3, of _ "[]"]
  obtain wf where wf: "ts_UpdateTransactionStatus S i TxStatusFailed [] ''fee bump operation rejected'' w3
        = (Ok (), wf)" "quiet wf" "accts wf = accts w3"
      "txs wf = (txs w3)(i \<mapsto> settle (TxStatusFailed, ''fee bump operation rejected'') []
         (t\<lparr>av_retry := av_retry t + 1\<rparr>))"
    using u [of TxStatusFailed "''fee bump operation rejected''"] by (auto simp: settle_def)
  obtain wc where wc: "ts_UpdateTransactionStatus S i TxStatusConfirmed [] [] w3 = (Ok (), wc)"
      "quiet wc" "accts wc = accts w3"
      "txs wc = (txs w3)(i \<mapsto> settle (TxStatusConfirmed, []) [] (t\<lparr>av_retry := av_retry t + 1\<rparr>))"
    using u [of TxStatusConfirmed "[]"] by (auto simp: settle_def)
  have s2: "side w2 = side w"
    using keeps_result [OF side.kept_increment [OF UNIV_I] w1(1)] side_update [OF _ w2(1)] by simp
  have sf: "side wf = side w3" "side wc = side w3"
    using side_update [OF _ wf(1)] side_update [OF _ wc(1)] by simp_all
  note run = retry_submit_def retry_resubmit_def try_call_def log_err_def store_of_engine createFeeBump_envelope
  show ?thesis
  proof (cases rep)
    case (Ok s)
    show ?thesis
    proof (cases "case s of Some r \<Rightarrow> rc_Operation r | None \<Rightarrow> False")
      case True
      then show ?thesis
        using w1 w2 rep wf f fb Ok s2 sf
        by (intro exI [of _ w2] exI [of _ rep] exI [of _ w3] exI [of _ wf])
           (auto simp: run retry_outcome_def retry_result_def split: option.splits)
    next
      case False
      then show ?thesis
        using w1 w2 rep wc f fb Ok s2 sf
        by (intro exI [of _ w2] exI [of _ rep] exI [of _ w3] exI [of _ wc])
           (auto simp: run retry_outcome_def retry_result_def split: option.splits)
    qed
  next
    case (Error err)
    then show ?thesis
      using w1 w2 rep f fb s2
      by (intro exI [of _ w2] exI [of _ rep] exI [of _ w3] exI [of _ w3])
         (auto simp: run retry_outcome_def retry_result_def)
  next
    case Panic
    then show ?thesis
      using w1 w2 rep f fb s2
      by (intro exI [of _ w2] exI [of _ rep] exI [of _ w3] exI [of _ w3])
         (auto simp: run retry_outcome_def retry_result_def)
  qed
qed

lemma Retry_run:
  assumes q: "quiet w" and t: "txs w i = Some t" "may_retry (eg_cfg E) t" "0 \<le> av_retry t"
      "av_retry t < int4_max" "av_chan t = Some ch" "av_err t = Some er"
    and fb: "fee_bumped v (av_env t) = Inr x"
    and wt: "re_wait v (backoffDuration (re_conv v) (av_retry t) (cfg_RetryBaseDelay (eg_cfg E))
        (cfg_RetryMultiplier (eg_cfg E))) w = (Ok (), wa)"
  shows "\<exists>w1 rep w2 w'. sm_SubmitTransaction (eg_router E) x w1 = (rep, w2) \<and>
    Retry v E i w = (retry_result i rep, w') \<and> side w1 = side wa \<and> side w' = side w2 \<and>
    quiet w' \<and> accts w' = accts w \<and>
    txs w' = (txs w)(i \<mapsto> settle (retry_outcome rep) [] (t\<lparr>av_retry := av_retry t + 1\<rparr>))"
proof -
  obtain tx w1 where g: "ts_GetTransactionForRetry S i w = (Ok tx, w1)"
    using for_retry_scannable [OF q t(1,5,6)] by blast
  have s: "tx_Status tx = av_status t" "tx_EnvelopeXDR tx = av_env t" "tx_RetryCount tx = av_retry t"
    using for_retry_sound [OF q g] t(1) by auto
  note f1 = for_retry_frame [OF q g]
  let ?d = "backoffDuration (re_conv v) (tx_RetryCount tx)
                           (cfg_RetryBaseDelay (eg_cfg E)) (cfg_RetryMultiplier (eg_cfg E))"
  obtain w2 where w: "re_wait v ?d w1 = (Ok (), w2)" "side w2 = side wa"
    using wait_side [OF _ wt, of w1] keeps_result [OF side.kept_for_retry g] s(3) by auto
  have f2: "quiet w2" "txs w2 = txs w" "accts w2 = accts w" using wait_frame [OF _ w(1)] f1 by auto
  have r: "Retry v E i w = retry_submit v E i tx w2"
    using g w s t(2) by (simp add: Retry_defs try_call_def store_of_engine may_retry_def)
  have t2: "txs w2 i = Some t" using f2 t(1) by simp
  have fb': "fee_bumped v (tx_EnvelopeXDR tx) = Inr x" using fb s(2) by simp
  obtain w3 rep w4 w' where sub: "sm_SubmitTransaction (eg_router E) x w3 = (rep, w4)"
    "retry_submit v E i tx w2 = (retry_result i rep, w')"
    "side w3 = side w2" "side w' = side w4" "quiet w'" "accts w' = accts w2"
    "txs w' = (txs w2)(i \<mapsto> settle (retry_outcome rep) [] (t\<lparr>av_retry := av_retry t + 1\<rparr>))"
    using retry_submit_run [OF f2(1) t2 t(3,4) fb'] by blast
  show ?thesis
    using sub f2(2,3) w(2)
    by (intro exI [of _ w3] exI [of _ rep] exI [of _ w4] exI [of _ w'] conjI)
       (assumption | simp add: r)+
qed

end

section \<open>Relations kept by the engine under every fault\<close>

locale engine_keeps = engine_parts S P R I E
  for S :: "'w TxStore" and P :: "'w PoolStore" and R :: "'w \<Rightarrow> 'w \<Rightarrow> bool" and I :: "uuid set"
    and E :: "'w Engine" +
  assumes kept_submit: "keeps R (sm_SubmitTransaction (eg_router E) x)"
begin

lemma keeps_submit_leased: "tx_ID tx \<in> I \<Longrightarrow> keeps R (submit_leased us now E tx a)"
  unfolding submit_leased_def engine_store
  by (intro keeps_log_err keeps_try_call preorder kept_seq kept_submit keeps_account_back
      keeps_conclude keeps_fail)

lemma keeps_process_one: "tx_ID tx \<in> I \<Longrightarrow> keeps R (process_one us now E tx)"
  unfolding process_one_def
  by (intro keeps_try_call preorder keeps_Lease keeps_submit_leased keeps_fail keeps_ret)
     (simp_all add: engine_store kept_update)

lemma keeps_processBatch: "I = UNIV \<Longrightarrow> keeps R (processBatch us now E)"
  unfolding processBatch_def
  by (intro keeps_try_call preorder keeps_ret)
     (auto simp: engine_store intro: kept_pending keeps_process_one keeps_ret preorder
       split: list.split)

lemma keeps_queue_loop: "I = UNIV \<Longrightarrow> R w (snd (queue_loop us now E evs w))"
proof (induction evs arbitrary: w)
  case Nil
  then show ?case using preorder by (simp add: preorder_on_worlds_def reflpD)
next
  case (Cons ev evs)
  have "R w (snd (processBatch us now E w))" by (rule keepsD [OF keeps_processBatch [OF Cons.prems]])
  moreover have "R w w" using preorder by (simp add: preorder_on_worlds_def reflpD)
  moreover have "transp R" using preorder by (simp add: preorder_on_worlds_def)
  ultimately show ?case
    using Cons
    by (auto split: loop_event.split prod.splits res.splits intro: transpD)
qed

lemma keeps_ProcessQueue: "I = UNIV \<Longrightarrow> R w (snd (ProcessQueue us now E evs w))"
  using keeps_queue_loop preorder by (simp add: ProcessQueue_def preorder_on_worlds_def reflpD)

lemma keeps_resubmit: "i \<in> I \<Longrightarrow> keeps R (retry_resubmit E i x)"
  unfolding retry_resubmit_def engine_store
  by (intro keeps_try_call keeps_log_err keeps_ret preorder kept_update kept_submit keeps_if) simp_all

end

locale engine_keeps_retry = engine_keeps S P R I E + kept_by_store_and_retry S P R I
  for S :: "'w TxStore" and P :: "'w PoolStore" and R :: "'w \<Rightarrow> 'w \<Rightarrow> bool" and I :: "uuid set"
    and E :: "'w Engine"
begin

lemma keeps_retry_submit: "i \<in> I \<Longrightarrow> keeps R (retry_submit v E i tx)"
  unfolding retry_submit_def engine_store
  by (auto split: sum.split intro!: keeps_try_call keeps_ret preorder kept_increment keeps_resubmit)

lemma keeps_read: "i \<in> I \<Longrightarrow> keeps R (retry_read E i)"
  unfolding retry_read_def engine_store
  by (intro keeps_try_call preorder kept_for_retry keeps_if keeps_ret)

lemma keeps_resume: "i \<in> I \<Longrightarrow> (\<And>d. keeps R (re_wait v d)) \<Longrightarrow> keeps R (retry_resume v E i tx)"
  unfolding retry_resume_def by (intro keeps_try_call preorder keeps_ret keeps_retry_submit)

lemma keeps_Retry: "i \<in> I \<Longrightarrow> (\<And>d. keeps R (re_wait v d)) \<Longrightarrow> keeps R (Retry v E i)"
  unfolding Retry_def by (intro keeps_try_call preorder keeps_ret keeps_read keeps_resume)

end

section \<open>Panics\<close>

text \<open>The batch itself never panics: a panic comes from the router or from a nil account record.\<close>

lemma panic_free_Release:
  "(\<And>k t. panic_free (ps_ReleaseChannelAccount (pl_store p) k t)) \<Longrightarrow> panic_free (Pool_Release now p a)"
proof (rule panic_freeI)
  fix w
  assume "\<And>k t. panic_free (ps_ReleaseChannelAccount (pl_store p) k t)"
  then have "panic_free (wrap_err [Lit ''releasing channel account '', Lit (acc_PublicKey a), Lit '': '']
      (ps_ReleaseChannelAccount (pl_store p) (acc_PublicKey a) (now w)))"
    by (rule panic_free_wrap_err)
  then show "fst (Pool_Release now p a w) \<noteq> Panic"
    by (simp add: Pool_Release_def panic_freeD)
qed

section \<open>Properties of the engine's own functions\<close>

text \<open>
  With a multiplier of 2.0 the backoff of attempt n is exactly the base delay times two to the n: no
  rounding, no loss in the conversions, as long as the base has at most 53 bits and the product fits
  an \<open>int64\<close>.
\<close>

lemma backoff_doubles:
  assumes "1 \<le> n" "0 < sint base" "sint base < 2 ^ 53" "sint base * 2 ^ n < 2 ^ 63"
  shows "backoffDuration conv (int n) base (Fin 1 1) = word_of_int (sint base * 2 ^ n)"
proof -
  have "(2::int) ^ n \<le> sint base * 2 ^ n" using assms(2) by simp
  then have "(2::int) ^ n < 2 ^ 63" using assms(4) by linarith
  then have n: "n < 63" by (rule power_less_imp_less_exp [rotated]) simp
  have p: "f64_pow (Fin 1 1) n = Fin 1 (int n)" using f64_pow_pow2 [of 1 n] n by simp
  have b: "f64_of_int (sint base) = Fin (sint base) 0" using assms by (intro f64_of_int_exact) auto
  have m: "f64_mul (Fin (sint base) 0) (Fin 1 (int n)) = Fin (sint base) (int n)"
    using assms n by (simp add: f64_mul_def f64_round_exact)
  have "0 \<le> sint base * 2 ^ n" using assms(2) by simp
  then have "- 9223372036854775808 \<le> sint base * 2 ^ n" by linarith
  then show ?thesis
    using assms p b m by (simp add: backoffDuration_def Let_def f64_to_i64_def f64_trunc_def)
qed

text \<open>
  C32. What an operator gets who sets the base delay to a whole number of a unit and leaves the
  multiplier at 2, or writes it: before attempt n the retry waits that delay times two to the n,
  exactly, as long as the delay in nanoseconds has at most 53 bits and the product fits an \<open>int64\<close>.
\<close>

theorem configured_backoff:
  assumes "Load gs env = Inr c"
    and "env ''RETRY_BASE_DELAY'' = dec_digits b @ u" "(u, k) \<in> set unitMap"
    and "env ''RETRY_MULTIPLIER'' \<in> {[], ''2'', ''2.0''}"
    and "1 \<le> n" "0 < b" "b * k < 2 ^ 53" "b * k * 2 ^ n < 2 ^ 63"
  shows "backoffDuration conv (int n) (cfg_RetryBaseDelay c) (cfg_RetryMultiplier c) = of_nat (b * k * 2 ^ n)"
proof -
  have c: "c = read_config gs env" using Load_config [OF assms(1)] .
  have "b * k < 2 ^ 63" using assms(7) by simp
  then have "cfg_RetryBaseDelay c = of_nat (b * k)"
    using duration_units [OF assms(3)] dec_digits_nonempty
    by (simp add: c read_config_def getEnvDuration_def assms(2) Let_def)
  moreover have "cfg_RetryMultiplier c = Fin 1 1"
    using assms(4) ParseFloat_examples by (auto simp: c read_config_def getEnvFloat_def)
  moreover have k: "0 < b * k" using assms(3,6) by (auto simp: unitMap_def)
  have "sint (of_nat m :: i64) = int m" if "m < 2 ^ 53" for m
    using that by (simp add: signed_of_nat signed_take_bit_int_eq_self)
  then have s: "sint (of_nat (b * k) :: i64) = int (b * k)" using assms(7) .
  moreover have p: "int (b * k * 2 ^ n) = int (b * k) * 2 ^ n" by simp
  have "int (b * k * 2 ^ n) < 2 ^ 63" "int (b * k) < 2 ^ 53" "0 < int (b * k)"
    using assms(7,8) k by (simp_all only: of_nat_less_numeral_power_cancel_iff of_nat_0_less_iff)
  then have "backoffDuration conv (int n) (of_nat (b * k)) (Fin 1 1) = word_of_int (int (b * k * 2 ^ n))"
    using backoff_doubles [of n "of_nat (b * k)" conv] assms(5) by (simp only: s p)
  ultimately show ?thesis by (simp only: of_int_of_nat_eq)
qed

theorem configured_backoff_witness:
  "\<exists>c. Load default_list (\<lambda>x. if x = ''RETRY_BASE_DELAY'' then ''15ms'' else []) = Inr c \<and>
     backoffDuration (\<lambda>_. 0) (int 3) (cfg_RetryBaseDelay c) (cfg_RetryMultiplier c) = 120000000"
proof -
  let ?env = "\<lambda>x. if x = ''RETRY_BASE_DELAY'' then ''15ms'' else []"
  have "\<exists>c. Load default_list ?env = Inr c"
    by (simp add: Load_def Let_def read_config_def getEnvInt_def getEnvFloat_def f64_less_def f64_one_def)
  then obtain c where l: "Load default_list ?env = Inr c" ..
  have "dec_digits 15 = ''15''" by code_simp
  then have "backoffDuration (\<lambda>_. 0) (int 3) (cfg_RetryBaseDelay c) (cfg_RetryMultiplier c) = of_nat (15 * 1000000 * 2 ^ 3)"
    by (intro configured_backoff [OF l, where u = "''ms''"]) (simp_all add: unitMap_def)
  then show ?thesis using l by simp
qed

lemma f64_pow_NaN: "1 \<le> n \<Longrightarrow> f64_pow NaN n = NaN"
  by (simp add: f64_pow_def f64_eq_def)

text \<open>
  C33. Validation does not catch a multiplier of NaN, in whatever case it is written: \<open>Load\<close> accepts it
  when it accepts the rest, and every backoff after the first attempt is whatever the implementation
  makes of converting a NaN to an integer.
\<close>

theorem nan_multiplier_accepted:
  assumes "map lower (env ''RETRY_MULTIPLIER'') = ''nan''"
    and "0 \<le> getEnvInt env ''MAX_RETRY_ATTEMPTS'' 5" "1 \<le> getEnvInt env ''REFILL_BATCH_SIZE'' 10"
    and "1 \<le> attempt"
  shows "\<exists>c. Load gs env = Inr c \<and>
    backoffDuration conv attempt (cfg_RetryBaseDelay c) (cfg_RetryMultiplier c) = conv NaN"
proof -
  let ?c = "read_config gs env"
  have m: "cfg_RetryMultiplier ?c = NaN"
    using ParseFloat_nan [OF assms(1)] assms(1) by (auto simp: read_config_def getEnvFloat_def Let_def)
  then have "Load gs env = Inr ?c"
    using assms(2,3) by (simp add: Load_def Let_def f64_less_def) (simp add: read_config_def)
  moreover have "f64_mul x NaN = NaN" for x by (cases x) (simp_all add: f64_mul_def)
  then have "backoffDuration conv attempt (cfg_RetryBaseDelay ?c) (cfg_RetryMultiplier ?c) = conv NaN"
    using m assms(4) f64_pow_NaN [of "nat attempt"]
    by (simp add: backoffDuration_def Let_def f64_to_i64_def)
  ultimately show ?thesis by blast
qed

theorem nan_multiplier_accepted_witness:
  "\<exists>c. Load default_list (\<lambda>x. if x = ''RETRY_MULTIPLIER'' then ''NaN'' else []) = Inr c \<and>
     backoffDuration (\<lambda>_. - 1) 2 (cfg_RetryBaseDelay c) (cfg_RetryMultiplier c) = - 1"
proof -
  have "lower (CHR ''N'') = CHR ''n''" "lower (CHR ''a'') = CHR ''a''" by code_simp+
  then show ?thesis
  using nan_multiplier_accepted [of "\<lambda>x. if x = ''RETRY_MULTIPLIER'' then ''NaN'' else []" 2 default_list "\<lambda>_. - 1"]
    by (simp add: getEnvInt_def)
qed

text \<open>
  Nor does it check the poll interval: with an interval of zero \<open>Load\<close> succeeds and the queue
  processor panics as soon as it starts.
\<close>

lemma poll_interval_unchecked:
  assumes "env ''QUEUE_POLL_INTERVAL'' = s" "s \<noteq> []" "ParseDuration s = Some d" "sint d \<le> 0"
    and "Load gs env = Inr c" "eg_cfg e = c"
  shows "ProcessQueue us now e evs w = (Some Panic, w)"
proof -
  have "c = read_config gs env" using assms(5) by (auto simp: Load_def Let_def split: if_splits)
  then have "cfg_QueuePollInterval c = d"
    using assms(1-3) by (simp add: read_config_def getEnvDuration_def Let_def)
  then show ?thesis using assms(4,6) by (simp add: ProcessQueue_def)
qed

text \<open>An engine over a store that is always empty, for concrete runs of the loop.\<close>

definition idle_engine :: "nat Engine" where
  "idle_engine =
     (let s = \<lparr>ts_SaveTransaction = \<lambda>_. ret (Ok ()), ts_UpdateTransactionStatus = \<lambda>_ _ _ _. ret (Ok ()),
        ts_IncrementRetry = \<lambda>_. ret (Ok ()), ts_GetPendingTransactions = \<lambda>_ w. (Ok [], Suc w),
        ts_GetTransaction = \<lambda>_. ret (Error ErrNoRows), ts_GetTransactionForRetry = \<lambda>_. ret (Error ErrNoRows),
        ts_UpdateSequenceNumber = \<lambda>_ _. ret (Ok ())\<rparr>;
          p = \<lparr>ps_LeaseChannelAccount = ret (Error ErrNoRows), ps_ReleaseChannelAccount = \<lambda>_ _. ret (Ok ()),
        ps_ListChannelAccounts = ret (Ok []), ps_UpdateSequenceNumberIfIdle = \<lambda>_ _. ret (Ok ()),
        ps_SaveChannelAccount = \<lambda>_. ret (Ok ())\<rparr>
      in NewEngine s \<lparr>sm_SubmitTransaction = \<lambda>_. ret (Error EOF)\<rparr>
           (NewPool p \<lparr>hz_Account = \<lambda>_. ret (Ok 0)\<rparr> [] 1) (read_config default_list (\<lambda>_. [])))"

lemma queue_loop_ticks:
  assumes "\<forall>j < k. fst (processBatch us now e (((\<lambda>w. snd (processBatch us now e w)) ^^ j) w)) \<noteq> Panic"
  shows "queue_loop us now e (replicate k Tick @ evs) w =
    queue_loop us now e evs (((\<lambda>w. snd (processBatch us now e w)) ^^ k) w)"
  using assms
proof (induction k arbitrary: w)
  case (Suc k)
  let ?f = "\<lambda>w. snd (processBatch us now e w)"
  obtain r w' where b: "processBatch us now e w = (r, w')" by (cases "processBatch us now e w")
  have "r \<noteq> Panic" using spec [OF Suc.prems, of 0] b by simp
  then have "queue_loop us now e (replicate (Suc k) Tick @ evs) w = queue_loop us now e (replicate k Tick @ evs) w'"
    using b by (cases r) simp_all
  also have "\<dots> = queue_loop us now e evs ((?f ^^ k) w')"
  proof (rule Suc.IH, intro allI impI)
    fix j assume "j < k"
    then show "fst (processBatch us now e ((?f ^^ j) w')) \<noteq> Panic"
      using spec [OF Suc.prems, of "Suc j"] b by (simp add: funpow_Suc_right del: funpow.simps)
  qed
  finally show ?case using b by (simp add: funpow_Suc_right del: funpow.simps)
qed simp

text \<open>
  C34. The queue processor runs one batch per tick, in order, until the context ends, and returns the
  context's error; the events after that are not looked at.
\<close>

theorem queue_runs_until_done:
  assumes "0 < sint (cfg_QueuePollInterval (eg_cfg e))"
    and "\<forall>j < k. fst (processBatch us now e (((\<lambda>w. snd (processBatch us now e w)) ^^ j) w)) \<noteq> Panic"
  shows "ProcessQueue us now e (replicate k Tick @ CtxDone err # rest) w =
    (Some (Error err), ((\<lambda>w. snd (processBatch us now e w)) ^^ k) w)"
  using assms queue_loop_ticks [OF assms(2)] by (simp add: ProcessQueue_def)

theorem queue_runs_until_done_witness:
  "ProcessQueue (\<lambda>_. []) (\<lambda>_. 0) idle_engine (replicate 3 Tick @ CtxDone Canceled # [Tick]) 0
   = (Some (Error Canceled), 3)"
proof -
  have b: "processBatch (\<lambda>_. []) (\<lambda>_. 0) idle_engine w = (Ok (), Suc w)" for w
    by (simp add: processBatch_def idle_engine_def NewEngine_def try_call_def Let_def)
  have c: "0 < sint (cfg_QueuePollInterval (eg_cfg idle_engine))"
    by (simp add: idle_engine_def NewEngine_def Let_def read_config_def getEnvDuration_def Second_def)
  show ?thesis
    using queue_runs_until_done [OF c, of 3 "\<lambda>_. []" "\<lambda>_. 0" 0 Canceled "[Tick]"]
    by (simp add: b eval_nat_numeral)
qed

end
