(* ===== verification/Replicas.thy ===== *)
theory Replicas
  imports Store Engine
begin

text \<open>
  Several processes working on one database: \<open>processBatch\<close> of internal/submission/engine.go cut into
  its SQL statements and its call of the router, any of which another process may come between. The
  statements are the functions of theory \<open>Store\<close>; a row the lease's SELECT has locked is skipped by
  the others until COMMIT or rollback. A statement may fail before or after it took effect, and a
  process may die and start again at any point.
\<close>

section \<open>Where a process is\<close>

datatype pc =
    Outside
  | Claiming uuid string
  | Leasing uuid string
  | Marking uuid string ChannelAccount
  | Committing uuid string ChannelAccount
  | Sequencing uuid string ChannelAccount
  | Calling uuid string ChannelAccount
  | Releasing uuid ChannelAccount "TxStatus \<times> string"
  | Concluding uuid string "TxStatus \<times> string"

text \<open>The account row a process has locked, and the account it was given and has not released.\<close>

definition lock_of :: "pc \<Rightarrow> string option" where
  "lock_of p = (case p of Marking i x a \<Rightarrow> Some (ca_PublicKey a) | Committing i x a \<Rightarrow> Some (ca_PublicKey a) | _ \<Rightarrow> None)"

definition held_of :: "pc \<Rightarrow> string option" where
  "held_of p =
     (case p of Sequencing i x a \<Rightarrow> Some (ca_PublicKey a) | Calling i x a \<Rightarrow> Some (ca_PublicKey a)
        | Releasing i a oc \<Rightarrow> Some (ca_PublicKey a) | _ \<Rightarrow> None)"

lemma lock_of_simps [simp]:
  "lock_of Outside = None" "lock_of (Claiming i x) = None" "lock_of (Leasing i x) = None"
  "lock_of (Marking i x a) = Some (ca_PublicKey a)" "lock_of (Committing i x a) = Some (ca_PublicKey a)"
  "lock_of (Sequencing i x a) = None" "lock_of (Calling i x a) = None" "lock_of (Releasing i a oc) = None"
  "lock_of (Concluding i pk oc) = None"
  by (simp_all add: lock_of_def)

lemma held_of_simps [simp]:
  "held_of Outside = None" "held_of (Claiming i x) = None" "held_of (Leasing i x) = None"
  "held_of (Marking i x a) = None" "held_of (Committing i x a) = None"
  "held_of (Sequencing i x a) = Some (ca_PublicKey a)" "held_of (Calling i x a) = Some (ca_PublicKey a)"
  "held_of (Releasing i a oc) = Some (ca_PublicKey a)" "held_of (Concluding i pk oc) = None"
  by (simp_all add: held_of_def)

section \<open>The shared state and the statements\<close>

text \<open>\<open>cl_log\<close> lists the submissions made: the process, the transaction, the account.\<close>

record cluster =
  cl_txs :: "tx_row list"
  cl_accts :: "acct_row list"
  cl_pc :: "nat \<Rightarrow> pc"
  cl_log :: "(nat \<times> uuid \<times> string) list"

definition set_status :: "uuid \<Rightarrow> TxStatus \<Rightarrow> string \<Rightarrow> string \<Rightarrow> time \<Rightarrow> tx_row list \<Rightarrow> tx_row list" where
  "set_status i st pk er t rows = update_tx_rows i
     (\<lambda>r. r\<lparr>tr_status := st, tr_channel_account := Some pk, tr_last_error := Some er, tr_updated_at := t\<rparr>) rows"

definition set_seq :: "string \<Rightarrow> i64 \<Rightarrow> acct_row list \<Rightarrow> acct_row list" where
  "set_seq pk q rows = update_account_rows (\<lambda>r. ar_public_key r = pk) (\<lambda>r. r\<lparr>ar_sequence_number := q\<rparr>) rows"

definition set_idle :: "string \<Rightarrow> time \<Rightarrow> acct_row list \<Rightarrow> acct_row list" where
  "set_idle pk t rows =
     update_account_rows (\<lambda>r. ar_public_key r = pk) (\<lambda>r. r\<lparr>ar_status := ''idle'', ar_last_used_at := Some t\<rparr>) rows"

definition locked_by_others :: "(nat \<Rightarrow> pc) \<Rightarrow> nat \<Rightarrow> string \<Rightarrow> bool" where
  "locked_by_others pcs w k \<longleftrightarrow> (\<exists>w'. w' \<noteq> w \<and> lock_of (pcs w') = Some k)"

definition move :: "nat \<Rightarrow> pc \<Rightarrow> cluster \<Rightarrow> cluster" where
  "move w p c = c\<lparr>cl_pc := (cl_pc c)(w := p)\<rparr>"

text \<open>
  One step of process w. \<open>eff\<close> says that the statement took effect, \<open>ok\<close> that it returned without an
  error, which it only does when it took effect.
\<close>

inductive step :: "nat \<Rightarrow> cluster \<Rightarrow> cluster \<Rightarrow> bool" where
  fetch: "cl_pc c w = Outside \<Longrightarrow> pending_rows (cl_txs c) = r # rs \<Longrightarrow>
    step w c (move w (Claiming (tr_id r) (tr_envelope_xdr r)) c)"
| claim: "cl_pc c w = Claiming i x \<Longrightarrow> (ok \<longrightarrow> eff) \<Longrightarrow>
    step w c (move w (if ok then Leasing i x else Outside)
      (c\<lparr>cl_txs := (if eff then set_status i TxStatusSubmitting [] [] t (cl_txs c) else cl_txs c)\<rparr>))"
| lease_select: "cl_pc c w = Leasing i x \<Longrightarrow> lease_candidate (locked_by_others (cl_pc c) w) (cl_accts c) = Some a \<Longrightarrow>
    step w c (move w (Marking i x (account_of_row a)) c)"
| lease_mark: "cl_pc c w = Marking i x a \<Longrightarrow> step w c (move w (Committing i x a) c)"
| lease_commit: "cl_pc c w = Committing i x a \<Longrightarrow> (ok \<longrightarrow> eff) \<Longrightarrow>
    step w c (move w (if ok then Sequencing i x a else Concluding i [] (TxStatusFailed, er))
      (c\<lparr>cl_accts := (if eff then mark_leased (ca_PublicKey a) (cl_accts c) else cl_accts c)\<rparr>))"
| lease_error: "cl_pc c w = Leasing i x \<or> cl_pc c w = Marking i x a \<Longrightarrow>
    step w c (move w (Concluding i [] (TxStatusFailed, er)) c)"
| sequence: "cl_pc c w = Sequencing i x a \<Longrightarrow>
    step w c (move w (Calling i x a)
      (c\<lparr>cl_accts := (if eff then set_seq (ca_PublicKey a) (ca_SequenceNumber a + 1) (cl_accts c) else cl_accts c)\<rparr>))"
| submit: "cl_pc c w = Calling i x a \<Longrightarrow> rep \<noteq> Panic \<Longrightarrow>
    step w c (move w (Releasing i a (outcome_of us rep))
      (c\<lparr>cl_log := cl_log c @ [(w, i, ca_PublicKey a)]\<rparr>))"
| submit_dies: "cl_pc c w = Calling i x a \<Longrightarrow>
    step w c (move w Outside (c\<lparr>cl_log := cl_log c @ [(w, i, ca_PublicKey a)]\<rparr>))"
| release: "cl_pc c w = Releasing i a oc \<Longrightarrow>
    step w c (move w (Concluding i (ca_PublicKey a) oc)
      (c\<lparr>cl_accts := (if eff then set_idle (ca_PublicKey a) t (cl_accts c) else cl_accts c)\<rparr>))"
| conclude: "cl_pc c w = Concluding i pk oc \<Longrightarrow>
    step w c (move w Outside
      (c\<lparr>cl_txs := (if eff then set_status i (fst oc) pk (snd oc) t (cl_txs c) else cl_txs c)\<rparr>))"
| dies: "step w c (move w Outside c)"
| enqueue: "tr_id r \<notin> tr_id ` set (cl_txs c) \<Longrightarrow> tr_status r = TxStatusPending \<Longrightarrow>
    step w c (c\<lparr>cl_txs := cl_txs c @ [r]\<rparr>)"

text \<open>Runs of the processes in W, from a state in which every process is outside.\<close>

definition initial :: "cluster \<Rightarrow> bool" where
  "initial c \<longleftrightarrow> (\<forall>w. cl_pc c w = Outside) \<and> cl_log c = [] \<and>
     distinct (map ar_public_key (cl_accts c)) \<and> distinct (map tr_id (cl_txs c))"

definition steps :: "nat set \<Rightarrow> cluster \<Rightarrow> cluster \<Rightarrow> bool" where
  "steps W = (\<lambda>a b. \<exists>w \<in> W. step w a b)\<^sup>*\<^sup>*"

lemma move_sel [simp]:
  "cl_txs (move w p c) = cl_txs c" "cl_accts (move w p c) = cl_accts c" "cl_log (move w p c) = cl_log c"
  "cl_pc (move w p c) = (cl_pc c)(w := p)"
  by (simp_all add: move_def)

section \<open>Accounts: mutual exclusion\<close>

definition acct_status :: "string \<Rightarrow> acct_row list \<Rightarrow> string option" where
  "acct_status k rows = map_option ar_status (find_account k rows)"

text \<open>
  A locked row is idle and locked once; a held account is leased and held once.
\<close>

definition exclusive :: "cluster \<Rightarrow> bool" where
  "exclusive c \<longleftrightarrow> distinct (map ar_public_key (cl_accts c)) \<and>
     (\<forall>w k. lock_of (cl_pc c w) = Some k \<longrightarrow> acct_status k (cl_accts c) = Some ''idle'') \<and>
     (\<forall>w k. held_of (cl_pc c w) = Some k \<longrightarrow> acct_status k (cl_accts c) = Some ''leased'') \<and>
     (\<forall>w w' k. lock_of (cl_pc c w) = Some k \<longrightarrow> lock_of (cl_pc c w') = Some k \<longrightarrow> w = w') \<and>
     (\<forall>w w' k. held_of (cl_pc c w) = Some k \<longrightarrow> held_of (cl_pc c w') = Some k \<longrightarrow> w = w')"

lemma acct_status_update:
  "acct_status k (mark_leased pk rows) = (if k = pk \<and> acct_status k rows \<noteq> None then Some ''leased'' else acct_status k rows)"
  "acct_status k (set_idle pk t rows) = (if k = pk \<and> acct_status k rows \<noteq> None then Some ''idle'' else acct_status k rows)"
  "acct_status k (set_seq pk q rows) = acct_status k rows"
  by (cases "find_account k rows"; auto simp: acct_status_def mark_leased_def set_idle_def set_seq_def row_simps
      dest: find_account_key)+

lemma keys_update:
  "map ar_public_key (mark_leased pk rows) = map ar_public_key rows"
  "map ar_public_key (set_idle pk t rows) = map ar_public_key rows"
  "map ar_public_key (set_seq pk q rows) = map ar_public_key rows"
  by (simp_all add: mark_leased_def set_idle_def set_seq_def row_simps)

lemma candidate_status:
  assumes "lease_candidate lk rows = Some r" "distinct (map ar_public_key rows)"
  shows "acct_status (ar_public_key r) rows = Some ''idle''" "\<not> lk (ar_public_key r)"
  using lease_candidate_SomeD [OF assms(1)] find_account_in [OF assms(2)] by (auto simp: acct_status_def)


lemma exclusiveI:
  assumes "distinct (map ar_public_key (cl_accts c))"
    and "\<forall>w k. lock_of (cl_pc c w) = Some k \<longrightarrow> acct_status k (cl_accts c) = Some ''idle''"
    and "\<forall>w k. held_of (cl_pc c w) = Some k \<longrightarrow> acct_status k (cl_accts c) = Some ''leased''"
    and "\<forall>w w' k. lock_of (cl_pc c w) = Some k \<longrightarrow> lock_of (cl_pc c w') = Some k \<longrightarrow> w = w'"
    and "\<forall>w w' k. held_of (cl_pc c w) = Some k \<longrightarrow> held_of (cl_pc c w') = Some k \<longrightarrow> w = w'"
  shows "exclusive c"
  using assms by (auto simp: exclusive_def)

lemma exclusiveD:
  assumes "exclusive c"
  shows "distinct (map ar_public_key (cl_accts c))"
    and "lock_of (cl_pc c w) = Some k \<Longrightarrow> acct_status k (cl_accts c) = Some ''idle''"
    and "held_of (cl_pc c w) = Some k \<Longrightarrow> acct_status k (cl_accts c) = Some ''leased''"
    and "lock_of (cl_pc c w) = Some k \<Longrightarrow> lock_of (cl_pc c w') = Some k \<Longrightarrow> w = w'"
    and "held_of (cl_pc c w) = Some k \<Longrightarrow> held_of (cl_pc c w') = Some k \<Longrightarrow> w = w'"
  using assms unfolding exclusive_def by blast+

text \<open>
  A step that takes no new lock or account and leaves the status of every row that someone else has
  locked or holds.
\<close>

lemma exclusive_move:
  assumes "exclusive c" "map ar_public_key rows = map ar_public_key (cl_accts c)"
    and lock: "lock_of p = None \<or> lock_of p = lock_of (cl_pc c w)"
    and held: "held_of p = None \<or> held_of p = held_of (cl_pc c w)"
    and own: "\<forall>k. lock_of p = Some k \<or> held_of p = Some k \<longrightarrow> acct_status k rows = acct_status k (cl_accts c)"
    and others: "\<forall>w' k. w' \<noteq> w \<longrightarrow> lock_of (cl_pc c w') = Some k \<or> held_of (cl_pc c w') = Some k \<longrightarrow>
      acct_status k rows = acct_status k (cl_accts c)"
    and "cl_accts c' = rows" "cl_pc c' = (cl_pc c)(w := p)"
  shows "exclusive c'"
proof -
  have lk: "lock_of (cl_pc c v) = Some k" if "lock_of (cl_pc c' v) = Some k" for v k
    using lock that by (cases "v = w") (auto simp: assms(8))
  have hd: "held_of (cl_pc c v) = Some k" if "held_of (cl_pc c' v) = Some k" for v k
    using held that by (cases "v = w") (auto simp: assms(8))
  show ?thesis
  proof (rule exclusiveI, goal_cases)
  case 1 then show ?case using exclusiveD(1) [OF assms(1)] assms(2,7) by simp
next
  case 2 then show ?case using exclusiveD(2) [OF assms(1)] lock own others assms(7,8) by auto
next
  case 3 then show ?case using exclusiveD(3) [OF assms(1)] held own others assms(7,8) by auto
next
  case 4 then show ?case using exclusiveD(4) [OF assms(1)] lk by blast
next
  case 5 then show ?case using exclusiveD(5) [OF assms(1)] hd by blast
qed
qed

lemma step_exclusive: "step w c c' \<Longrightarrow> exclusive c \<Longrightarrow> exclusive c'"
proof (induction rule: step.induct)
  case (lease_select c w i x a)
  note ex = exclusiveD [OF lease_select.prems]
  note st = candidate_status [OF lease_select.hyps(2) ex(1)]
  show ?case
  proof (rule exclusiveI, goal_cases)
    case 1 then show ?case using ex(1) by simp
  next
    case 2 then show ?case using ex(2) st by (auto simp: account_of_row_def)
  next
    case 3 then show ?case using ex(3) by auto
  next
    case 4 then show ?case using ex(4) st(2) by (auto simp: account_of_row_def locked_by_others_def)
  next
    case 5 then show ?case using ex(5) by auto
  qed
next
  case (lease_commit c w i x a ok eff er)
  note ex = exclusiveD [OF lease_commit.prems]
  have k: "acct_status (ca_PublicKey a) (cl_accts c) = Some ''idle''"
    using ex(2) [of w] lease_commit.hyps by simp
  have o: "lock_of (cl_pc c w') \<noteq> Some (ca_PublicKey a)" "held_of (cl_pc c w') \<noteq> Some (ca_PublicKey a)" if "w' \<noteq> w" for w'
    using ex(4) [of w "ca_PublicKey a" w'] ex(3) [of w' "ca_PublicKey a"] lease_commit.hyps(1) k that by auto
  show ?case
  proof (rule exclusiveI, goal_cases)
    case 1 then show ?case using ex(1) by (simp add: keys_update)
  next
    case 2 then show ?case using ex(2) o(1) by (auto simp: acct_status_update split: if_splits)
  next
    case 3 then show ?case
      using ex(3) o(2) k lease_commit.hyps(2) by (auto simp: acct_status_update split: if_splits)
  next
    case 4 then show ?case using ex(4) by (auto split: if_splits)
  next
    case 5 then show ?case using ex(5) o(2) by (auto split: if_splits)
  qed
next
  case (release c w i a oc eff t)
  note ex = exclusiveD [OF release.prems]
  have k: "acct_status (ca_PublicKey a) (cl_accts c) = Some ''leased''"
    using ex(3) [of w] release.hyps by simp
  have o: "lock_of (cl_pc c w') \<noteq> Some (ca_PublicKey a)" "held_of (cl_pc c w') \<noteq> Some (ca_PublicKey a)" if "w' \<noteq> w" for w'
    using ex(5) [of w "ca_PublicKey a" w'] ex(2) [of w' "ca_PublicKey a"] release.hyps k that by auto
  show ?case
    using release.hyps o
    by (intro exclusive_move [OF release.prems, where w = w and p = "Concluding i (ca_PublicKey a) oc" and
        rows = "if eff then set_idle (ca_PublicKey a) t (cl_accts c) else cl_accts c"])
       (auto simp: keys_update acct_status_update)
next
  case (sequence c w i x a eff)
  then show ?case
    by (intro exclusive_move [OF sequence.prems, where w = w and p = "Calling i x a" and
        rows = "if eff then set_seq (ca_PublicKey a) (ca_SequenceNumber a + 1) (cl_accts c) else cl_accts c"])
       (auto simp: keys_update acct_status_update)
next
  case (enqueue r c w)
  then show ?case by (simp add: exclusive_def)
next
  case (fetch c w r rs)
  then show ?case
    by (intro exclusive_move [OF fetch.prems, where w = w and rows = "cl_accts c" and p = "Claiming (tr_id r) (tr_envelope_xdr r)"]) auto
next
  case (claim c w i x ok eff t)
  then show ?case
    by (intro exclusive_move [OF claim.prems, where w = w and rows = "cl_accts c" and p = "if ok then Leasing i x else Outside"]) auto
next
  case (lease_mark c w i x a)
  then show ?case by (intro exclusive_move [OF lease_mark.prems, where w = w and rows = "cl_accts c" and p = "Committing i x a"]) auto
next
  case (lease_error c w i x a er)
  then show ?case
    by (intro exclusive_move [OF lease_error.prems, where w = w and rows = "cl_accts c" and p = "Concluding i [] (TxStatusFailed, er)"]) auto
next
  case (submit c w i x a rep us)
  then show ?case
    by (intro exclusive_move [OF submit.prems, where w = w and rows = "cl_accts c" and p = "Releasing i a (outcome_of us rep)"]) auto
next
  case (submit_dies c w i x a)
  then show ?case by (intro exclusive_move [OF submit_dies.prems, where w = w and rows = "cl_accts c" and p = Outside]) auto
next
  case (conclude c w i pk oc eff t)
  then show ?case by (intro exclusive_move [OF conclude.prems, where w = w and rows = "cl_accts c" and p = Outside]) auto
next
  case (dies w c)
  then show ?case by (intro exclusive_move [OF dies.prems, where w = w and rows = "cl_accts c" and p = Outside]) auto
qed

lemma steps_exclusive: "steps W c0 c \<Longrightarrow> exclusive c0 \<Longrightarrow> exclusive c"
  unfolding steps_def by (induction rule: rtranclp_induct) (auto dest: step_exclusive)

lemma initial_exclusive: "initial c \<Longrightarrow> exclusive c"
  by (intro exclusiveI) (simp_all add: initial_def)

section \<open>Transactions: one process submits each at most once\<close>

definition tx_status :: "uuid \<Rightarrow> tx_row list \<Rightarrow> TxStatus option" where
  "tx_status i rows = map_option tr_status (find_tx i rows)"

definition taken :: "uuid \<Rightarrow> cluster \<Rightarrow> bool" where
  "taken i c \<longleftrightarrow> (\<exists>s. tx_status i (cl_txs c) = Some s \<and> s \<noteq> TxStatusPending)"

definition logged :: "cluster \<Rightarrow> uuid list" where
  "logged c = map (\<lambda>e. fst (snd e)) (cl_log c)"

definition pc_once :: "pc \<Rightarrow> cluster \<Rightarrow> bool" where
  "pc_once p c =
     (case p of
        Outside \<Rightarrow> True
      | Claiming i x \<Rightarrow> tx_status i (cl_txs c) \<noteq> None \<and> i \<notin> set (logged c)
      | Leasing i x \<Rightarrow> taken i c \<and> i \<notin> set (logged c)
      | Marking i x a \<Rightarrow> taken i c \<and> i \<notin> set (logged c)
      | Committing i x a \<Rightarrow> taken i c \<and> i \<notin> set (logged c)
      | Sequencing i x a \<Rightarrow> taken i c \<and> i \<notin> set (logged c)
      | Calling i x a \<Rightarrow> taken i c \<and> i \<notin> set (logged c)
      | Releasing i a oc \<Rightarrow> taken i c \<and> fst oc \<noteq> TxStatusPending
      | Concluding i pk oc \<Rightarrow> taken i c \<and> fst oc \<noteq> TxStatusPending)"

definition once :: "nat \<Rightarrow> cluster \<Rightarrow> bool" where
  "once w c \<longleftrightarrow> distinct (map tr_id (cl_txs c)) \<and> distinct (logged c) \<and>
     (\<forall>i \<in> set (logged c). taken i c) \<and> pc_once (cl_pc c w) c"

lemma tx_status_set:
  "tx_status j (set_status i st pk er t rows) =
     (if j = i \<and> tx_status i rows \<noteq> None then Some st else tx_status j rows)"
  by (cases "find_tx i rows") (auto simp: tx_status_def set_status_def row_simps)

lemma ids_set [simp]: "map tr_id (set_status i st pk er t rows) = map tr_id rows"
  by (simp add: set_status_def row_simps)

lemma tx_status_append:
  "tr_id r \<notin> tr_id ` set rows \<Longrightarrow> tx_status i (rows @ [r]) =
     (case tx_status i rows of None \<Rightarrow> if tr_id r = i then Some (tr_status r) else None | Some s \<Rightarrow> Some s)"
  by (auto simp: tx_status_def find_tx_def find_append split: option.splits)

lemma pending_fetched:
  assumes "pending_rows rows = r # rs" "distinct (map tr_id rows)"
  shows "tx_status (tr_id r) rows = Some TxStatusPending"
proof -
  have "r \<in> set rows" "tr_status r = ''pending''" using pending_rows_set [of r rows] assms(1) by auto
  then show ?thesis using find_tx_in [OF assms(2)] by (simp add: tx_status_def TxStatusPending_def)
qed

lemma outcome_not_pending: "rep \<noteq> Panic \<Longrightarrow> fst (outcome_of us rep) \<noteq> TxStatusPending"
  by (auto simp: outcome_of_def split: res.splits option.splits)

lemma step_once: "step w c c' \<Longrightarrow> once w c \<Longrightarrow> once w c'"
proof (induction rule: step.induct)
  case (fetch c w r rs)
  then have "tx_status (tr_id r) (cl_txs c) = Some TxStatusPending"
    by (auto simp: once_def intro: pending_fetched)
  then show ?case using fetch by (auto simp: once_def pc_once_def logged_def taken_def)
next
  case (claim c w i x ok eff t)
  then show ?case by (auto simp: once_def pc_once_def logged_def taken_def tx_status_set)
next
  case (conclude c w i pk oc eff t)
  then show ?case by (auto simp: once_def pc_once_def logged_def taken_def tx_status_set)
next
  case (enqueue r c w)
  then have t: "taken i (c\<lparr>cl_txs := cl_txs c @ [r]\<rparr>)" if "taken i c" for i
    using that by (auto simp: taken_def tx_status_append)
  have p: "tx_status i (cl_txs c @ [r]) \<noteq> None" if "tx_status i (cl_txs c) \<noteq> None" for i
    using that enqueue.hyps by (auto simp: tx_status_append)
  show ?case
    using enqueue t p by (auto simp: once_def pc_once_def logged_def split: pc.splits)
qed (auto simp: once_def pc_once_def logged_def taken_def outcome_not_pending)

lemma steps_once:
  assumes "steps {w} c0 c" "once w c0"
  shows "once w c"
  using assms unfolding steps_def by (induction rule: rtranclp_induct) (auto dest: step_once)

section \<open>A schedule without failures\<close>

text \<open>
  The step process w of n takes when everything succeeds and the router accepts.
\<close>

definition locked_among :: "nat \<Rightarrow> (nat \<Rightarrow> pc) \<Rightarrow> nat \<Rightarrow> string \<Rightarrow> bool" where
  "locked_among n pcs w k \<longleftrightarrow> list_ex (\<lambda>w'. w' \<noteq> w \<and> lock_of (pcs w') = Some k) [0..<n]"

definition others_outside :: "nat \<Rightarrow> cluster \<Rightarrow> bool" where
  "others_outside n c \<longleftrightarrow> (\<forall>w \<ge> n. cl_pc c w = Outside)"

lemma locked_among_eq:
  assumes "others_outside n c"
  shows "locked_among n (cl_pc c) = locked_by_others (cl_pc c)"
proof (intro ext)
  fix w k
  have "w' < n" if "lock_of (cl_pc c w') = Some k" for w'
    using assms that by (cases "w' < n") (auto simp: others_outside_def not_less)
  then show "locked_among n (cl_pc c) w k = locked_by_others (cl_pc c) w k"
    by (auto simp: locked_among_def locked_by_others_def list_ex_iff)
qed

definition advance :: "nat \<Rightarrow> nat \<Rightarrow> cluster \<Rightarrow> cluster" where
  "advance n w c =
     (case cl_pc c w of
        Outside \<Rightarrow> (case pending_rows (cl_txs c) of
            [] \<Rightarrow> move w Outside c
          | r # rs \<Rightarrow> move w (Claiming (tr_id r) (tr_envelope_xdr r)) c)
      | Claiming i x \<Rightarrow> move w (Leasing i x) (c\<lparr>cl_txs := set_status i TxStatusSubmitting [] [] 0 (cl_txs c)\<rparr>)
      | Leasing i x \<Rightarrow> (case lease_candidate (locked_among n (cl_pc c) w) (cl_accts c) of
            None \<Rightarrow> move w (Concluding i [] (TxStatusFailed, ''no channel account'')) c
          | Some a \<Rightarrow> move w (Marking i x (account_of_row a)) c)
      | Marking i x a \<Rightarrow> move w (Committing i x a) c
      | Committing i x a \<Rightarrow> move w (Sequencing i x a) (c\<lparr>cl_accts := mark_leased (ca_PublicKey a) (cl_accts c)\<rparr>)
      | Sequencing i x a \<Rightarrow> move w (Calling i x a)
          (c\<lparr>cl_accts := set_seq (ca_PublicKey a) (ca_SequenceNumber a + 1) (cl_accts c)\<rparr>)
      | Calling i x a \<Rightarrow> move w (Releasing i a (TxStatusConfirmed, []))
          (c\<lparr>cl_log := cl_log c @ [(w, i, ca_PublicKey a)]\<rparr>)
      | Releasing i a oc \<Rightarrow> move w (Concluding i (ca_PublicKey a) oc)
          (c\<lparr>cl_accts := set_idle (ca_PublicKey a) 0 (cl_accts c)\<rparr>)
      | Concluding i pk oc \<Rightarrow> move w Outside (c\<lparr>cl_txs := set_status i (fst oc) pk (snd oc) 0 (cl_txs c)\<rparr>))"

lemma advance_outside: "w < n \<Longrightarrow> others_outside n c \<Longrightarrow> others_outside n (advance n w c)"
  by (auto simp: others_outside_def advance_def split: pc.split list.split option.split)

lemma advance_step:
  assumes "others_outside n c"
  shows "step w c (advance n w c)"
proof (cases "cl_pc c w")
  case Outside
  then show ?thesis
    by (cases "pending_rows (cl_txs c)") (auto simp: advance_def intro: step.intros)
next
  case (Claiming i x)
  then show ?thesis using step.claim [of c w i x True True 0] by (simp add: advance_def)
next
  case (Leasing i x)
  then show ?thesis
    by (auto simp: advance_def locked_among_eq [OF assms] split: option.split intro: step.lease_select step.lease_error)
next
  case (Marking i x a)
  then show ?thesis by (simp add: advance_def step.lease_mark)
next
  case (Committing i x a)
  then show ?thesis using step.lease_commit [of c w i x a True True] by (simp add: advance_def)
next
  case (Sequencing i x a)
  then show ?thesis using step.sequence [of c w i x a True] by (simp add: advance_def)
next
  case (Calling i x a)
  then show ?thesis using step.submit [of c w i x a "Ok None"] by (simp add: advance_def outcome_of_def)
next
  case (Releasing i a oc)
  then show ?thesis using step.release [of c w i a oc True 0] by (simp add: advance_def)
next
  case (Concluding i pk oc)
  then show ?thesis using step.conclude [of c w i pk oc True 0] by (simp add: advance_def)
qed

definition schedule :: "nat \<Rightarrow> nat list \<Rightarrow> cluster \<Rightarrow> cluster" where
  "schedule n ws c = fold (advance n) ws c"

lemma schedule_steps:
  assumes "set ws \<subseteq> {0..<n}" "others_outside n c"
  shows "steps {0..<n} c (schedule n ws c) \<and> others_outside n (schedule n ws c)"
  using assms
proof (induction ws arbitrary: c)
  case Nil
  then show ?case by (simp add: schedule_def steps_def)
next
  case (Cons w ws)
  have "(\<lambda>a b. \<exists>w \<in> {0..<n}. step w a b) c (advance n w c)" "others_outside n (advance n w c)"
    using Cons.prems advance_step [of n c w] advance_outside [of w n c] by (auto intro: bexI [of _ w])
  then show ?case
    using Cons by (auto simp: schedule_def steps_def intro: converse_rtranclp_into_rtranclp)
qed

definition sample_cluster :: cluster where
  "sample_cluster =
     \<lparr>cl_txs = [sample_tx 4 ''pending'' None], cl_accts = [sample_acct ''GA'' ''idle'' None], cl_pc = \<lambda>w. Outside,
      cl_log = []\<rparr>"

lemma sample_cluster_initial: "initial sample_cluster"
  by (simp add: initial_def sample_cluster_def)

lemma sample_cluster_outside: "others_outside n sample_cluster"
  by (simp add: others_outside_def sample_cluster_def)

lemma sample_runs:
  "cl_log (schedule 2 [0, 1, 0, 0, 0, 0, 0, 0, 0, 0] sample_cluster) = [(0, 4, ''GA'')]"
  "tx_status 4 (cl_txs (schedule 2 [0, 1, 0, 0, 0, 0, 0, 0, 0, 0] sample_cluster)) = Some TxStatusConfirmed"
  "cl_log (schedule 2 [1, 1, 1, 1, 1, 1] (schedule 2 [0, 1, 0, 0, 0, 0, 0, 0, 0, 0] sample_cluster)) =
     [(0, 4, ''GA''), (1, 4, ''GA'')]"
  by code_simp+

section \<open>Properties of concurrent processes\<close>

text \<open>
  C3. Mutual exclusion of channel accounts: however many processes run, interleaved statement by
  statement, with any failures and deaths, no account is ever in the hands of two of them at once, and
  an account in use is marked leased.
\<close>

theorem accounts_exclusive:
  assumes "initial c0" "steps W c0 c"
    and "held_of (cl_pc c w) = Some k" "held_of (cl_pc c w') = Some k"
  shows "w = w' \<and> acct_status k (cl_accts c) = Some ''leased''"
  using steps_exclusive [OF assms(2) initial_exclusive [OF assms(1)]] assms(3,4) exclusiveD(3,5) by metis

theorem accounts_exclusive_witness:
  "acct_status ''GA'' (cl_accts (schedule 2 [0, 1, 0, 0, 0, 0, 0] sample_cluster)) = Some ''leased''"
proof -
  have "held_of (cl_pc (schedule 2 [0, 1, 0, 0, 0, 0, 0] sample_cluster) 0) = Some ''GA''" by code_simp
  moreover have "steps {0..<2} sample_cluster (schedule 2 [0, 1, 0, 0, 0, 0, 0] sample_cluster)"
    using schedule_steps [of "[0, 1, 0, 0, 0, 0, 0]" 2 sample_cluster] sample_cluster_outside by simp
  ultimately show ?thesis using accounts_exclusive [OF sample_cluster_initial] by blast
qed

text \<open>
  C10. A single process submits each transaction at most once, whatever statements fail and however
  often it dies and starts again.
\<close>

theorem single_process_once:
  assumes "initial c0" "steps {w} c0 c"
  shows "distinct (map (\<lambda>e. fst (snd e)) (cl_log c))"
proof -
  have "once w c0" using assms(1) by (simp add: initial_def once_def pc_once_def logged_def)
  then show ?thesis using steps_once [OF assms(2)] by (simp add: once_def logged_def)
qed


theorem single_process_once_witness:
  "distinct (map (\<lambda>e. fst (snd e)) (cl_log (schedule 1 (replicate 20 0) sample_cluster)))"
proof -
  have "{0..<1} = {0 :: nat}" by auto
  then have "steps {0} sample_cluster (schedule 1 (replicate 20 0) sample_cluster)"
    using schedule_steps [of "replicate 20 0" 1 sample_cluster] sample_cluster_outside
    by (simp add: numeral_eq_Suc)
  then show ?thesis by (rule single_process_once [OF sample_cluster_initial])
qed

text \<open>
  C11. Two processes can submit the same transaction twice: both read it as pending before either marks
  it, the mark does not look at the status, so the second takes a transaction the first has already
  confirmed, and the account is the same. No statement fails in that run.
\<close>

theorem two_processes_submit_twice:
  "\<exists>c0 c1 c2 i k. initial c0 \<and> steps {0, 1} c0 c1 \<and> tx_status i (cl_txs c1) = Some TxStatusConfirmed \<and>
     cl_log c1 = [(0, i, k)] \<and> steps {0, 1} c1 c2 \<and> cl_log c2 = [(0, i, k), (1, i, k)]"
proof -
  let ?c1 = "schedule 2 [0, 1, 0, 0, 0, 0, 0, 0, 0, 0] sample_cluster"
  let ?c2 = "schedule 2 [1, 1, 1, 1, 1, 1] ?c1"
  have s: "{0..<2} = {0 :: nat, 1}" by auto
  have "steps {0, 1} sample_cluster ?c1" "others_outside 2 ?c1"
    using schedule_steps [of "[0, 1, 0, 0, 0, 0, 0, 0, 0, 0]" 2 sample_cluster] sample_cluster_outside
    by (simp_all add: s)
  moreover from this(2) have "steps {0, 1} ?c1 ?c2"
    using schedule_steps [of "[1, 1, 1, 1, 1, 1]" 2 ?c1] by (simp add: s)
  ultimately show ?thesis
    using sample_cluster_initial sample_runs by blast
qed

end
