(* ===== verification/System.thy ===== *)
theory System
  imports Store Engine
begin

text \<open>
  The program as cmd/forgetss/main.go puts it together: the database, the router with its round
  robin counters and the network form one world, and the store, the router and the Horizon client
  act on their part of it. The engine's and the pool's laws, proved over interfaces, are
  interpreted here on the whole program.
\<close>

section \<open>The world and its parts\<close>

record ('n, 'sb) sys =
  sys_db :: pgdb
  sys_router :: "'sb Router"
  sys_net :: 'n

definition on_db :: "(pgdb, 'a) op \<Rightarrow> (('n, 'sb) sys, 'a) op" where
  "on_db m w = (case m (sys_db w) of (r, d) \<Rightarrow> (r, w\<lparr>sys_db := d\<rparr>))"

definition on_net :: "('n, 'a) op \<Rightarrow> (('n, 'sb) sys, 'a) op" where
  "on_net m w = (case m (sys_net w) of (r, nw) \<Rightarrow> (r, w\<lparr>sys_net := nw\<rparr>))"

definition on_router :: "('sb Router \<times> 'n, 'a) op \<Rightarrow> (('n, 'sb) sys, 'a) op" where
  "on_router m w =
     (case m (sys_router w, sys_net w) of
        (r, (rt, nw)) \<Rightarrow> (r, w\<lparr>sys_router := rt, sys_net := nw\<rparr>))"

definition sys_TxStore :: "(('n, 'sb) sys) TxStore" where
  "sys_TxStore =
     \<lparr>ts_SaveTransaction = \<lambda>tx. on_db (Store_SaveTransaction tx),
      ts_UpdateTransactionStatus = \<lambda>i st ch er. on_db (Store_UpdateTransactionStatus i st ch er),
      ts_IncrementRetry = \<lambda>i. on_db (Store_IncrementRetry i),
      ts_GetPendingTransactions = \<lambda>n. on_db (Store_GetPendingTransactions n),
      ts_GetTransaction = \<lambda>i. on_db (Store_GetTransaction i),
      ts_GetTransactionForRetry = \<lambda>i. on_db (Store_GetTransactionForRetry i),
      ts_UpdateSequenceNumber = \<lambda>k q. on_db (Store_UpdateSequenceNumber k q)\<rparr>"

definition sys_PoolStore :: "(('n, 'sb) sys) PoolStore" where
  "sys_PoolStore =
     \<lparr>ps_LeaseChannelAccount = on_db Store_LeaseChannelAccount,
      ps_ReleaseChannelAccount = \<lambda>k t. on_db (Store_ReleaseChannelAccount k t),
      ps_ListChannelAccounts = on_db (Store_ListChannelAccounts None),
      ps_UpdateSequenceNumberIfIdle = \<lambda>k q. on_db (Store_UpdateSequenceNumberIfIdle k q),
      ps_SaveChannelAccount = \<lambda>a. on_db (Store_SaveChannelAccount a)\<rparr>"

definition sys_Submitter :: "parse_envelope \<Rightarrow> ('n, 'sb) Net \<Rightarrow> (('n, 'sb) sys) Submitter" where
  "sys_Submitter parse net =
     \<lparr>sm_SubmitTransaction = \<lambda>x. on_router (Router_SubmitTransaction parse net x)\<rparr>"

section \<open>main\<close>

text \<open>The endpoints of the configuration, or the testnet's.\<close>

definition or_default :: "string list \<Rightarrow> string \<Rightarrow> string list" where
  "or_default endpoints url = (if length endpoints = 0 then [url] else endpoints)"

definition main_router :: "('n, 'sb) Net \<Rightarrow> Config \<Rightarrow> 'sb Router" where
  "main_router net cfg = NewRouter net
     (or_default (cfg_HorizonEndpoints cfg) ''https://horizon-testnet.stellar.org'')
     (or_default (cfg_SorobanEndpoints cfg) ''https://soroban-testnet.stellar.org'')"

text \<open>
  \<open>main\<close> hands the router itself to the pool as its Horizon client, which has no \<open>Account\<close> method;
  the model hands over \<open>router.HorizonClient()\<close>, whose comment names this use. A nil client panics.
\<close>

definition main_horizon :: "('n, 'sb) Net \<Rightarrow> 'sb Router \<Rightarrow> (('n, 'sb) sys) HorizonAPI" where
  "main_horizon net rt =
     (case Router_HorizonClient rt of
        None \<Rightarrow> \<lparr>hz_Account = \<lambda>k. ret Panic\<rparr>
      | Some c \<Rightarrow> \<lparr>hz_Account = \<lambda>k. on_net (HorizonClient_Account net c k)\<rparr>)"

definition main_pool :: "('n, 'sb) Net \<Rightarrow> Config \<Rightarrow> (('n, 'sb) sys) Pool" where
  "main_pool net cfg = NewPool sys_PoolStore (main_horizon net (main_router net cfg))
     (cfg_MasterSeed cfg) (cfg_RefillBatchSize cfg)"

definition main_engine ::
  "parse_envelope \<Rightarrow> ('n, 'sb) Net \<Rightarrow> Config \<Rightarrow> (('n, 'sb) sys) Engine" where
  "main_engine parse net cfg =
     NewEngine sys_TxStore (sys_Submitter parse net) (main_pool net cfg) cfg"

definition main_world :: "('n, 'sb) Net \<Rightarrow> Config \<Rightarrow> pgdb \<Rightarrow> 'n \<Rightarrow> ('n, 'sb) sys" where
  "main_world net cfg d nw = \<lparr>sys_db = d, sys_router = main_router net cfg, sys_net = nw\<rparr>"

section \<open>Views of the world\<close>

definition sys_quiet :: "('n, 'sb) sys \<Rightarrow> bool" where
  "sys_quiet w \<longleftrightarrow> db_quiet (sys_db w)"

definition sys_txs :: "('n, 'sb) sys \<Rightarrow> uuid \<Rightarrow> tx_view option" where
  "sys_txs w = db_txs (sys_db w)"

definition sys_accts :: "('n, 'sb) sys \<Rightarrow> string \<Rightarrow> acct_view option" where
  "sys_accts w = db_accts (sys_db w)"

lemmas sys_views = sys_quiet_def sys_txs_def sys_accts_def

lemma sys_TxStore_sel [simp]:
  "ts_SaveTransaction sys_TxStore tx = on_db (Store_SaveTransaction tx)"
  "ts_UpdateTransactionStatus sys_TxStore i st ch er = on_db (Store_UpdateTransactionStatus i st ch er)"
  "ts_IncrementRetry sys_TxStore i = on_db (Store_IncrementRetry i)"
  "ts_GetPendingTransactions sys_TxStore n = on_db (Store_GetPendingTransactions n)"
  "ts_GetTransaction sys_TxStore i = on_db (Store_GetTransaction i)"
  "ts_GetTransactionForRetry sys_TxStore i = on_db (Store_GetTransactionForRetry i)"
  "ts_UpdateSequenceNumber sys_TxStore k q = on_db (Store_UpdateSequenceNumber k q)"
  by (simp_all add: sys_TxStore_def)

lemma sys_PoolStore_sel [simp]:
  "ps_LeaseChannelAccount sys_PoolStore = on_db Store_LeaseChannelAccount"
  "ps_ReleaseChannelAccount sys_PoolStore k t = on_db (Store_ReleaseChannelAccount k t)"
  "ps_ListChannelAccounts sys_PoolStore = on_db (Store_ListChannelAccounts None)"
  "ps_UpdateSequenceNumberIfIdle sys_PoolStore k q = on_db (Store_UpdateSequenceNumberIfIdle k q)"
  "ps_SaveChannelAccount sys_PoolStore a = on_db (Store_SaveChannelAccount a)"
  by (simp_all add: sys_PoolStore_def)

lemma main_pool_sel [simp]:
  "pl_store (main_pool net cfg) = sys_PoolStore"
  "pl_horizonCli (main_pool net cfg) = main_horizon net (main_router net cfg)"
  by (simp_all add: main_pool_def NewPool_def)

lemma main_engine_sel [simp]:
  "eg_store (main_engine parse net cfg) = sys_TxStore"
  "eg_router (main_engine parse net cfg) = sys_Submitter parse net"
  "eg_pool (main_engine parse net cfg) = main_pool net cfg"
  "eg_cfg (main_engine parse net cfg) = cfg"
  by (simp_all add: main_engine_def NewEngine_def)

lemma on_db_iff: "on_db m w = (r, w') \<longleftrightarrow> (\<exists>d. m (sys_db w) = (r, d) \<and> w' = w\<lparr>sys_db := d\<rparr>)"
  by (auto simp: on_db_def split: prod.splits)

lemma on_db_intro: "m (sys_db w) = (r, d) \<Longrightarrow> on_db m w = (r, w\<lparr>sys_db := d\<rparr>)"
  by (simp add: on_db_def)

lemma on_net_db [simp]: "sys_db (snd (on_net m w)) = sys_db w"
  by (simp add: on_net_def split: prod.split)

lemma on_router_db [simp]: "sys_db (snd (on_router m w)) = sys_db w"
  by (simp add: on_router_def split: prod.split)

lemma fst_on_db [simp]: "fst (on_db m w) = fst (m (sys_db w))"
  by (simp add: on_db_def split: prod.split)

lemma snd_on_db: "sys_db (snd (on_db m w)) = snd (m (sys_db w))"
  by (simp add: on_db_def split: prod.split)

text \<open>Saving a new transaction, with the database at rest.\<close>

lemma save_outcome:
  assumes "db_quiet d" "Store_SaveTransaction (pending_tx i x) d = (r, d')"
  shows "if pg_text_ok x \<and> db_txs d i = None then r = Ok () \<and> db_txs d' = (db_txs d)(i \<mapsto>
       \<lparr>av_env = x, av_status = TxStatusPending, av_chan = None, av_retry = 0, av_err = None\<rparr>)
     else (\<exists>e. r = Error e) \<and> db_txs d' = db_txs d"
  using assms(2) save_tx_views [OF assms]
  by (auto simp: Store_SaveTransaction_def wrap_err_def try_call_def quiet_pg_stmt [OF assms(1)] sql_insert_tx_def
      pending_tx_def int4_ok_def int4_max_def db_txs_None find_tx_None split: if_splits)

section \<open>The store's contracts hold in the world\<close>

interpretation sys_tx: tx_store sys_TxStore sys_quiet sys_txs sys_accts
proof (unfold_locales, unfold sys_TxStore_sel sys_views, goal_cases)
  case (1 w i t st ch er)
  then show ?case using pg_tx.update_found [of "sys_db w" i t st ch er] by (auto simp: on_db_def)
next
  case (2 w i st ch er)
  then show ?case using pg_tx.update_missing [of "sys_db w" i st ch er] by (auto simp: on_db_def)
next
  case (3 w i t)
  then show ?case using pg_tx.increment [of "sys_db w" i t] by (auto simp: on_db_def)
next
  case (4 w n r w')
  then show ?case using pg_tx.pending_frame [of "sys_db w" n r] by (auto simp: on_db_iff)
next
  case (5 w n ts w' tx)
  then show ?case using pg_tx.pending_sound [of "sys_db w" n ts _ tx] by (auto simp: on_db_iff)
next
  case (6 w i rt w')
  then show ?case using pg_tx.for_retry_frame [of "sys_db w" i rt] by (auto simp: on_db_iff)
next
  case (7 w i tx w')
  then show ?case using pg_tx.for_retry_sound [of "sys_db w" i tx] by (auto simp: on_db_iff)
next
  case (8 w i t ch er)
  then show ?case using pg_tx.for_retry_scannable [of "sys_db w" i t ch er] by (auto simp: on_db_def)
next
  case (9 w k a q)
  then show ?case using pg_tx.set_seq [of "sys_db w" k a q] by (auto simp: on_db_def)
qed

interpretation sys_pool: pool_store sys_PoolStore sys_quiet sys_txs sys_accts
proof (unfold_locales, unfold sys_PoolStore_sel sys_views, goal_cases)
  case (1 w ra w')
  then obtain d where "Store_LeaseChannelAccount (sys_db w) = (Ok ra, d)" "w' = w\<lparr>sys_db := d\<rparr>"
    by (auto simp: on_db_iff)
  then show ?case using pg_pool.lease_ok [of "sys_db w" ra d] 1 by simp
next
  case (2 w e w')
  then show ?case using pg_pool.lease_err [of "sys_db w" e] by (auto simp: on_db_iff)
next
  case (3 w k v)
  then obtain ra d where "Store_LeaseChannelAccount (sys_db w) = (Ok ra, d)"
    using pg_pool.lease_progress [of "sys_db w" k v] by auto
  then show ?case by (auto simp: on_db_def)
next
  case (4 w)
  then show ?case using pg_pool.lease_no_panic [of "sys_db w"] by simp
next
  case (5 w k v t)
  then show ?case using pg_pool.release [of "sys_db w" k v t] by (auto simp: on_db_def)
next
  case (6 w)
  then obtain rs d where "Store_ListChannelAccounts None (sys_db w) = (Ok rs, d)" "db_quiet d"
    "db_accts d = db_accts (sys_db w)" "db_txs d = db_txs (sys_db w)"
    "distinct (map ca_PublicKey rs)"
    "\<forall>k v. db_accts (sys_db w) k = Some v \<longleftrightarrow> (\<exists>r \<in> set rs. ca_PublicKey r = k \<and>
       v = \<lparr>aw_secret = ca_EncryptedSecret r, aw_status = ca_Status r,
            aw_seq = ca_SequenceNumber r, aw_last = ca_LastUsedAt r\<rparr>)"
    using pg_pool.list_ok [of "sys_db w"] unfolding pgPoolStore_sel by blast
  then show ?case
    by (intro exI [of _ rs] exI [of _ "w\<lparr>sys_db := d\<rparr>"]) (simp add: on_db_def)
next
  case (7 w k v n)
  then show ?case using pg_pool.set_seq_if_idle [of "sys_db w" k v n]
    by (auto simp: on_db_def split: if_splits)
next
  case (8 w a)
  then show ?case using pg_pool.save_new [of "sys_db w" a] by (auto simp: on_db_def)
next
  case (9 w a v)
  then show ?case using pg_pool.save_dup [of "sys_db w" a v] by (auto simp: on_db_def)
qed

interpretation main_lease: pool_client sys_PoolStore sys_quiet sys_txs sys_accts "main_pool net cfg"
  for net :: "('n, 'sb) Net" and cfg
  by unfold_locales simp

text \<open>No store call touches the router's counters or the network.\<close>

definition sys_side :: "('n, 'sb) sys \<Rightarrow> 'sb Router \<times> 'n" where
  "sys_side w = (sys_router w, sys_net w)"

lemma keeps_side_db: "keeps (\<lambda>w w'. sys_side w' = sys_side w) (on_db m)"
  by (simp add: keeps_def sys_side_def on_db_def split: prod.split)

interpretation main_side: kept_by_store_and_retry sys_TxStore sys_PoolStore
  "\<lambda>w w'. sys_side w' = sys_side w" UNIV
  by (unfold_locales, unfold sys_TxStore_sel sys_PoolStore_sel)
     (auto intro: keeps_side_db preorder_on_worldsI)

interpretation main_eng: engine_client sys_TxStore sys_PoolStore sys_quiet sys_txs sys_accts
  "main_pool net cfg" sys_side "main_engine parse net cfg"
  for parse and net :: "('n, 'sb) Net" and cfg
  by unfold_locales (auto simp: sys_Submitter_def sys_views on_router_def split: prod.splits)

text \<open>The wait of a retry ends by the network's clock or the context, without touching the store.\<close>

definition main_retry_env ::
  "parse_envelope \<Rightarrow> 'fb FeeBumpSDK \<Rightarrow> (f64 \<Rightarrow> i64) \<Rightarrow> (i64 \<Rightarrow> ('n, unit) op) \<Rightarrow> (('n, 'sb) sys, 'fb) retry_env"
where
  "main_retry_env parse fb conv wait =
     \<lparr>re_parse = parse, re_feebump = fb, re_conv = conv, re_wait = \<lambda>d. on_net (wait d)\<rparr>"

interpretation main_ret: retry_client sys_TxStore sys_PoolStore sys_quiet sys_txs sys_accts
  "main_pool net cfg" sys_side "main_engine parse net cfg" "main_retry_env parse fb conv wait"
  for parse and net :: "('n, 'sb) Net" and cfg fb conv wait
  by unfold_locales (auto simp: main_retry_env_def sys_views sys_side_def on_net_def split: prod.splits)

section \<open>A network that answers the same during a reconciliation\<close>

definition steady_net :: "(string \<Rightarrow> goerr + i64) \<Rightarrow> ('n, 'sb) Net \<Rightarrow> ('n, 'sb) Net" where
  "steady_net answers net = net\<lparr>net_LoadAccount := \<lambda>url k. ret (of_sum (answers k))\<rparr>"

text \<open>What the pool sees of the answers: errors are wrapped with the endpoint's URL.\<close>

definition seen_answers :: "HorizonClient \<Rightarrow> (string \<Rightarrow> goerr + i64) \<Rightarrow> string \<Rightarrow> goerr + i64" where
  "seen_answers c answers k =
     (case answers k of
        Inl e \<Rightarrow> Inl (Wrap [Lit ''loading account '', Lit k, Lit '' from horizon ('',
                            Lit (hc_baseURL c), Lit ''): ''] e)
      | Inr q \<Rightarrow> Inr q)"

definition main_endpoint :: "('n, 'sb) Net \<Rightarrow> Config \<Rightarrow> HorizonClient" where
  "main_endpoint net cfg = hd (rt_horizonClients (main_router net cfg))"

lemma main_router_nonempty: "rt_horizonClients (main_router net cfg) \<noteq> []"
  by (simp add: main_router_def NewRouter_def or_default_def)

lemma main_horizon_eq:
  "main_horizon net (main_router net cfg) =
     \<lparr>hz_Account = \<lambda>k. on_net (HorizonClient_Account net (main_endpoint net cfg) k)\<rparr>"
  using main_router_nonempty [of net cfg]
  by (simp add: main_horizon_def Router_HorizonClient_def main_endpoint_def hd_conv_nth)

interpretation main_sync: pool_sync sys_PoolStore sys_quiet sys_txs sys_accts
  "main_pool (steady_net answers net) cfg"
  "seen_answers (main_endpoint (steady_net answers net) cfg) answers"
  for answers and net :: "('n, 'sb) Net" and cfg
  by unfold_locales
     (auto simp: main_horizon_eq HorizonClient_Account_def steady_net_def on_net_def wrap_err_def
        try_call_def seen_answers_def split: sum.splits)

section \<open>Relations on the database, kept by the whole program\<close>

definition db_rel :: "(pgdb \<Rightarrow> pgdb \<Rightarrow> bool) \<Rightarrow> ('n, 'sb) sys \<Rightarrow> ('n, 'sb) sys \<Rightarrow> bool" where
  "db_rel R w w' \<longleftrightarrow> R (sys_db w) (sys_db w')"

lemma db_rel_preorder: "preorder_on_worlds R \<Longrightarrow> preorder_on_worlds (db_rel R)"
  unfolding db_rel_def preorder_on_worlds_def
  by (auto intro!: reflpI transpI dest: reflpD transpD)

lemma keeps_on_db: "keeps R m \<Longrightarrow> keeps (db_rel R) (on_db m)"
  by (simp add: keeps_def db_rel_def snd_on_db)

lemma keeps_on_net: "preorder_on_worlds R \<Longrightarrow> keeps (db_rel R) (on_net m)"
  by (simp add: keeps_def db_rel_def preorder_on_worlds_def reflpD)

lemma keeps_on_router: "preorder_on_worlds R \<Longrightarrow> keeps (db_rel R) (on_router m)"
  by (simp add: keeps_def db_rel_def preorder_on_worlds_def reflpD)

text \<open>
  A relation that the store's statements keep is kept by the engine of the whole program, in its
  own world.
\<close>

sublocale table_relation \<subseteq> world: kept_by_store sys_TxStore sys_PoolStore "db_rel R" I
  by (unfold_locales, unfold sys_TxStore_sel sys_PoolStore_sel)
     (intro db_rel_preorder pre keeps_on_db keeps_update keeps_pending keeps_get keeps_seq keeps_lease
        keeps_release keeps_list keeps_seq_if_idle; assumption)+

sublocale table_relation \<subseteq>
  eng: engine_keeps sys_TxStore sys_PoolStore "db_rel R" I "main_engine parse net cfg"
  for parse net cfg
  by unfold_locales (simp_all add: sys_Submitter_def keeps_on_router pre)

interpretation frame_eng: engine_keeps_retry sys_TxStore sys_PoolStore "db_rel (tx_frame i)" "{i}"
  "main_engine parse net cfg" for i parse net cfg
  by unfold_locales (simp add: keeps_on_db increment_frame)

text \<open>The key source of the whole program: random bytes come from outside the store.\<close>

definition main_keys ::
  "('n, 8 word list) op \<Rightarrow> (8 word list \<Rightarrow> goerr + (string \<times> string)) \<Rightarrow> (('n, 'sb) sys) key_source" where
  "main_keys rand derive = \<lparr>ks_Read = on_net rand, ks_FromRawEntropy = derive\<rparr>"

interpretation main_refill: pool_refill sys_PoolStore sys_quiet sys_txs sys_accts "main_pool net cfg"
  "main_keys rand derive" for net :: "('n, 'sb) Net" and cfg rand derive
  by unfold_locales (auto simp: main_keys_def sys_views on_net_def split: prod.splits)

lemma keeps_main_horizon:
  "preorder_on_worlds R \<Longrightarrow> keeps (db_rel R) (hz_Account (main_horizon net rt) k)"
  by (auto simp: main_horizon_def keeps_on_net db_rel_preorder intro: keeps_ret split: option.split)

definition same_txs :: "pgdb \<Rightarrow> pgdb \<Rightarrow> bool" where
  "same_txs d d' \<longleftrightarrow> pg_transactions d' = pg_transactions d"

lemma preorder_same_txs: "preorder_on_worlds same_txs"
  by (rule preorder_on_worldsI) (simp_all add: same_txs_def)

interpretation accounts_only: table_relation same_txs "{}"
  by unfold_locales (simp_all add: preorder_same_txs, simp_all add: same_txs_def)

lemma save_account_same_txs: "keeps same_txs (Store_SaveChannelAccount a)"
  unfolding Store_SaveChannelAccount_def
  by (intro keeps_wrap_err accounts_only.stmt) (simp add: sql_insert_account_def same_txs_def)

interpretation accounts_pool: pool_keeps sys_TxStore sys_PoolStore "db_rel same_txs" "{}"
  "main_pool net cfg" "main_keys rand derive" for net cfg rand derive
  by unfold_locales
     (simp_all add: keeps_main_horizon keeps_on_net keeps_on_db preorder_same_txs main_keys_def
        save_account_same_txs)

end
