(* ===== verification/Runs.thy ===== *)
theory Runs
  imports System
begin

text \<open>
  The operations of the engine and the pool, one after another in one process, under every fault of
  the database and every answer of the network. \<open>Retry\<close> is two events: it holds no lock and no other
  resource while it waits for its backoff, so anything may happen before it goes on. Theory
  \<open>Replicas\<close> interleaves the statements of the batches themselves.
\<close>

section \<open>Events\<close>

text \<open>The third-party functions and the outside world of a deployment.\<close>

record ('n, 'sb, 'fb) deploy =
  dp_parse :: parse_envelope
  dp_net :: "('n, 'sb) Net"
  dp_cfg :: Config
  dp_us :: "uuid \<Rightarrow> string"
  dp_now :: "('n, 'sb) sys \<Rightarrow> time"
  dp_uuid_New :: "('n, uuid) op"
  dp_rand :: "('n, 8 word list) op"
  dp_derive :: "8 word list \<Rightarrow> goerr + (string \<times> string)"
  dp_feebump :: "'fb FeeBumpSDK"
  dp_conv :: "f64 \<Rightarrow> i64"
  dp_wait :: "i64 \<Rightarrow> ('n, unit) op"

definition dp_engine :: "('n, 'sb, 'fb) deploy \<Rightarrow> (('n, 'sb) sys) Engine" where
  "dp_engine D = main_engine (dp_parse D) (dp_net D) (dp_cfg D)"

definition dp_pool :: "('n, 'sb, 'fb) deploy \<Rightarrow> (('n, 'sb) sys) Pool" where
  "dp_pool D = main_pool (dp_net D) (dp_cfg D)"

definition dp_keys :: "('n, 'sb, 'fb) deploy \<Rightarrow> (('n, 'sb) sys) key_source" where
  "dp_keys D = main_keys (dp_rand D) (dp_derive D)"

definition dp_retry :: "('n, 'sb, 'fb) deploy \<Rightarrow> (('n, 'sb) sys, 'fb) retry_env" where
  "dp_retry D = main_retry_env (dp_parse D) (dp_feebump D) (dp_conv D) (dp_wait D)"

text \<open>
  The state is the world and the retries in their wait, each with the transaction it has read.
  \<open>WakeEv k\<close> ends the wait of the k-th of them.
\<close>

type_synonym ('n, 'sb) running = "('n, 'sb) sys \<times> (uuid \<times> Transaction) list"

datatype event = EnqueueEv Request | TickEv | RetryEv uuid | WakeEv nat | SyncEv | RefillEv int

fun run_event :: "('n, 'sb, 'fb) deploy \<Rightarrow> event \<Rightarrow> ('n, 'sb) running \<Rightarrow> ('n, 'sb) running" where
  "run_event D (EnqueueEv req) (w, ps) =
     (snd (Enqueue (dp_parse D) (on_net (dp_uuid_New D)) (dp_engine D) req w), ps)"
| "run_event D TickEv (w, ps) = (snd (processBatch (dp_us D) (dp_now D) (dp_engine D) w), ps)"
| "run_event D (RetryEv i) (w, ps) =
     (case retry_read (dp_engine D) i w of (Ok tx, w') \<Rightarrow> (w', ps @ [(i, tx)]) | (_, w') \<Rightarrow> (w', ps))"
| "run_event D (WakeEv k) (w, ps) =
     (if k < length ps
      then (snd (retry_resume (dp_retry D) (dp_engine D) (fst (ps ! k)) (snd (ps ! k)) w),
            take k ps @ drop (Suc k) ps)
      else (w, ps))"
| "run_event D SyncEv (w, ps) = (snd (SyncSequenceNumbers (dp_pool D) w), ps)"
| "run_event D (RefillEv n) (w, ps) = (snd (Refill (dp_keys D) (dp_pool D) n w), ps)"

definition run_events :: "('n, 'sb, 'fb) deploy \<Rightarrow> event list \<Rightarrow> ('n, 'sb) running \<Rightarrow> ('n, 'sb) running" where
  "run_events D evs s = fold (run_event D) evs s"

lemma run_events_simps [simp]:
  "run_events D [] s = s" "run_events D (ev # evs) s = run_events D evs (run_event D ev s)"
  by (simp_all add: run_events_def)

text \<open>A retry that nothing comes between: reading and waking is \<open>Retry\<close>.\<close>

lemma retry_read_then_wake:
  "run_event D (WakeEv (length ps)) (run_event D (RetryEv i) (w, ps)) =
     (snd (Retry (dp_retry D) (dp_engine D) i w), ps)"
  by (cases "fst (retry_read (dp_engine D) i w)") (auto simp: Retry_def try_call_def split: prod.split)

text \<open>A read that is not admitted leaves no retry waiting.\<close>

lemma RetryEv_cases:
  obtains (admitted) tx w' where "retry_read (dp_engine D) i w = (Ok tx, w')"
      "run_event D (RetryEv i) (w, ps) = (w', ps @ [(i, tx)])"
  | (refused) r w' where "retry_read (dp_engine D) i w = (r, w')" "\<forall>tx. r \<noteq> Ok tx"
      "run_event D (RetryEv i) (w, ps) = (w', ps)"
  by (cases "retry_read (dp_engine D) i w"; cases "fst (retry_read (dp_engine D) i w)") auto

section \<open>Relations on the database that every run keeps\<close>

lemma keeps_Enqueue:
  assumes "preorder_on_worlds R"
    and "\<And>i x. keeps R (Store_SaveTransaction (pending_tx i x))"
  shows "keeps (db_rel R) (Enqueue parse (on_net new) (main_engine parse' net cfg) req)"
proof -
  have "keeps (db_rel R)
      (try_call (on_net new)
        (\<lambda>i. try_call (ts_SaveTransaction sys_TxStore (pending_tx i (rq_EnvelopeXDR req)))
           (\<lambda>_. ret (Ok i)) (\<lambda>err. ret (Error (Wrap [Lit ''enqueuing transaction: ''] err))))
        (\<lambda>err. ret Panic))"
    unfolding sys_TxStore_sel
    by (intro keeps_try_call keeps_ret db_rel_preorder keeps_on_net keeps_on_db assms)
  then show ?thesis
    unfolding Enqueue_def main_engine_sel
    by (auto intro: keeps_ret db_rel_preorder assms(1) split: sum.split)
qed

lemma pending_tx_status [simp]: "tx_Status (pending_tx i x) = TxStatusPending"
  by (simp add: pending_tx_def)

lemma keeps_main_wait: "preorder_on_worlds R \<Longrightarrow> keeps (db_rel R) (re_wait (dp_retry D) d)"
  by (simp add: dp_retry_def main_retry_env_def keeps_on_net)

text \<open>
  A relation that the statements keep, the insertions and the increment included, is kept by every
  event and every run, from any retries already waiting.
\<close>

locale event_relation = table_relation R UNIV for R :: "pgdb \<Rightarrow> pgdb \<Rightarrow> bool" +
  assumes increment: "keeps R (Store_IncrementRetry i)"
    and save_tx: "keeps R (Store_SaveTransaction (pending_tx i x))"
    and save_account: "ca_Status a = AccountStatusIdle \<Longrightarrow> keeps R (Store_SaveChannelAccount a)"

sublocale event_relation \<subseteq>
  retry: engine_keeps_retry sys_TxStore sys_PoolStore "db_rel R" UNIV "main_engine parse net cfg"
  for parse net cfg
  by unfold_locales (simp add: keeps_on_db increment)

sublocale event_relation \<subseteq>
  accounts: pool_keeps sys_TxStore sys_PoolStore "db_rel R" UNIV "main_pool net cfg" "main_keys rand derive"
  for net cfg rand derive
  by unfold_locales
     (simp_all add: keeps_main_horizon keeps_on_net keeps_on_db pre main_keys_def save_account)

context event_relation
begin

lemma same: "db_rel R w w"
  by (simp add: db_rel_def refl_R)

lemma event: "db_rel R w (fst (run_event D ev (w, ps)))"
proof (cases ev)
  case (EnqueueEv req)
  then show ?thesis using keepsD [OF keeps_Enqueue [OF pre save_tx]] by (simp add: dp_engine_def)
next
  case TickEv
  then show ?thesis using keepsD [OF eng.keeps_processBatch] by (simp add: dp_engine_def)
next
  case (RetryEv i)
  have "db_rel R w (snd (retry_read (dp_engine D) i w))"
    using keepsD [OF retry.keeps_read] by (simp add: dp_engine_def)
  then show ?thesis unfolding RetryEv by (cases rule: RetryEv_cases [of D i w ps]) simp_all
next
  case (WakeEv k)
  have "db_rel R w (snd (retry_resume (dp_retry D) (dp_engine D) i tx w))" for i tx
    using keepsD [OF retry.keeps_resume [OF UNIV_I keeps_main_wait [OF pre]]] by (simp add: dp_engine_def)
  then show ?thesis using WakeEv by (simp add: same)
next
  case SyncEv
  then show ?thesis using keepsD [OF accounts.keeps_Sync] by (simp add: dp_pool_def)
next
  case (RefillEv n)
  then show ?thesis using keepsD [OF accounts.keeps_Refill] by (simp add: dp_pool_def dp_keys_def)
qed

lemma run: "db_rel R w (fst (run_events D evs (w, ps)))"
proof (induction evs arbitrary: w ps)
  case Nil
  show ?case by (simp add: same)
next
  case (Cons ev evs)
  obtain w1 ps1 where s: "run_event D ev (w, ps) = (w1, ps1)" by fastforce
  have "db_rel R w w1" using event [of w D ev ps] s by simp
  then show ?case
    using Cons [of w1 ps1] db_rel_preorder [OF pre] s
    unfolding preorder_on_worlds_def by (auto dest: transpD)
qed

end

interpretation history_run: event_relation tx_history
  by unfold_locales (simp_all add: increment_keeps save_tx_keeps save_account_keeps)

interpretation wf_run: event_relation keeps_ok
  by unfold_locales (simp_all add: increment_keeps save_tx_keeps save_account_keeps)

section \<open>What the engine reads\<close>

lemma read_pending_row:
  assumes "Store_GetPendingTransactions n d = (Ok txs, d')" "tx \<in> set txs"
  shows "\<exists>r \<in> set (pg_transactions d). tr_id r = tx_ID tx \<and> tr_status r = TxStatusPending"
proof -
  have "collect_rows (scan_tx (pg_scan_null d)) (take (nat n) (pending_rows (pg_transactions d)))
      = Ok txs"
    using assms(1)
    by (auto simp: Store_GetPendingTransactions_def try_call_def wrap_err_def pg_query_def
        sql_select_pending_def split: option.splits fault.splits if_splits res.splits prod.splits)
  then obtain r where "r \<in> set (take (nat n) (pending_rows (pg_transactions d)))"
      "scan_tx (pg_scan_null d) r = Ok tx"
    using collect_rows_mem assms(2) by metis
  then show ?thesis
    by (auto simp: scan_tx_Ok pending_rows_set TxStatusPending_def dest!: in_set_takeD)
qed

lemma read_retry_row:
  assumes "Store_GetTransactionForRetry i d = (Ok tx, d')"
  shows "\<exists>r. find_tx i (pg_transactions d) = Some r \<and> tr_status r = tx_Status tx \<and>
    tr_retry_count r = tx_RetryCount tx"
  using assms
  by (auto simp: Store_GetTransactionForRetry_def wrap_err_def try_call_def pg_stmt_def sql_select_tx_def
      scan_tx_Ok split: option.splits fault.splits res.splits prod.splits)

text \<open>The first part of a retry reads one row: a failed one below the maximum, if it is admitted.\<close>

lemma read_frame:
  assumes "retry_read (dp_engine D) i w = (x, w')"
  shows "pg_transactions (sys_db w') = pg_transactions (sys_db w) \<and>
    pg_channel_accounts (sys_db w') = pg_channel_accounts (sys_db w) \<and> sys_side w' = sys_side w \<and>
    (\<forall>tx. x = Ok tx \<longrightarrow> tx_Status tx = TxStatusFailed \<and> tx_RetryCount tx < cfg_MaxRetryAttempts (dp_cfg D) \<and>
       (\<exists>r. find_tx i (pg_transactions (sys_db w)) = Some r \<and> scan_tx (pg_scan_null (sys_db w)) r = Ok tx))"
proof -
  obtain g d where g: "Store_GetTransactionForRetry i (sys_db w) = (g, d)"
    by (cases "Store_GetTransactionForRetry i (sys_db w)")
  have d: "pg_transactions d = pg_transactions (sys_db w)" "pg_channel_accounts d = pg_channel_accounts (sys_db w)"
    "\<forall>tx. g = Ok tx \<longrightarrow> (\<exists>r. find_tx i (pg_transactions (sys_db w)) = Some r \<and> scan_tx (pg_scan_null (sys_db w)) r = Ok tx)"
    using g by (auto simp: Store_GetTransactionForRetry_def wrap_err_def try_call_def pg_stmt_def sql_select_tx_def
        split: option.splits fault.splits res.splits prod.splits)
  have "w' = w\<lparr>sys_db := d\<rparr> \<and> (\<forall>tx. x = Ok tx \<longrightarrow> g = Ok tx \<and> tx_Status tx = TxStatusFailed \<and>
      tx_RetryCount tx < cfg_MaxRetryAttempts (dp_cfg D))"
    using assms g
    by (cases g) (auto simp: retry_read_def dp_engine_def try_call_def on_db_def split: if_splits)
  then show ?thesis using d by (simp add: sys_side_def)
qed

lemma read_admitted:
  assumes "retry_read (dp_engine D) i w = (Ok tx, w')"
  obtains r where "find_tx i (pg_transactions (sys_db w)) = Some r" "tr_status r = TxStatusFailed"
    "tr_retry_count r < cfg_MaxRetryAttempts (dp_cfg D)" "scan_tx (pg_scan_null (sys_db w)) r = Ok tx"
proof -
  obtain r where "find_tx i (pg_transactions (sys_db w)) = Some r" "scan_tx (pg_scan_null (sys_db w)) r = Ok tx"
    "tx_Status tx = TxStatusFailed" "tx_RetryCount tx < cfg_MaxRetryAttempts (dp_cfg D)"
    using read_frame [OF assms] by blast
  then show ?thesis using that scan_tx_Ok by metis
qed

section \<open>Which rows an event can change\<close>

lemma read_same_txs:
  "keeps same_txs (Store_GetPendingTransactions n)" "keeps same_txs (Store_GetTransactionForRetry i)"
  by (rule accounts_only.keeps_pending accounts_only.keeps_get)+

text \<open>Transaction j in a given row, through one event.\<close>

definition same_row :: "uuid \<Rightarrow> ('n, 'sb) sys \<Rightarrow> ('n, 'sb) sys \<Rightarrow> bool" where
  "same_row j w w' \<longleftrightarrow>
     find_tx j (pg_transactions (sys_db w')) = find_tx j (pg_transactions (sys_db w))"

lemma frame_same_row: "db_rel (tx_frame i) w w' \<Longrightarrow> i \<noteq> j \<Longrightarrow> same_row j w w'"
  by (simp add: db_rel_def tx_frame_def same_row_def)

lemma same_txs_same_row: "db_rel same_txs w w' \<Longrightarrow> same_row j w w'"
  by (simp add: db_rel_def same_txs_def same_row_def)

lemma same_row_trans: "same_row j u v \<Longrightarrow> same_row j v w \<Longrightarrow> same_row j u w"
  by (simp add: same_row_def)

lemma batch_same_row:
  assumes ok: "db_ok (sys_db w)" and r: "find_tx j (pg_transactions (sys_db w)) = Some r"
    and np: "tr_status r \<noteq> TxStatusPending"
  shows "same_row j w (snd (processBatch us now (main_engine parse net cfg) w))"
proof -
  let ?E = "main_engine parse net cfg"
  obtain g d where g: "Store_GetPendingTransactions 1 (sys_db w) = (g, d)"
    by (cases "Store_GetPendingTransactions 1 (sys_db w)")
  let ?w = "w\<lparr>sys_db := d\<rparr>"
  have s: "same_row j w ?w"
    using keeps_result [OF read_same_txs(1) g] by (simp add: same_row_def same_txs_def)
  have b: "processBatch us now ?E w =
      (case g of Ok (tx # _) \<Rightarrow> process_one us now ?E tx ?w | Panic \<Rightarrow> (Panic, ?w) | _ \<Rightarrow> (Ok (), ?w))"
    using g by (cases g) (auto simp: processBatch_def try_call_def on_db_def split: list.split)
  show ?thesis
  proof (cases "\<exists>tx rest. g = Ok (tx # rest)")
    case True
    then obtain tx rest where tx: "g = Ok (tx # rest)" by blast
    then obtain r' where r': "r' \<in> set (pg_transactions (sys_db w))" "tr_id r' = tx_ID tx"
        "tr_status r' = TxStatusPending"
      using read_pending_row g by (metis list.set_intros(1))
    have "distinct (map tr_id (pg_transactions (sys_db w)))"
      using ok by (simp add: db_ok_def keys_ok_def)
    then have "find_tx (tx_ID tx) (pg_transactions (sys_db w)) = Some r'"
      using r' by (simp add: find_tx_def find_Some_iff_distinct)
    then have ne: "tx_ID tx \<noteq> j" using r np r'(3) by auto
    have "db_rel (tx_frame (tx_ID tx)) ?w (snd (process_one us now ?E tx ?w))"
      by (rule keepsD [OF frame.eng.keeps_process_one]) simp
    then have "same_row j ?w (snd (process_one us now ?E tx ?w))"
      using frame_same_row ne by blast
    then show ?thesis using b tx same_row_trans [OF s] by simp
  next
    case False
    then have "snd (processBatch us now ?E w) = ?w"
      using b by (auto split: res.split list.split)
    then show ?thesis using s by simp
  qed
qed

text \<open>Enqueueing never touches a stored transaction.\<close>

definition rows_stay :: "pgdb \<Rightarrow> pgdb \<Rightarrow> bool" where
  "rows_stay d d' \<longleftrightarrow> (\<forall>i r. find_tx i (pg_transactions d) = Some r \<longrightarrow> find_tx i (pg_transactions d') = Some r)"

lemma preorder_rows_stay: "preorder_on_worlds rows_stay"
  by (rule preorder_on_worldsI) (auto simp: rows_stay_def)

lemma save_rows_stay: "keeps rows_stay (Store_SaveTransaction tx)"
  unfolding Store_SaveTransaction_def
  by (intro keeps_wrap_err keeps_pg_stmt preorder_rows_stay)
     (auto simp: sql_insert_tx_def rows_stay_def find_tx_def find_append)

text \<open>A transaction that is neither pending nor failed, and for which no retry waits, stays as it is.\<close>

lemma settled_event:
  assumes ok: "db_ok (sys_db w)" and r: "find_tx j (pg_transactions (sys_db w)) = Some r"
    and c: "tr_status r \<notin> {TxStatusPending, TxStatusFailed}" and j: "j \<notin> fst ` set ps"
    and s: "run_event D ev (w, ps) = (w', ps')"
  shows "same_row j w w' \<and> j \<notin> fst ` set ps'"
proof (cases ev)
  case (EnqueueEv req)
  then have "same_row j w w'"
    using s r keepsD [OF keeps_Enqueue [OF preorder_rows_stay save_rows_stay], of w]
    by (auto simp: db_rel_def rows_stay_def same_row_def dp_engine_def)
  then show ?thesis using EnqueueEv s j by simp
next
  case TickEv
  then show ?thesis using s j batch_same_row [OF ok r] c by (auto simp: dp_engine_def)
next
  case (RetryEv i)
  show ?thesis
  proof (cases rule: RetryEv_cases [of D i w ps])
    case (admitted tx w1)
    obtain r1 where "find_tx i (pg_transactions (sys_db w)) = Some r1" "tr_status r1 = TxStatusFailed"
      using read_admitted [OF admitted(1)] by blast
    then have "i \<noteq> j" using r c by auto
    then show ?thesis
      using s RetryEv admitted j read_frame [OF admitted(1)] by (auto simp: same_row_def)
  next
    case (refused x w1)
    then show ?thesis using s RetryEv j read_frame [OF refused(1)] by (auto simp: same_row_def)
  qed
next
  case (WakeEv k)
  show ?thesis
  proof (cases "k < length ps")
    case True
    then have ne: "fst (ps ! k) \<noteq> j" using j by (metis image_eqI nth_mem)
    have "db_rel (tx_frame (fst (ps ! k))) w w'"
      using s WakeEv True keepsD [OF frame_eng.keeps_resume [OF singletonI keeps_main_wait [OF preorder_tx_frame]]]
      by (auto simp: dp_engine_def)
    moreover have "set ps' \<subseteq> set ps" using s WakeEv True by (auto dest: in_set_takeD in_set_dropD)
    ultimately show ?thesis using frame_same_row ne j by blast
  qed (use s WakeEv j in \<open>simp add: same_row_def\<close>)
next
  case SyncEv
  then show ?thesis
    using s j same_txs_same_row [OF keepsD [OF accounts_pool.keeps_Sync]] by (auto simp: dp_pool_def)
next
  case (RefillEv n)
  then show ?thesis
    using s j same_txs_same_row [OF keepsD [OF accounts_pool.keeps_Refill]]
    by (auto simp: dp_pool_def dp_keys_def)
qed

lemma settled_run:
  assumes "db_ok (sys_db w)" "find_tx j (pg_transactions (sys_db w)) = Some r"
    "tr_status r \<notin> {TxStatusPending, TxStatusFailed}" "j \<notin> fst ` set ps"
  shows "find_tx j (pg_transactions (sys_db (fst (run_events D evs (w, ps))))) = Some r"
  using assms
proof (induction evs arbitrary: w ps)
  case (Cons ev evs)
  obtain w' ps' where s: "run_event D ev (w, ps) = (w', ps')" by fastforce
  have "db_ok (sys_db w')"
    using wf_run.event [of w D ev ps] Cons.prems(1) s by (simp add: db_rel_def keeps_ok_def)
  then show ?case
    using Cons.IH [of w' ps'] settled_event [OF Cons.prems s] Cons.prems(2,3) s by (simp add: same_row_def)
qed simp

section \<open>The bound of the retry counter\<close>

text \<open>Every stored counter is between zero and m.\<close>

definition retries_within :: "int \<Rightarrow> pgdb \<Rightarrow> bool" where
  "retries_within m d \<longleftrightarrow>
     (\<forall>i r. find_tx i (pg_transactions d) = Some r \<longrightarrow> 0 \<le> tr_retry_count r \<and> tr_retry_count r \<le> m)"

text \<open>How many retries of a transaction are in their wait.\<close>

definition waiting_for :: "uuid \<Rightarrow> ('n, 'sb) running \<Rightarrow> nat" where
  "waiting_for i s = count_list (map fst (snd s)) i"

text \<open>The counter of a transaction, and what an event can do to it.\<close>

definition counter :: "uuid \<Rightarrow> pgdb \<Rightarrow> int option" where
  "counter i d = map_option tr_retry_count (find_tx i (pg_transactions d))"

lemma same_retries_counter: "same_retries d d' \<Longrightarrow> counter j d' = counter j d"
  by (simp add: same_retries_def counter_def)

lemma increment_counter:
  "\<exists>eff. \<forall>j. counter j (snd (Store_IncrementRetry i d)) =
     (if eff \<and> j = i then map_option (\<lambda>c. c + 1) (counter j d) else counter j d)"
proof -
  let ?bump = "\<lambda>eff d'. \<forall>j. counter j d' =
     (if eff \<and> j = i then map_option (\<lambda>c. c + 1) (counter j d) else counter j d)"
  let ?sql = "\<lambda>n. snd (sql_increment_retry i n (pg_tick d))"
  have tick: "?bump False (pg_tick d)" by (simp add: counter_def)
  have ran: "\<exists>eff. ?bump eff (?sql n)" for n
  proof (cases "list_all (\<lambda>r. tr_id r = i \<longrightarrow> int4_ok (tr_retry_count r + 1)) (pg_transactions (pg_tick d))")
    case True
    then have "?bump True (?sql n)"
      by (simp add: sql_increment_retry_def counter_def find_tx_update option.map_comp comp_def)
    then show ?thesis by blast
  next
    case False
    then have "?sql n = pg_tick d" by (simp add: sql_increment_retry_def)
    then show ?thesis using tick by metis
  qed
  have "snd (Store_IncrementRetry i d) = pg_tick d \<or> (\<exists>n. snd (Store_IncrementRetry i d) = ?sql n)"
    by (auto simp: Store_IncrementRetry_def pg_stmt_def split: option.split fault.split)
  then show ?thesis using tick ran by metis
qed

lemma resume_counter:
  "\<exists>eff. \<forall>j. counter j (sys_db (snd (retry_resume (dp_retry D) (dp_engine D) i tx w))) =
     (if eff \<and> j = i then map_option (\<lambda>c. c + 1) (counter j (sys_db w)) else counter j (sys_db w))"
proof -
  let ?v = "dp_retry D" and ?E = "dp_engine D"
  let ?d = "backoffDuration (re_conv ?v) (tx_RetryCount tx) (cfg_RetryBaseDelay (eg_cfg ?E)) (cfg_RetryMultiplier (eg_cfg ?E))"
  obtain x w1 where x: "re_wait ?v ?d w = (x, w1)" by (cases "re_wait ?v ?d w")
  have d1: "sys_db w1 = sys_db w"
    using arg_cong [OF x, of snd] by (auto simp: dp_retry_def main_retry_env_def)
  show ?thesis
  proof (cases "x = Ok ()")
    case ok: True
    show ?thesis
    proof (cases "createFeeBump (re_parse ?v) (re_feebump ?v) tx")
      case (Inl e)
      then show ?thesis
        using x ok d1 by (intro exI [of _ False]) (simp add: retry_resume_def retry_submit_def try_call_def)
    next
      case (Inr fb)
      obtain y d2 where y: "Store_IncrementRetry i (sys_db w1) = (y, d2)"
        by (cases "Store_IncrementRetry i (sys_db w1)")
      obtain eff where e: "\<forall>j. counter j d2 =
          (if eff \<and> j = i then map_option (\<lambda>c. c + 1) (counter j (sys_db w1)) else counter j (sys_db w1))"
        using increment_counter [of i "sys_db w1"] unfolding y snd_conv by blast
      have "db_rel same_retries (w1\<lparr>sys_db := d2\<rparr>) (snd (retry_resubmit ?E i fb (w1\<lparr>sys_db := d2\<rparr>)))"
        unfolding dp_engine_def by (rule keepsD [OF retries.eng.keeps_resubmit]) simp
      then have s: "counter j (sys_db (snd (retry_resubmit ?E i fb (w1\<lparr>sys_db := d2\<rparr>)))) = counter j d2" for j
        using same_retries_counter by (fastforce simp: db_rel_def)
      have "snd (retry_resume ?v ?E i tx w) =
          (if y = Ok () then snd (retry_resubmit ?E i fb (w1\<lparr>sys_db := d2\<rparr>)) else w1\<lparr>sys_db := d2\<rparr>)"
        using x ok Inr y
        by (cases y) (simp_all add: retry_resume_def retry_submit_def try_call_def dp_engine_def on_db_def)
      then show ?thesis using e s d1 by (intro exI [of _ eff]) simp
    qed
  next
    case False
    then have "snd (retry_resume ?v ?E i tx w) = w1"
      using x by (cases x) (simp_all add: retry_resume_def try_call_def)
    then show ?thesis using d1 by (intro exI [of _ False]) simp
  qed
qed

lemma enqueue_counter:
  "counter j (sys_db (fst (run_event D (EnqueueEv req) (w, ps)))) = counter j (sys_db w) \<or>
   counter j (sys_db w) = None \<and> counter j (sys_db (fst (run_event D (EnqueueEv req) (w, ps)))) = Some 0"
proof -
  define R where "R = (\<lambda>d d'. counter j d' = counter j d \<or> counter j d = None \<and> counter j d' = Some 0)"
  have pre: "preorder_on_worlds R" by (rule preorder_on_worldsI) (auto simp: R_def)
  have "keeps R (Store_SaveTransaction (pending_tx i x))" for i x
    unfolding Store_SaveTransaction_def
    by (intro keeps_wrap_err keeps_pg_stmt pre)
       (auto simp: R_def sql_insert_tx_def counter_def find_tx_def find_append pending_tx_def split: option.split)
  from keepsD [OF keeps_Enqueue [OF pre this], of w] show ?thesis
    by (simp add: db_rel_def R_def dp_engine_def)
qed

text \<open>
  The invariant: a counter, with one for each retry that waits, is at most m + K - 1, if at most K
  retries of a transaction wait at once; nothing waits when m leaves no retry.
\<close>

definition retry_inv :: "int \<Rightarrow> nat \<Rightarrow> ('n, 'sb) running \<Rightarrow> bool" where
  "retry_inv m K s \<longleftrightarrow> (m \<le> 0 \<longrightarrow> snd s = []) \<and>
     (\<forall>i c. counter i (sys_db (fst s)) = Some c \<longrightarrow> 0 \<le> c \<and> c + int (waiting_for i s) \<le> max 0 m + int K - 1)"

lemma retry_inv_event:
  assumes inv: "retry_inv (cfg_MaxRetryAttempts (dp_cfg D)) K (w, ps)" and K: "1 \<le> K"
    and few: "\<forall>i. waiting_for i (w, ps) \<le> K" "\<forall>i. waiting_for i (run_event D ev (w, ps)) \<le> K"
  shows "retry_inv (cfg_MaxRetryAttempts (dp_cfg D)) K (run_event D ev (w, ps))"
proof -
  let ?m = "cfg_MaxRetryAttempts (dp_cfg D)"
  have same: "retry_inv ?m K (w', ps)" if "\<And>j. counter j (sys_db w') = counter j (sys_db w)" for w'
    using inv that by (simp add: retry_inv_def waiting_for_def)
  have retries: "counter j (sys_db w') = counter j (sys_db w)" if "db_rel same_retries w w'" for j w'
    using that same_retries_counter by (simp add: db_rel_def)
  have txs: "counter j (sys_db w') = counter j (sys_db w)"
    if "pg_transactions (sys_db w') = pg_transactions (sys_db w)" for j w'
    using that by (simp add: counter_def)
  have stay: "retry_inv ?m K (w', ps)" if "db_rel same_txs w w'" for w'
    using same [OF txs] that by (simp add: db_rel_def same_txs_def)
  show ?thesis
  proof (cases ev)
    case (EnqueueEv req)
    obtain w' where w': "run_event D ev (w, ps) = (w', ps)" using EnqueueEv by simp
    have "0 \<le> c \<and> c + int (waiting_for j (w, ps)) \<le> max 0 ?m + int K - 1"
      if "counter j (sys_db w') = Some c" for j c
      using enqueue_counter [of j D req w ps] EnqueueEv w' that inv K few(1) [rule_format, of j]
      by (cases "?m \<le> 0") (auto simp: retry_inv_def waiting_for_def)
    then show ?thesis using inv w' by (simp add: retry_inv_def waiting_for_def)
  next
    case TickEv
    then show ?thesis using same [OF retries [OF keepsD [OF retries.eng.keeps_processBatch]]] by (simp add: dp_engine_def)
  next
    case (RetryEv i)
    show ?thesis
    proof (cases rule: RetryEv_cases [of D i w ps])
      case (admitted tx w')
      obtain r where r: "find_tx i (pg_transactions (sys_db w)) = Some r" "tr_retry_count r < ?m"
        using read_admitted [OF admitted(1)] by blast
      have t: "counter j (sys_db w') = counter j (sys_db w)" for j
        using txs read_frame [OF admitted(1)] by blast
      have c: "counter i (sys_db w) = Some (tr_retry_count r)" using r(1) by (simp add: counter_def)
      then have "0 \<le> tr_retry_count r" using inv unfolding retry_inv_def fst_conv by blast
      then have m: "0 < ?m" using r(2) by simp
      have "0 \<le> c \<and> c + int (waiting_for j (w', ps @ [(i, tx)])) \<le> max 0 ?m + int K - 1"
        if "counter j (sys_db w) = Some c" for j c
        using that inv c r(2) few(2) [rule_format, of j] admitted(2) RetryEv m
        by (cases "j = i") (auto simp: retry_inv_def waiting_for_def)
      then show ?thesis using RetryEv admitted(2) t m by (simp add: retry_inv_def)
    next
      case (refused x w')
      then have "retry_inv ?m K (w', ps)" using same [OF txs] read_frame [OF refused(1)] by blast
      then show ?thesis using RetryEv refused(3) by simp
    qed
  next
    case (WakeEv k)
    show ?thesis
    proof (cases "k < length ps")
      case True
      let ?i = "fst (ps ! k)" and ?ps = "take k ps @ drop (Suc k) ps"
      obtain w' where w': "run_event D ev (w, ps) = (w', ?ps)"
        "w' = snd (retry_resume (dp_retry D) (dp_engine D) ?i (snd (ps ! k)) w)"
        using WakeEv True by simp
      obtain eff where e: "\<forall>j. counter j (sys_db w') =
          (if eff \<and> j = ?i then map_option (\<lambda>c. c + 1) (counter j (sys_db w)) else counter j (sys_db w))"
        using resume_counter [of D ?i "snd (ps ! k)" w] w'(2) by blast
      have "map fst ps = map fst (take k ps) @ ?i # map fst (drop (Suc k) ps)"
        using id_take_nth_drop [OF True] by (metis list.simps(9) map_append)
      then have n: "waiting_for j (w, ps) = waiting_for j (w', ?ps) + (if j = ?i then 1 else 0)" for j
        by (simp add: waiting_for_def)
      have "0 \<le> c \<and> c + int (waiting_for j (w', ?ps)) \<le> max 0 ?m + int K - 1"
        if now: "counter j (sys_db w') = Some c" for j c
      proof -
        have "\<exists>c0. counter j (sys_db w) = Some c0 \<and> (c = c0 \<or> c = c0 + 1 \<and> j = ?i)"
          using e [rule_format, of j] now by (cases "counter j (sys_db w)") (auto split: if_splits)
        then obtain c0 where c0: "counter j (sys_db w) = Some c0" "c = c0 \<or> c = c0 + 1 \<and> j = ?i" by blast
        then have "0 \<le> c0 \<and> c0 + int (waiting_for j (w, ps)) \<le> max 0 ?m + int K - 1"
          using inv by (simp add: retry_inv_def)
        then show ?thesis using c0(2) n [of j] by auto
      qed
      moreover have "?m \<le> 0 \<longrightarrow> ?ps = []" using inv True by (auto simp: retry_inv_def)
      ultimately show ?thesis using w'(1) by (simp add: retry_inv_def)
    qed (use WakeEv inv in simp)
  next
    case SyncEv
    then show ?thesis
      using stay [OF keepsD [OF accounts_pool.keeps_Sync]] by (simp add: dp_pool_def)
  next
    case (RefillEv n)
    then show ?thesis
      using stay [OF keepsD [OF accounts_pool.keeps_Refill]] by (simp add: dp_pool_def dp_keys_def)
  qed
qed

lemma retry_inv_run:
  assumes "retry_inv (cfg_MaxRetryAttempts (dp_cfg D)) K s" "1 \<le> K"
    and "\<forall>n i. waiting_for i (run_events D (take n evs) s) \<le> K"
  shows "retry_inv (cfg_MaxRetryAttempts (dp_cfg D)) K (run_events D evs s)"
  using assms
proof (induction evs arbitrary: s)
  case (Cons ev evs)
  obtain w ps where s: "s = (w, ps)" by fastforce
  have few: "waiting_for i s \<le> K" "waiting_for i (run_event D ev s) \<le> K" for i
    using Cons.prems(3) [rule_format, of i 0] Cons.prems(3) [rule_format, of i 1] by simp_all
  have "\<forall>n i. waiting_for i (run_events D (take n evs) (run_event D ev s)) \<le> K"
    using Cons.prems(3) by (metis run_events_simps(2) take_Suc_Cons)
  then show ?case
    using Cons.IH retry_inv_event [of D K w ps ev] Cons.prems(1,2) few s by simp
qed simp

text \<open>No more retries wait than have been read.\<close>

lemma waiting_for_read:
  "waiting_for i (run_events D evs s) \<le> waiting_for i s + length (filter (\<lambda>e. e = RetryEv i) evs)"
proof (induction evs arbitrary: s)
  case (Cons ev evs)
  obtain w ps where s: "s = (w, ps)" by fastforce
  have "waiting_for i (run_event D ev s) \<le> waiting_for i s + (if ev = RetryEv i then 1 else 0)"
  proof (cases ev)
    case (RetryEv j)
    then show ?thesis
      unfolding s by (cases rule: RetryEv_cases [of D j w ps]) (auto simp: waiting_for_def)
  next
    case (WakeEv k)
    have "count_list (map fst (take k ps)) i + count_list (map fst (drop (Suc k) ps)) i \<le> count_list (map fst ps) i"
      if "k < length ps"
      using arg_cong [OF id_take_nth_drop [OF that], of "\<lambda>xs. count_list (map fst xs) i"] by simp
    then show ?thesis using WakeEv s by (simp add: waiting_for_def)
  qed (simp_all add: s waiting_for_def)
  then show ?case using Cons.IH [of "run_event D ev s"] by (auto split: if_splits)
qed simp

section \<open>The queue while the driver refuses NULL\<close>

text \<open>Every pending row still has its NULL columns.\<close>

definition pending_null :: "pgdb \<Rightarrow> bool" where
  "pending_null d \<longleftrightarrow>
     (\<forall>r \<in> set (pg_transactions d). tr_status r = TxStatusPending \<longrightarrow> tr_channel_account r = None)"

text \<open>With such a driver and such a table, reading the queue returns no transaction.\<close>

lemma pending_null_read:
  assumes "pending_null d" "pg_scan_null d = Inl ne" "Store_GetPendingTransactions n d = (Ok txs, d')"
  shows "txs = []"
proof (rule ccontr)
  assume "txs \<noteq> []"
  then obtain tx where tx: "tx \<in> set txs" by (cases txs) auto
  have "collect_rows (scan_tx (pg_scan_null d)) (take (nat n) (pending_rows (pg_transactions d))) = Ok txs"
    using assms(3)
    by (auto simp: Store_GetPendingTransactions_def try_call_def wrap_err_def pg_query_def
        sql_select_pending_def split: option.splits fault.splits if_splits res.splits prod.splits)
  then obtain r where r: "r \<in> set (take (nat n) (pending_rows (pg_transactions d)))"
      "scan_tx (pg_scan_null d) r = Ok tx"
    using collect_rows_mem tx by metis
  then have "r \<in> set (pg_transactions d)" "tr_status r = TxStatusPending"
    by (auto simp: pending_rows_set TxStatusPending_def dest: in_set_takeD)
  then have "tr_channel_account r = None" using assms(1) by (simp add: pending_null_def)
  then show False using r(2) assms(2) by (simp add: scan_tx_def)
qed

lemma stalled_tick:
  assumes "pending_null (sys_db w)" "pg_scan_null (sys_db w) = Inl ne"
  shows "snd (processBatch us now (main_engine parse net cfg) w) =
    w\<lparr>sys_db := snd (Store_GetPendingTransactions 1 (sys_db w))\<rparr>"
proof -
  obtain g d where g: "Store_GetPendingTransactions 1 (sys_db w) = (g, d)"
    by (cases "Store_GetPendingTransactions 1 (sys_db w)")
  have "g \<noteq> Ok (tx # rest)" for tx rest
    using pending_null_read [OF assms] g by blast
  then show ?thesis
    using g by (cases g) (auto simp: processBatch_def try_call_def on_db_def split: list.split)
qed

text \<open>The table keeps this shape and the driver its behaviour.\<close>

definition null_kept :: "pgdb \<Rightarrow> pgdb \<Rightarrow> bool" where
  "null_kept d d' \<longleftrightarrow> pg_scan_null d' = pg_scan_null d \<and> (pending_null d \<longrightarrow> pending_null d')"

lemma preorder_null_kept: "preorder_on_worlds null_kept"
  by (rule preorder_on_worldsI) (auto simp: null_kept_def)

lemma pending_null_update:
  assumes "pending_null d" "\<And>r. tr_status (f r) \<noteq> TxStatusPending \<or>
    tr_status (f r) = tr_status r \<and> tr_channel_account (f r) = tr_channel_account r"
  shows "pending_null (d\<lparr>pg_transactions := update_tx_rows i f (pg_transactions d)\<rparr>)"
  unfolding pending_null_def
proof
  fix r assume "r \<in> set (pg_transactions (d\<lparr>pg_transactions := update_tx_rows i f (pg_transactions d)\<rparr>))"
  then obtain r0 where r0: "r0 \<in> set (pg_transactions d)" "r = r0 \<or> r = f r0"
    by (auto simp: update_tx_rows_def split: if_splits)
  then show "tr_status r = TxStatusPending \<longrightarrow> tr_channel_account r = None"
    using assms(1) assms(2) [of r0] by (auto simp: pending_null_def)
qed

lemma pending_null_same: "pg_transactions d' = pg_transactions d \<Longrightarrow> pending_null d' = pending_null d"
  by (simp add: pending_null_def)

interpretation null: table_relation null_kept UNIV
proof unfold_locales
  show "preorder_on_worlds null_kept" by (rule preorder_null_kept)
  show "null_kept d (pg_tick d)" for d by (simp add: null_kept_def pending_null_def)
  show "null_kept d (snd (sql_update_tx_status i st ch er n d))" if "st \<in> engine_targets" "i \<in> UNIV"
    for st d i ch er n
    using that(1)
    by (auto simp: null_kept_def sql_update_tx_status_def engine_targets_def intro!: pending_null_update)
  show "null_kept d (d\<lparr>pg_channel_accounts := update_account_rows Q f (pg_channel_accounts d)\<rparr>)"
    for f d Q
    by (simp add: null_kept_def pending_null_def)
qed

lemma increment_null: "keeps null_kept (Store_IncrementRetry i)"
  unfolding Store_IncrementRetry_def
  by (intro keeps_wrap_err null.stmt)
     (simp add: sql_increment_retry_def null_kept_def pending_null_update)

lemma save_null: "keeps null_kept (Store_SaveTransaction tx)"
  unfolding Store_SaveTransaction_def
  by (intro keeps_wrap_err null.stmt) (auto simp: sql_insert_tx_def null_kept_def pending_null_def)

lemma save_account_null: "keeps null_kept (Store_SaveChannelAccount a)"
  unfolding Store_SaveChannelAccount_def
  by (intro keeps_wrap_err null.stmt) (simp add: sql_insert_account_def null_kept_def pending_null_def)

interpretation null_run: event_relation null_kept
  by unfold_locales (simp_all add: increment_null save_null save_account_null)

text \<open>
  A table whose pending and failed rows all have a NULL account: neither the queue nor a retry can
  read any of them.
\<close>

definition served_null :: "pgdb \<Rightarrow> bool" where
  "served_null d \<longleftrightarrow> (\<forall>r \<in> set (pg_transactions d).
     tr_status r \<in> {TxStatusPending, TxStatusFailed} \<longrightarrow> tr_channel_account r = None)"

lemma served_pending: "served_null d \<Longrightarrow> pending_null d"
  by (auto simp: served_null_def pending_null_def)

text \<open>The same deployment with other answers to submissions.\<close>

definition other_submissions ::
  "(string \<Rightarrow> string \<Rightarrow> ('n, TransactionResult option) op) \<Rightarrow> ('sb \<Rightarrow> Envelope \<Rightarrow> ('n, unit) op) \<Rightarrow>
   ('sb \<Rightarrow> Envelope \<Rightarrow> ('n, unit) op) \<Rightarrow> ('n, 'sb, 'fb) deploy \<Rightarrow> ('n, 'sb, 'fb) deploy" where
  "other_submissions horizon simulate send D = D\<lparr>dp_net := (dp_net D)
     \<lparr>net_SubmitTransactionXDR := horizon, net_Simulate := simulate, net_Send := send\<rparr>\<rparr>"

lemma other_submissions_sel [simp]:
  "dp_cfg (other_submissions h s t D) = dp_cfg D" "dp_us (other_submissions h s t D) = dp_us D"
  "dp_now (other_submissions h s t D) = dp_now D" "dp_uuid_New (other_submissions h s t D) = dp_uuid_New D"
  "dp_parse (other_submissions h s t D) = dp_parse D" "dp_keys (other_submissions h s t D) = dp_keys D"
  by (simp_all add: other_submissions_def dp_keys_def)

lemma other_submissions_pool: "dp_pool (other_submissions h s t D) = dp_pool D"
proof -
  let ?net = "dp_net (other_submissions h s t D)"
  have "main_endpoint ?net cfg = main_endpoint (dp_net D) cfg" for cfg
    by (simp add: main_endpoint_def main_router_def NewRouter_def)
  moreover have "HorizonClient_Account ?net c = HorizonClient_Account (dp_net D) c" for c
    by (simp add: HorizonClient_Account_def other_submissions_def fun_eq_iff)
  ultimately show ?thesis by (simp add: dp_pool_def main_pool_def main_horizon_eq)
qed

lemma other_submissions_store:
  "eg_store (dp_engine (other_submissions h s t D)) = eg_store (dp_engine D)"
  "eg_cfg (dp_engine (other_submissions h s t D)) = eg_cfg (dp_engine D)"
  by (simp_all add: dp_engine_def)

text \<open>What stays when nothing is read: the router, and the rows there were.\<close>

definition same_router :: "('n, 'sb) sys \<Rightarrow> ('n, 'sb) sys \<Rightarrow> bool" where
  "same_router w w' \<longleftrightarrow> sys_router w' = sys_router w"

lemma preorder_same_router: "preorder_on_worlds same_router"
  by (rule preorder_on_worldsI) (auto simp: same_router_def)

lemma keeps_same_router: "keeps same_router (on_db m)" "keeps same_router (on_net m')"
  by (simp_all add: keeps_def same_router_def on_db_def on_net_def split: prod.split)

interpretation router_store: kept_by_store sys_TxStore sys_PoolStore same_router UNIV
  by (unfold_locales, unfold sys_TxStore_sel sys_PoolStore_sel)
     (auto intro: keeps_same_router preorder_same_router)

interpretation router_pool: pool_keeps sys_TxStore sys_PoolStore same_router UNIV
  "main_pool net cfg" "main_keys rand derive" for net cfg rand derive
  by unfold_locales (simp_all add: main_horizon_eq keeps_same_router main_keys_def)

definition appends_null :: "pgdb \<Rightarrow> pgdb \<Rightarrow> bool" where
  "appends_null d d' \<longleftrightarrow> pg_scan_null d' = pg_scan_null d \<and>
     (\<exists>new. pg_transactions d' = pg_transactions d @ new \<and>
        (\<forall>r \<in> set new. tr_status r = TxStatusPending \<and> tr_channel_account r = None))"

lemma preorder_appends_null: "preorder_on_worlds appends_null"
proof (rule preorder_on_worldsI)
  show "appends_null u w" if "appends_null u v" "appends_null v w" for u v w
    using that unfolding appends_null_def by (metis Un_iff append_assoc set_append)
qed (simp add: appends_null_def)

lemma save_appends_null: "keeps appends_null (Store_SaveTransaction (pending_tx i x))"
  unfolding Store_SaveTransaction_def
  by (intro keeps_wrap_err keeps_pg_stmt preorder_appends_null)
     (auto simp: sql_insert_tx_def appends_null_def pending_tx_def)

lemma served_null_appends: "appends_null d d' \<Longrightarrow> served_null d \<Longrightarrow> served_null d'"
  by (auto simp: appends_null_def served_null_def)

text \<open>One event while nothing can be read.\<close>

lemma stalled_event:
  assumes n: "served_null (sys_db w)" "pg_scan_null (sys_db w) = Inl ne"
  shows "\<exists>w'. run_event D ev (w, []) = (w', []) \<and> run_event (other_submissions h s t D) ev (w, []) = (w', []) \<and>
    same_router w w' \<and> appends_null (sys_db w) (sys_db w')"
proof (cases ev)
  case (EnqueueEv req)
  have "keeps same_router (Enqueue (dp_parse D) (on_net (dp_uuid_New D)) (dp_engine D) req)"
    unfolding Enqueue_def dp_engine_def main_engine_sel sys_TxStore_sel
    by (auto intro!: keeps_try_call keeps_ret keeps_same_router preorder_same_router keeps_if split: sum.split)
  moreover have "Enqueue (dp_parse D) (on_net (dp_uuid_New D)) (dp_engine (other_submissions h s t D)) req =
      Enqueue (dp_parse D) (on_net (dp_uuid_New D)) (dp_engine D) req"
    unfolding Enqueue_def other_submissions_store ..
  ultimately show ?thesis
    using EnqueueEv keepsD [OF keeps_Enqueue [OF preorder_appends_null save_appends_null], of w] keepsD
    by (fastforce simp: db_rel_def dp_engine_def)
next
  case TickEv
  let ?d = "snd (Store_GetPendingTransactions 1 (sys_db w))"
  have "run_event E ev (w, []) = (w\<lparr>sys_db := ?d\<rparr>, [])" for E :: "('a, 'b, 'c) deploy"
    using TickEv stalled_tick [OF served_pending [OF n(1)] n(2)] by (simp add: dp_engine_def)
  moreover have "appends_null (sys_db w) ?d"
    using keepsD [OF null.keeps_pending, of "sys_db w" 1] keepsD [OF read_same_txs(1), of "sys_db w" 1]
    by (simp add: appends_null_def null_kept_def same_txs_def)
  ultimately show ?thesis by (simp add: same_router_def)
next
  case (RetryEv i)
  have e: "retry_read (dp_engine (other_submissions h s t D)) i w = retry_read (dp_engine D) i w"
    unfolding retry_read_def other_submissions_store ..
  obtain x w' where x: "retry_read (dp_engine D) i w = (x, w')" by (cases "retry_read (dp_engine D) i w")
  have no: "x \<noteq> Ok tx" for tx
  proof
    assume "x = Ok tx"
    then obtain r where r: "find_tx i (pg_transactions (sys_db w)) = Some r" "tr_status r = TxStatusFailed"
      "scan_tx (pg_scan_null (sys_db w)) r = Ok tx"
      using read_admitted x by blast
    then have "r \<in> set (pg_transactions (sys_db w))" by (auto simp: find_tx_def find_Some_iff)
    then have "tr_channel_account r = None" using n(1) r(2) by (simp add: served_null_def)
    then show False using r(3) n(2) by (simp add: scan_tx_def)
  qed
  have "db_rel null_kept w w'"
    using keepsD [OF null_run.retry.keeps_read [OF UNIV_I], where w = w] x unfolding dp_engine_def by (metis snd_conv)
  then have "same_router w w'" "appends_null (sys_db w) (sys_db w')"
    using read_frame [OF x] by (simp_all add: same_router_def sys_side_def appends_null_def db_rel_def null_kept_def)
  then show ?thesis using RetryEv x no e by (intro exI [of _ w']) (cases x; auto)
next
  case (WakeEv k)
  then show ?thesis using preorder_appends_null by (simp add: same_router_def preorder_on_worlds_def reflpD)
next
  case SyncEv
  have "same_router w (snd (SyncSequenceNumbers (dp_pool D) w))" "db_rel same_txs w (snd (SyncSequenceNumbers (dp_pool D) w))"
    "db_rel null_kept w (snd (SyncSequenceNumbers (dp_pool D) w))"
    unfolding dp_pool_def
    by (rule keepsD [OF router_pool.keeps_Sync] keepsD [OF accounts_pool.keeps_Sync] keepsD [OF null_run.accounts.keeps_Sync])+
  then show ?thesis
    using SyncEv by (simp add: other_submissions_pool db_rel_def same_txs_def null_kept_def appends_null_def)
next
  case (RefillEv k)
  have "same_router w (snd (Refill (dp_keys D) (dp_pool D) k w))" "db_rel same_txs w (snd (Refill (dp_keys D) (dp_pool D) k w))"
    "db_rel null_kept w (snd (Refill (dp_keys D) (dp_pool D) k w))"
    unfolding dp_pool_def dp_keys_def
    by (rule keepsD [OF router_pool.keeps_Refill] keepsD [OF accounts_pool.keeps_Refill] keepsD [OF null_run.accounts.keeps_Refill])+
  then show ?thesis
    using RefillEv by (simp add: other_submissions_pool db_rel_def same_txs_def null_kept_def appends_null_def)
qed

lemma stalled_run:
  assumes "served_null (sys_db w)" "pg_scan_null (sys_db w) = Inl ne"
  shows "\<exists>w'. run_events D evs (w, []) = (w', []) \<and> run_events (other_submissions h s t D) evs (w, []) = (w', []) \<and>
    same_router w w' \<and> appends_null (sys_db w) (sys_db w')"
  using assms
proof (induction evs arbitrary: w)
  case Nil
  then show ?case using preorder_appends_null by (simp add: same_router_def preorder_on_worlds_def reflpD)
next
  case (Cons ev evs)
  obtain w1 where w1: "run_event D ev (w, []) = (w1, [])" "run_event (other_submissions h s t D) ev (w, []) = (w1, [])"
    "same_router w w1" "appends_null (sys_db w) (sys_db w1)"
    using stalled_event [OF Cons.prems] by blast
  then have "served_null (sys_db w1)" "pg_scan_null (sys_db w1) = Inl ne"
    using served_null_appends [OF w1(4)] Cons.prems by (simp_all add: appends_null_def)
  from Cons.IH [OF this] obtain w2 where "run_events D evs (w1, []) = (w2, [])"
    "run_events (other_submissions h s t D) evs (w1, []) = (w2, [])" "same_router w1 w2" "appends_null (sys_db w1) (sys_db w2)"
    by blast
  moreover have "appends_null (sys_db w) (sys_db w2)"
    using preorder_appends_null w1(4) calculation(4) unfolding preorder_on_worlds_def by (auto dest: transpD)
  ultimately show ?case using w1 by (simp add: same_router_def)
qed

end
