(* ===== verification/Samples.thy ===== *)
theory Samples
  imports Runs
begin

text \<open>
  A deployment for the witnesses: a configuration, a network, the libraries' parameters as concrete
  functions, and the world they start in.
\<close>

section \<open>A deployment for concrete runs\<close>

text \<open>
  A network whose Horizon answers every call with success and whose Soroban cannot be reached; one
  configuration; one key and one uuid. The witnesses run the program on it.
\<close>

definition sample_cfg :: Config where
  "sample_cfg = \<lparr>cfg_DatabaseURL = ''db'', cfg_ListenAddr = '':8080'', cfg_APIKeys = [''key''],
     cfg_HorizonEndpoints = [''h1'', ''h2''], cfg_SorobanEndpoints = [], cfg_MasterSeed = ''S'',
     cfg_MaxRetryAttempts = 3, cfg_RetryBaseDelay = 5, cfg_RetryMultiplier = Fin 1 1,
     cfg_QueuePollInterval = 1000, cfg_RefillBatchSize = 1, cfg_LogLevel = LevelInfo\<rparr>"

definition sample_net :: "TransactionResult option res \<Rightarrow> (unit, string) Net" where
  "sample_net rep =
     \<lparr>net_LoadAccount = \<lambda>url k. ret (Ok 40), net_SubmitTransactionXDR = \<lambda>url x. ret rep,
      net_Transaction = \<lambda>url h. ret rep, net_sorobanNew = \<lambda>url. Inr url,
      net_Simulate = \<lambda>b x. ret (Error EOF), net_Send = \<lambda>b x. ret (Error EOF),
      net_GetTransaction = \<lambda>b h. ret (Error EOF), net_URI = \<lambda>b. b\<rparr>"

text \<open>A parser that accepts every envelope but the empty one, as a payment.\<close>

definition sample_parse :: parse_envelope where
  "sample_parse x =
     (if x = [] then Inl EOF
      else Inr \<lparr>env_Operations = [OtherOperation], env_SourceAccount = ''GA'', env_Fee = 100\<rparr>)"

definition sample_feebump :: "string FeeBumpSDK" where
  "sample_feebump = \<lparr>fb_New = \<lambda>e fee src. Inr (''bump'' @ src), fb_MarshalXDR = \<lambda>x. Inr x\<rparr>"

definition sample_deploy :: "TransactionResult option res \<Rightarrow> (unit, string, string) deploy" where
  "sample_deploy rep =
     \<lparr>dp_parse = sample_parse, dp_net = sample_net rep, dp_cfg = sample_cfg, dp_us = \<lambda>_. ''id'',
      dp_now = \<lambda>_. 77, dp_uuid_New = ret (Ok 9), dp_rand = ret (Ok [1, 2]),
      dp_derive = \<lambda>seed. Inr (''GNEW'', ''SNEW''), dp_feebump = sample_feebump, dp_conv = \<lambda>_. 0,
      dp_wait = \<lambda>d. ret (Ok ())\<rparr>"

definition sample_world :: "TransactionResult option res \<Rightarrow> pgdb \<Rightarrow> (unit, string) sys" where
  "sample_world rep d = main_world (sample_net rep) sample_cfg d ()"

lemma sample_sel [simp]:
  "dp_cfg (sample_deploy rep) = sample_cfg" "dp_parse (sample_deploy rep) = sample_parse"
  "dp_net (sample_deploy rep) = sample_net rep" "dp_us (sample_deploy rep) = (\<lambda>_. ''id'')"
  "dp_now (sample_deploy rep) = (\<lambda>_. 77)"
  "sys_db (sample_world rep d) = d" "cfg_MaxRetryAttempts sample_cfg = 3"
  by (simp_all add: sample_deploy_def sample_world_def main_world_def sample_cfg_def)

lemma sample_route: "route sample_parse x = BackendHorizon"
  by (simp add: route_def sample_parse_def)

lemma sample_router:
  "main_router (sample_net rep) sample_cfg =
     \<lparr>rt_horizonClients = [\<lparr>hc_baseURL = ''h1''\<rparr>, \<lparr>hc_baseURL = ''h2''\<rparr>],
      rt_sorobanClients = [\<lparr>sc_backend = ''https://soroban-testnet.stellar.org''\<rparr>],
      rt_horizonIdx = 0, rt_sorobanIdx = 0\<rparr>"
  by (simp add: main_router_def NewRouter_def or_default_def sample_cfg_def NewHorizonClient_def
      NewSorobanClient_def sample_net_def)

lemma sample_net_sel [simp]:
  "net_SubmitTransactionXDR (sample_net rep) url x = ret rep"
  "net_LoadAccount (sample_net rep) url k = ret (Ok 40)"
  by (simp_all add: sample_net_def)

lemma sample_submit:
  "Router_SubmitTransaction sample_parse (sample_net (Ok s)) x
      (sys_router (sample_world (Ok s) d), sys_net (sample_world (Ok s) d)) =
   (Ok s, ((main_router (sample_net (Ok s)) sample_cfg)\<lparr>rt_horizonIdx := 1\<rparr>, ()))"
  by (simp add: Router_SubmitTransaction_def sample_route submitWithFailover_def sample_world_def
      main_world_def sample_router next_client_body_def go_index_def horizon_attempt_def
      attempt_call_def HorizonClient_SubmitTransaction_def wrap_err_def try_call_def
      eval_nat_numeral Let_def signed_modulo_int_def signed_divide_int_def)

text \<open>A failed transaction with one attempt left.\<close>

definition last_attempt :: "(unit, string) sys" where
  "last_attempt = sample_world (Ok None)
     (calm_db [(sample_tx 4 ''failed'' (Some []))\<lparr>tr_retry_count := 2\<rparr>] [] (Inr []))"

end
