(* ===== verification/Interleaving.thy ===== *)
theory Interleaving
  imports Replicas Samples
begin

text \<open>
  The steps of theory \<open>Replicas\<close> are those of the handler. Other processes share its database: before
  each of its calls of the store or the router they make any number of steps, and rows they have
  locked stay locked for it. Whatever they do and whatever fails, a run of \<open>processBatch\<close> is a run of
  one process of the step relation among the others' steps, and its entries of the submission log are
  its calls of the router. The statements of the lease's transaction are one call: what the others do
  between its SELECT and its COMMIT concerns other rows, so it can be put before or after.
\<close>

section \<open>The statements of the store, as steps see them\<close>

lemma update_effect:
  assumes "Store_UpdateTransactionStatus i st pk er d = (r, d')"
  shows "r \<noteq> Panic \<and> pg_locked d' = pg_locked d \<and> pg_channel_accounts d' = pg_channel_accounts d \<and>
    (\<exists>eff t. (r = Ok () \<longrightarrow> eff) \<and>
       pg_transactions d' = (if eff then set_status i st pk er t (pg_transactions d) else pg_transactions d))"
  using assms
  by (fastforce simp: Store_UpdateTransactionStatus_def try_call_def pg_stmt_def sql_update_tx_status_def set_status_def
      split: option.splits fault.splits if_splits)

lemma seq_effect:
  assumes "Store_UpdateSequenceNumber pk q d = (r, d')"
  shows "r \<noteq> Panic \<and> pg_locked d' = pg_locked d \<and> pg_transactions d' = pg_transactions d \<and>
    (\<exists>eff. pg_channel_accounts d' = (if eff then set_seq pk q (pg_channel_accounts d) else pg_channel_accounts d))"
  using assms
  by (fastforce simp: Store_UpdateSequenceNumber_def wrap_err_def try_call_def pg_stmt_def set_seq_def
      split: option.splits fault.splits)

lemma release_effect:
  assumes "Store_ReleaseChannelAccount pk t d = (r, d')"
  shows "r \<noteq> Panic \<and> pg_locked d' = pg_locked d \<and> pg_transactions d' = pg_transactions d \<and>
    (\<exists>eff. pg_channel_accounts d' = (if eff then set_idle pk t (pg_channel_accounts d) else pg_channel_accounts d))"
  using assms
  by (fastforce simp: Store_ReleaseChannelAccount_def try_call_def pg_stmt_def set_idle_def
      split: option.splits fault.splits if_splits)

lemma pending_effect:
  assumes "Store_GetPendingTransactions 1 d = (r, d')"
  shows "r \<noteq> Panic \<and> pg_locked d' = pg_locked d \<and> pg_transactions d' = pg_transactions d \<and>
    pg_channel_accounts d' = pg_channel_accounts d \<and>
    (\<forall>tx txs. r = Ok (tx # txs) \<longrightarrow> (\<exists>row rest. pending_rows (pg_transactions d) = row # rest \<and>
       tx_ID tx = tr_id row \<and> tx_EnvelopeXDR tx = tr_envelope_xdr row))"
proof -
  have np: "collect_rows (scan_tx sn) rows \<noteq> Panic" for sn rows
    by (induction rows) (auto simp: scan_tx_no_panic split: res.splits)
  have head: "\<exists>row rest. pending_rows (pg_transactions d) = row # rest \<and> tx_ID tx = tr_id row \<and>
      tx_EnvelopeXDR tx = tr_envelope_xdr row"
    if "collect_rows (scan_tx sn) (take (Suc 0) (pending_rows (pg_transactions d))) = Ok (tx # txs)" for sn tx txs
    using that by (cases "pending_rows (pg_transactions d)") (auto dest: scan_tx_Ok split: res.splits)
  show ?thesis
    using assms np head
    by (auto simp: Store_GetPendingTransactions_def pg_query_def sql_select_pending_def wrap_err_def try_call_def
        split: option.splits fault.splits res.splits)
qed

text \<open>The lease: no effect, or the candidate marked; only then is there an account to return.\<close>

lemma lease_effect:
  assumes "Store_LeaseChannelAccount d = (r, d')" "\<forall>n. pg_locked d n = lk"
  shows "pg_locked d' = pg_locked d \<and> pg_transactions d' = pg_transactions d \<and>
    ((\<exists>e. r = Error e) \<and> pg_channel_accounts d' = pg_channel_accounts d \<or>
     (\<exists>a. lease_candidate lk (pg_channel_accounts d) = Some a \<and>
        (r = Ok (Some (account_of_row a)) \<or> (\<exists>e. r = Error e)) \<and>
        pg_channel_accounts d' = mark_leased (ar_public_key a) (pg_channel_accounts d)))"
proof -
  obtain r1 d1 where s1: "in_tx (\<lambda>_. ret (Ok ())) d = (r1, d1)" by (cases "in_tx (\<lambda>_. ret (Ok ())) d")
  let ?select = "\<lambda>n d. case lease_candidate (pg_locked d n) (pg_channel_accounts d) of
      None \<Rightarrow> (Error ErrNoRows, d) | Some r \<Rightarrow> (Ok (account_of_row r), d)"
  obtain r2 d2 where s2: "in_tx ?select d1 = (r2, d2)" by (cases "in_tx ?select d1")
  obtain r3 d3 where s3: "in_tx (\<lambda>_. ret (Ok ())) d2 = (r3 :: unit res, d3)" by (cases "in_tx (\<lambda>_. ret (Ok ())) d2")
  have same: "pg_locked d1 = pg_locked d \<and> pg_transactions d1 = pg_transactions d \<and>
      pg_channel_accounts d1 = pg_channel_accounts d \<and> r1 \<noteq> Panic"
    "pg_locked d3 = pg_locked d2 \<and> pg_transactions d3 = pg_transactions d2 \<and>
      pg_channel_accounts d3 = pg_channel_accounts d2 \<and> r3 \<noteq> Panic"
    using s1 s3 by (auto simp: in_tx_def split: option.splits fault.splits)
  have lk: "pg_locked d1 n = lk" for n using assms(2) same(1) by simp
  have sel: "pg_locked d2 = pg_locked d1 \<and> pg_transactions d2 = pg_transactions d1 \<and>
      pg_channel_accounts d2 = pg_channel_accounts d1 \<and> r2 \<noteq> Panic \<and>
      (\<forall>acct. r2 = Ok acct \<longrightarrow> (\<exists>a. lease_candidate lk (pg_channel_accounts d1) = Some a \<and>
         acct = account_of_row a))"
    using s2 by (auto simp: in_tx_def lk split: option.splits fault.splits)
  show ?thesis
  proof (cases "(\<exists>u. r1 = Ok u) \<and> (\<exists>acct. r2 = Ok acct) \<and> (\<exists>u. r3 = Ok u)")
    case True
    then obtain acct a where a: "r2 = Ok acct" "acct = account_of_row a"
      "lease_candidate lk (pg_channel_accounts d) = Some a"
      using sel same by auto
    have "Store_LeaseChannelAccount d = try_call
        (pg_stmt (\<lambda>_ d. (Ok (), d\<lparr>pg_channel_accounts := mark_leased (ca_PublicKey acct) (pg_channel_accounts d)\<rparr>)))
        (\<lambda>_. ret (Ok (Some acct))) (\<lambda>e. ret (Error (Wrap [Lit ''committing lease: ''] e))) d3"
      using True s1 s2 s3 a(1) by (auto simp: Store_LeaseChannelAccount_def try_call_def)
    then show ?thesis
      using assms(1) a same sel
      by (auto simp: try_call_def pg_stmt_def account_of_row_def split: option.splits fault.splits)
  next
    case False
    have "\<exists>e d4. Store_LeaseChannelAccount d = (Error e, d4) \<and> pg_locked d4 = pg_locked d \<and>
        pg_transactions d4 = pg_transactions d \<and> pg_channel_accounts d4 = pg_channel_accounts d"
      using False s1 s2 s3 same sel
      by (cases r1; cases r2; cases r3) (auto simp: Store_LeaseChannelAccount_def try_call_def)
    then show ?thesis using assms(1) by auto
  qed
qed


section \<open>A database that others use\<close>

text \<open>
  The world of process p: its own world, where the other processes are, the number of calls made, and
  what the others do before call n, as a function of the tables and of where they are.
\<close>

record ('n, 'sb) shared =
  sh_sys :: "('n, 'sb) sys"
  sh_pcs :: "nat \<Rightarrow> pc"
  sh_calls :: nat
  sh_moves :: "nat \<Rightarrow> cluster \<Rightarrow> cluster"

definition at :: "nat \<Rightarrow> pc \<Rightarrow> ('n, 'sb) shared \<Rightarrow> (nat \<times> uuid \<times> string) list \<Rightarrow> cluster" where
  "at p q s log =
     \<lparr>cl_txs = pg_transactions (sys_db (sh_sys s)), cl_accts = pg_channel_accounts (sys_db (sh_sys s)),
      cl_pc = (sh_pcs s)(p := q), cl_log = log\<rparr>"

definition others_move :: "nat \<Rightarrow> ('n, 'sb) shared \<Rightarrow> ('n, 'sb) shared" where
  "others_move p s =
     (let c = sh_moves s (sh_calls s) (at p Outside s [])
      in s\<lparr>sh_sys := (sh_sys s)\<lparr>sys_db := (sys_db (sh_sys s))
             \<lparr>pg_transactions := cl_txs c, pg_channel_accounts := cl_accts c,
              pg_locked := \<lambda>n. locked_by_others (cl_pc c) p\<rparr>\<rparr>,
           sh_pcs := cl_pc c, sh_calls := Suc (sh_calls s)\<rparr>)"

definition on_shared :: "nat \<Rightarrow> (('n, 'sb) sys, 'a) op \<Rightarrow> (('n, 'sb) shared, 'a) op" where
  "on_shared p m s =
     (let s1 = others_move p s in case m (sh_sys s1) of (r, w) \<Rightarrow> (r, s1\<lparr>sh_sys := w\<rparr>))"

text \<open>The store, the router and the Horizon client of the program, each call after the others' moves.\<close>

definition shared_TxStore :: "nat \<Rightarrow> (('n, 'sb) shared) TxStore" where
  "shared_TxStore p =
     \<lparr>ts_SaveTransaction = \<lambda>tx. on_shared p (ts_SaveTransaction sys_TxStore tx),
      ts_UpdateTransactionStatus = \<lambda>i st ch er. on_shared p (ts_UpdateTransactionStatus sys_TxStore i st ch er),
      ts_IncrementRetry = \<lambda>i. on_shared p (ts_IncrementRetry sys_TxStore i),
      ts_GetPendingTransactions = \<lambda>n. on_shared p (ts_GetPendingTransactions sys_TxStore n),
      ts_GetTransaction = \<lambda>i. on_shared p (ts_GetTransaction sys_TxStore i),
      ts_GetTransactionForRetry = \<lambda>i. on_shared p (ts_GetTransactionForRetry sys_TxStore i),
      ts_UpdateSequenceNumber = \<lambda>k q. on_shared p (ts_UpdateSequenceNumber sys_TxStore k q)\<rparr>"

definition shared_PoolStore :: "nat \<Rightarrow> (('n, 'sb) shared) PoolStore" where
  "shared_PoolStore p =
     \<lparr>ps_LeaseChannelAccount = on_shared p (ps_LeaseChannelAccount sys_PoolStore),
      ps_ReleaseChannelAccount = \<lambda>k t. on_shared p (ps_ReleaseChannelAccount sys_PoolStore k t),
      ps_ListChannelAccounts = on_shared p (ps_ListChannelAccounts sys_PoolStore),
      ps_UpdateSequenceNumberIfIdle = \<lambda>k q. on_shared p (ps_UpdateSequenceNumberIfIdle sys_PoolStore k q),
      ps_SaveChannelAccount = \<lambda>a. on_shared p (ps_SaveChannelAccount sys_PoolStore a)\<rparr>"

definition shared_engine ::
  "nat \<Rightarrow> parse_envelope \<Rightarrow> ('n, 'sb) Net \<Rightarrow> Config \<Rightarrow> (('n, 'sb) shared) Engine" where
  "shared_engine p parse net cfg =
     NewEngine (shared_TxStore p)
       \<lparr>sm_SubmitTransaction = \<lambda>x. on_shared p (on_router (Router_SubmitTransaction parse net x))\<rparr>
       (NewPool (shared_PoolStore p)
          \<lparr>hz_Account = \<lambda>k. on_shared p (hz_Account (main_horizon net (main_router net cfg)) k)\<rparr>
          (cfg_MasterSeed cfg) (cfg_RefillBatchSize cfg)) cfg"

lemma at_sel [simp]:
  "cl_txs (at p q s log) = pg_transactions (sys_db (sh_sys s))"
  "cl_accts (at p q s log) = pg_channel_accounts (sys_db (sh_sys s))"
  "cl_pc (at p q s log) = (sh_pcs s)(p := q)" "cl_log (at p q s log) = log"
  by (simp_all add: at_def)

lemma shared_engine_sel [simp]:
  "ts_UpdateTransactionStatus (eg_store (shared_engine p parse net cfg)) i st ch er =
     on_shared p (on_db (Store_UpdateTransactionStatus i st ch er))"
  "ts_GetPendingTransactions (eg_store (shared_engine p parse net cfg)) n = on_shared p (on_db (Store_GetPendingTransactions n))"
  "ts_UpdateSequenceNumber (eg_store (shared_engine p parse net cfg)) k q = on_shared p (on_db (Store_UpdateSequenceNumber k q))"
  "ps_LeaseChannelAccount (pl_store (eg_pool (shared_engine p parse net cfg))) = on_shared p (on_db Store_LeaseChannelAccount)"
  "ps_ReleaseChannelAccount (pl_store (eg_pool (shared_engine p parse net cfg))) k t =
     on_shared p (on_db (Store_ReleaseChannelAccount k t))"
  "sm_SubmitTransaction (eg_router (shared_engine p parse net cfg)) x =
     on_shared p (on_router (Router_SubmitTransaction parse net x))"
  by (simp_all add: shared_engine_def NewEngine_def NewPool_def shared_TxStore_def shared_PoolStore_def)

section \<open>The others' steps, seen from the process\<close>

definition put :: "nat \<Rightarrow> pc \<Rightarrow> (nat \<times> uuid \<times> string) list \<Rightarrow> cluster \<Rightarrow> cluster" where
  "put p q l c = c\<lparr>cl_pc := (cl_pc c)(p := q), cl_log := l @ cl_log c\<rparr>"

lemma put_simps:
  "cl_txs (put p q l c) = cl_txs c" "cl_accts (put p q l c) = cl_accts c"
  "cl_pc (put p q l c) = (cl_pc c)(p := q)" "cl_log (put p q l c) = l @ cl_log c"
  "w \<noteq> p \<Longrightarrow> put p q l (move w x c) = move w x (put p q l c)"
  "put p q l (c\<lparr>cl_txs := t\<rparr>) = (put p q l c)\<lparr>cl_txs := t\<rparr>"
  "put p q l (c\<lparr>cl_accts := u\<rparr>) = (put p q l c)\<lparr>cl_accts := u\<rparr>"
  "put p q l (c\<lparr>cl_log := cl_log c @ m\<rparr>) = (put p q l c)\<lparr>cl_log := cl_log (put p q l c) @ m\<rparr>"
  "(put p q l c)\<lparr>cl_accts := cl_accts c\<rparr> = put p q l c" "(put p q l c)\<lparr>cl_txs := cl_txs c\<rparr> = put p q l c"
  by (simp_all add: put_def move_def fun_upd_twist)

lemma put_locks:
  "cl_pc c p = Outside \<Longrightarrow> lock_of q = None \<Longrightarrow>
   locked_by_others ((cl_pc c)(p := q)) w = locked_by_others (cl_pc c) w"
  by (rule ext) (auto simp: locked_by_others_def, metis lock_of_simps(1) option.distinct(1))

text \<open>A step of another process does not depend on where this one is, as long as it locks no row.\<close>

lemma step_put:
  assumes "step w c c'" "w \<noteq> p" "cl_pc c p = Outside" "lock_of q = None"
  shows "step w (put p q l c) (put p q l c')"
  using assms
proof (induction rule: step.induct)
  case (fetch c w r rs)
  then show ?case by (simp add: put_simps step.fetch)
next
  case (claim c w i x ok eff t)
  then show ?case
    using step.claim [of "put p q l c" w i x ok eff t] by (cases ok; cases eff) (simp_all add: put_simps)
next
  case (lease_select c w i x a)
  then show ?case by (simp add: put_simps put_locks step.lease_select)
next
  case (lease_mark c w i x a)
  then show ?case by (simp add: put_simps step.lease_mark)
next
  case (lease_commit c w i x a ok eff er)
  then show ?case
    using step.lease_commit [of "put p q l c" w i x a ok eff er]
    by (cases ok; cases eff) (simp_all add: put_simps)
next
  case (lease_error c w i x a er)
  then show ?case
    using step.lease_error [of "put p q l c" w i x a er] by (simp add: put_simps)
next
  case (sequence c w i x a eff)
  then show ?case using step.sequence [of "put p q l c" w i x a eff] by (cases eff) (simp_all add: put_simps)
next
  case (submit c w i x a rep us)
  then show ?case using step.submit [of "put p q l c" w i x a rep us] by (simp add: put_simps)
next
  case (submit_dies c w i x a)
  then show ?case using step.submit_dies [of "put p q l c" w i x a] by (simp add: put_simps)
next
  case (release c w i a oc eff t)
  then show ?case using step.release [of "put p q l c" w i a oc eff t] by (cases eff) (simp_all add: put_simps)
next
  case (conclude c w i pk oc eff t)
  then show ?case using step.conclude [of "put p q l c" w i pk oc eff t] by (cases eff) (simp_all add: put_simps)
next
  case (dies w c)
  then show ?case by (simp add: put_simps step.dies)
next
  case (enqueue r c w)
  then show ?case using step.enqueue [of r "put p q l c" w] by (simp add: put_simps)
qed

definition own_log :: "nat \<Rightarrow> (nat \<times> uuid \<times> string) list \<Rightarrow> (nat \<times> uuid \<times> string) list" where
  "own_log p log = filter (\<lambda>e. fst e = p) log"

lemma step_others:
  assumes "step w c c'" "w \<noteq> p"
  shows "cl_pc c' p = cl_pc c p \<and> own_log p (cl_log c') = own_log p (cl_log c)"
  using assms by (induction rule: step.induct) (auto simp: own_log_def)

lemma steps_put:
  assumes "steps (- {p}) c c'" "cl_pc c p = Outside" "lock_of q = None"
  shows "steps UNIV (put p q l c) (put p q l c') \<and> cl_pc c' p = Outside \<and>
    own_log p (cl_log c') = own_log p (cl_log c)"
  using assms(1) unfolding steps_def
proof (induction rule: rtranclp_induct)
  case base
  then show ?case using assms(2) by simp
next
  case (step b c')
  then obtain w where w: "step w b c'" "w \<noteq> p" by blast
  have "step w (put p q l b) (put p q l c')" using step_put w step.IH assms(3) by blast
  then show ?case using step.IH step_others [OF w] by (auto intro: rtranclp.rtrancl_into_rtrancl)
qed

section \<open>Runs of the handler between the others' steps\<close>

text \<open>
  From (q, s, log) the system gets to (q', s', log'), and process p has logged \<open>own\<close> on the way.
\<close>

definition goes ::
  "nat \<Rightarrow> (nat \<times> uuid \<times> string) list \<Rightarrow> pc \<Rightarrow> ('n, 'sb) shared \<Rightarrow> (nat \<times> uuid \<times> string) list \<Rightarrow>
   pc \<Rightarrow> ('n, 'sb) shared \<Rightarrow> (nat \<times> uuid \<times> string) list \<Rightarrow> bool" where
  "goes p own q s log q' s' log' \<longleftrightarrow>
     steps UNIV (at p q s log) (at p q' s' log') \<and> own_log p log' = own_log p log @ own"

definition fair :: "nat \<Rightarrow> ('n, 'sb) shared \<Rightarrow> bool" where
  "fair p s \<longleftrightarrow> (\<forall>n c. cl_pc c p = Outside \<longrightarrow> steps (- {p}) c (sh_moves s n c))"

lemma goes_refl: "goes p [] q s log q s log"
  by (simp add: goes_def steps_def)

lemma goes_trans:
  "goes p o1 q s log q1 s1 log1 \<Longrightarrow> goes p o2 q1 s1 log1 q2 s2 log2 \<Longrightarrow> goes p (o1 @ o2) q s log q2 s2 log2"
  by (auto simp: goes_def steps_def)

lemma goes_silent:
  "goes p [] q s log q1 s1 log1 \<Longrightarrow> goes p own q1 s1 log1 q2 s2 log2 \<Longrightarrow> goes p own q s log q2 s2 log2"
  using goes_trans [of p "[]"] by simp

lemma goes_step: "step p (at p q s log) (at p q' s' log) \<Longrightarrow> goes p [] q s log q' s' log"
  by (auto simp: goes_def steps_def)

lemma goes_submit: "step p (at p q s log) (at p q' s' (log @ [(p, e)])) \<Longrightarrow>
    goes p [(p, e)] q s log q' s' (log @ [(p, e)])"
  by (auto simp: goes_def steps_def own_log_def)

text \<open>A call begins with the others' moves and then runs on the tables and locks they left.\<close>

lemma shared_call:
  assumes "on_shared p m s = (r, s')" "fair p s" "lock_of q = None"
  obtains s1 w log1 where "goes p [] q s log q s1 log1" "m (sh_sys s1) = (r, w)" "s' = s1\<lparr>sh_sys := w\<rparr>"
    "\<forall>n. pg_locked (sys_db (sh_sys s1)) n = locked_by_others (sh_pcs s1) p"
    "sys_side (sh_sys s1) = sys_side (sh_sys s)" "sh_moves s1 = sh_moves s"
proof -
  let ?a = "at p Outside s []" and ?b = "others_move p s"
  let ?c = "sh_moves s (sh_calls s) ?a"
  have "cl_pc ?a p = Outside" by simp
  then have "steps (- {p}) ?a ?c" using assms(2) unfolding fair_def by blast
  note f = steps_put [OF this _ assms(3), of log]
  have e: "put p q log ?a = at p q s log" "put p q log ?c = at p q ?b (log @ cl_log ?c)"
    by (simp_all add: put_def at_def others_move_def Let_def)
  have "goes p [] q s log q ?b (log @ cl_log ?c)"
    using f e by (simp add: goes_def own_log_def)
  moreover have "m (sh_sys ?b) = (r, sh_sys s')" "s' = ?b\<lparr>sh_sys := sh_sys s'\<rparr>"
    using assms(1) by (auto simp: on_shared_def Let_def split: prod.splits)
  moreover have "\<forall>n. pg_locked (sys_db (sh_sys ?b)) n = locked_by_others (sh_pcs ?b) p"
    "sys_side (sh_sys ?b) = sys_side (sh_sys s)" "sh_moves ?b = sh_moves s"
    by (simp_all add: others_move_def Let_def sys_side_def)
  ultimately show ?thesis by (rule that)
qed

lemma shared_db:
  assumes "on_shared p (on_db m) s = (r, s')" "fair p s" "lock_of q = None"
  obtains s1 d log1 where "goes p [] q s log q s1 log1" "m (sys_db (sh_sys s1)) = (r, d)"
    "s' = s1\<lparr>sh_sys := (sh_sys s1)\<lparr>sys_db := d\<rparr>\<rparr>"
    "\<forall>n. pg_locked (sys_db (sh_sys s1)) n = locked_by_others (sh_pcs s1) p"
    "sys_side (sh_sys s') = sys_side (sh_sys s)" "fair p s'"
proof -
  obtain s1 w log1 where s1: "goes p [] q s log q s1 log1" "on_db m (sh_sys s1) = (r, w)" "s' = s1\<lparr>sh_sys := w\<rparr>"
    "\<forall>n. pg_locked (sys_db (sh_sys s1)) n = locked_by_others (sh_pcs s1) p"
    "sys_side (sh_sys s1) = sys_side (sh_sys s)" "sh_moves s1 = sh_moves s"
    using shared_call [OF assms] by blast
  obtain d where d: "m (sys_db (sh_sys s1)) = (r, d)" "w = (sh_sys s1)\<lparr>sys_db := d\<rparr>"
    using s1(2) by (auto simp: on_db_iff)
  have "sys_side (sh_sys s') = sys_side (sh_sys s)" "fair p s'"
    using s1(3,5,6) d(2) assms(2) by (simp_all add: sys_side_def fair_def)
  then show ?thesis using that [OF s1(1) d(1)] s1(3,4) d(2) by simp
qed

text \<open>A row once stored keeps its id and its envelope.\<close>

definition stored :: "uuid \<Rightarrow> string \<Rightarrow> tx_row list \<Rightarrow> bool" where
  "stored i x rows \<longleftrightarrow> (i, x) \<in> set (map (\<lambda>r. (tr_id r, tr_envelope_xdr r)) rows)"

lemma stored_set: "stored i x (set_status j st pk er t rows) = stored i x rows"
proof -
  have "map (\<lambda>r. (tr_id r, tr_envelope_xdr r)) (set_status j st pk er t rows) = map (\<lambda>r. (tr_id r, tr_envelope_xdr r)) rows"
    by (simp add: set_status_def update_tx_rows_def)
  then show ?thesis by (simp only: stored_def)
qed

lemma stored_step: "step w c c' \<Longrightarrow> stored i x (cl_txs c) \<Longrightarrow> stored i x (cl_txs c')"
  by (induction rule: step.induct) (auto simp: stored_set, simp add: stored_def)

lemma stored_goes:
  assumes "goes p own q s log q' s' log'" "stored i x (pg_transactions (sys_db (sh_sys s)))"
  shows "stored i x (pg_transactions (sys_db (sh_sys s')))"
proof -
  have "stored i x (cl_txs c')" if "steps UNIV c c'" "stored i x (cl_txs c)" for c c'
    using that unfolding steps_def by (induction rule: rtranclp_induct) (auto dest: stored_step)
  from this [of "at p q s log" "at p q' s' log'"] show ?thesis using assms by (simp add: goes_def)
qed

section \<open>The calls of the batch\<close>

text \<open>The last statement: the outcome is written, its error only logged.\<close>

lemma finish_goes:
  assumes "log_err (on_shared p (on_db (Store_UpdateTransactionStatus i st pk er))) (ret (Ok ())) s = (r, s')" "fair p s"
  shows "r = Ok () \<and> sys_side (sh_sys s') = sys_side (sh_sys s) \<and>
    (\<exists>log'. goes p [] (Concluding i pk (st, er)) s log Outside s' log')"
proof -
  let ?q = "Concluding i pk (st, er)"
  obtain r1 s2 where c: "on_shared p (on_db (Store_UpdateTransactionStatus i st pk er)) s = (r1, s2)" by fastforce
  obtain s1 d log1 where s1: "goes p [] ?q s log ?q s1 log1" and u: "Store_UpdateTransactionStatus i st pk er (sys_db (sh_sys s1)) = (r1, d)"
    and s2: "s2 = s1\<lparr>sh_sys := (sh_sys s1)\<lparr>sys_db := d\<rparr>\<rparr>" "sys_side (sh_sys s2) = sys_side (sh_sys s)"
    using shared_db [OF c assms(2), of ?q log] by (metis lock_of_simps(9))
  obtain eff t where e: "pg_transactions d = (if eff then set_status i st pk er t (pg_transactions (sys_db (sh_sys s1)))
      else pg_transactions (sys_db (sh_sys s1)))"
    using update_effect [OF u] by blast
  have s': "r = Ok ()" "s' = s2"
    using assms(1) c update_effect [OF u] by (cases r1; simp add: log_err_def try_call_def)+
  let ?c = "at p ?q s1 log1"
  have "at p Outside s' log1 = move p Outside (?c\<lparr>cl_txs :=
      (if eff then set_status i (fst (st, er)) pk (snd (st, er)) t (cl_txs ?c) else cl_txs ?c)\<rparr>)"
    using e s'(2) s2(1) update_effect [OF u] by (simp add: at_def move_def)
  then have "step p ?c (at p Outside s' log1)" by (simp only:) (rule step.conclude, simp)
  then have "goes p [] ?q s log Outside s' log1" using goes_silent [OF s1] goes_step by blast
  then show ?thesis using s' s2(2) by blast
qed

text \<open>From the leased account on: one call of the router.\<close>

lemma submit_goes:
  assumes "submit_leased us now (shared_engine p parse net cfg) tx
      \<lparr>acc_PublicKey = ca_PublicKey a, acc_EncryptedSecret = sec, acc_SequenceNumber = ca_SequenceNumber a\<rparr> s = (r, s')"
    and "fair p s"
  shows "sys_side (sh_sys s') = snd (Router_SubmitTransaction parse net (tx_EnvelopeXDR tx) (sys_side (sh_sys s))) \<and>
    (\<exists>log'. goes p [(p, tx_ID tx, ca_PublicKey a)] (Sequencing (tx_ID tx) x a) s log Outside s' log')"
proof -
  let ?i = "tx_ID tx" and ?k = "ca_PublicKey a" and ?R = "Router_SubmitTransaction parse net (tx_EnvelopeXDR tx)"
  obtain r1 s2 where c1: "on_shared p (on_db (Store_UpdateSequenceNumber ?k (ca_SequenceNumber a + 1))) s = (r1, s2)"
    by fastforce
  obtain s1 d1 log1 where s1: "goes p [] (Sequencing ?i x a) s log (Sequencing ?i x a) s1 log1"
    and u1: "Store_UpdateSequenceNumber ?k (ca_SequenceNumber a + 1) (sys_db (sh_sys s1)) = (r1, d1)"
    and s2: "s2 = s1\<lparr>sh_sys := (sh_sys s1)\<lparr>sys_db := d1\<rparr>\<rparr>" "sys_side (sh_sys s2) = sys_side (sh_sys s)" "fair p s2"
    using shared_db [OF c1 assms(2), of "Sequencing ?i x a" log] by (metis lock_of_simps(6))
  obtain eff1 where e1: "pg_channel_accounts d1 = (if eff1 then set_seq ?k (ca_SequenceNumber a + 1)
      (pg_channel_accounts (sys_db (sh_sys s1))) else pg_channel_accounts (sys_db (sh_sys s1)))"
    using seq_effect [OF u1] by blast
  let ?c = "at p (Sequencing ?i x a) s1 log1"
  have "at p (Calling ?i x a) s2 log1 = move p (Calling ?i x a) (?c\<lparr>cl_accts :=
      (if eff1 then set_seq ?k (ca_SequenceNumber a + 1) (cl_accts ?c) else cl_accts ?c)\<rparr>)"
    using e1 s2(1) seq_effect [OF u1] by (simp add: at_def move_def)
  then have "step p ?c (at p (Calling ?i x a) s2 log1)" by (simp only:) (rule step.sequence, simp)
  then have g2: "goes p [] (Sequencing ?i x a) s log (Calling ?i x a) s2 log1"
    using goes_silent [OF s1] goes_step by blast
  obtain rep s4 where c2: "on_shared p (on_router ?R) s2 = (rep, s4)" by fastforce
  obtain s3 w log3 where s3: "goes p [] (Calling ?i x a) s2 log1 (Calling ?i x a) s3 log3"
    and w: "on_router ?R (sh_sys s3) = (rep, w)" and s4: "s4 = s3\<lparr>sh_sys := w\<rparr>"
    and side3: "sys_side (sh_sys s3) = sys_side (sh_sys s2)" and moves: "sh_moves s3 = sh_moves s2"
    using shared_call [OF c2 s2(3), of "Calling ?i x a" log1] by (metis lock_of_simps(7))
  have db: "sys_db w = sys_db (sh_sys s3)" using on_router_db [of ?R "sh_sys s3"] w by simp
  have side: "sys_side (sh_sys s4) = snd (?R (sys_side (sh_sys s)))" "fst (?R (sys_side (sh_sys s))) = rep"
    using w s4 side3 s2(2) by (auto simp: on_router_def sys_side_def split: prod.splits)
  have fair: "fair p s4" using s2(3) s4 moves by (simp add: fair_def)
  let ?log = "log3 @ [(p, ?i, ?k)]"
  have run: "submit_leased us now (shared_engine p parse net cfg) tx \<lparr>acc_PublicKey = ?k, acc_EncryptedSecret = sec,
        acc_SequenceNumber = ca_SequenceNumber a\<rparr> s =
      (case rep of Panic \<Rightarrow> (Panic, s4)
       | Ok status \<Rightarrow> log_err (Pool_Release now (eg_pool (shared_engine p parse net cfg)) \<lparr>acc_PublicKey = ?k,
           acc_EncryptedSecret = sec, acc_SequenceNumber = ca_SequenceNumber a\<rparr>)
             (conclude us (shared_engine p parse net cfg) ?i ?k status) s4
       | Error e \<Rightarrow> log_err (Pool_Release now (eg_pool (shared_engine p parse net cfg)) \<lparr>acc_PublicKey = ?k,
           acc_EncryptedSecret = sec, acc_SequenceNumber = ca_SequenceNumber a\<rparr>)
             (failTransaction us (shared_engine p parse net cfg) ?i ?k e) s4)"
    using c1 c2 seq_effect [OF u1] by (cases r1; cases rep) (simp_all add: submit_leased_def log_err_def try_call_def)
  show ?thesis
  proof (cases "rep = Panic")
    case True
    then have s': "s' = s4" using assms(1) run by simp
    have "step p (at p (Calling ?i x a) s3 log3) (at p Outside s4 ?log)"
      using step.submit_dies [of "at p (Calling ?i x a) s3 log3" p ?i x a] db s4 by (simp add: at_def move_def)
    then have "goes p [(p, ?i, ?k)] (Sequencing ?i x a) s log Outside s4 ?log"
      using goes_submit goes_silent [OF g2] goes_silent [OF s3] by blast
    then show ?thesis using s' side by blast
  next
    case False
    let ?oc = "outcome_of us rep"
    have "step p (at p (Calling ?i x a) s3 log3) (at p (Releasing ?i a ?oc) s4 ?log)"
      using step.submit [of "at p (Calling ?i x a) s3 log3" p ?i x a rep us] False db s4 by (simp add: at_def move_def)
    then have g4: "goes p [(p, ?i, ?k)] (Sequencing ?i x a) s log (Releasing ?i a ?oc) s4 ?log"
      using goes_submit goes_silent [OF g2] goes_silent [OF s3] by blast
    let ?t = "now s4"
    obtain r5 s6 where c3: "on_shared p (on_db (Store_ReleaseChannelAccount ?k ?t)) s4 = (r5, s6)" by fastforce
    obtain s5 d5 log5 where s5: "goes p [] (Releasing ?i a ?oc) s4 ?log (Releasing ?i a ?oc) s5 log5"
      and u5: "Store_ReleaseChannelAccount ?k ?t (sys_db (sh_sys s5)) = (r5, d5)"
      and s6: "s6 = s5\<lparr>sh_sys := (sh_sys s5)\<lparr>sys_db := d5\<rparr>\<rparr>" "sys_side (sh_sys s6) = sys_side (sh_sys s4)" "fair p s6"
      using shared_db [OF c3 fair, of "Releasing ?i a ?oc" ?log] by (metis lock_of_simps(8))
    obtain eff5 where e5: "pg_channel_accounts d5 = (if eff5 then set_idle ?k ?t (pg_channel_accounts (sys_db (sh_sys s5)))
        else pg_channel_accounts (sys_db (sh_sys s5)))"
      using release_effect [OF u5] by blast
    let ?c5 = "at p (Releasing ?i a ?oc) s5 log5"
    have "at p (Concluding ?i ?k ?oc) s6 log5 = move p (Concluding ?i ?k ?oc) (?c5\<lparr>cl_accts :=
        (if eff5 then set_idle ?k ?t (cl_accts ?c5) else cl_accts ?c5)\<rparr>)"
      using e5 s6(1) release_effect [OF u5] by (simp add: at_def move_def)
    then have "step p ?c5 (at p (Concluding ?i ?k ?oc) s6 log5)" by (simp only:) (rule step.release, simp)
    then have g6: "goes p [] (Releasing ?i a ?oc) s4 ?log (Concluding ?i ?k ?oc) s6 log5"
      using goes_silent [OF s5] goes_step by blast
    have "log_err (on_shared p (on_db (Store_UpdateTransactionStatus ?i (fst ?oc) ?k (snd ?oc)))) (ret (Ok ())) s6 = (r, s')"
      using assms(1) run c3 release_effect [OF u5] False
      by (cases r5; cases rep)
         (auto simp: log_err_def try_call_def Pool_Release_def wrap_err_def conclude_def failTransaction_def
            outcome_of_def msg_text_def split: option.splits)
    from finish_goes [OF this s6(3)] obtain log' where
      "goes p [] (Concluding ?i ?k ?oc) s6 log5 Outside s' log'" "sys_side (sh_sys s') = sys_side (sh_sys s6)"
      by auto
    then show ?thesis using goes_trans [OF g4 goes_silent [OF g6]] side s6(2) by fastforce
  qed
qed

text \<open>The lease's statements, up to COMMIT, whose reply may be lost.\<close>

lemma lease_goes:
  assumes "lease_candidate (locked_by_others (sh_pcs s) p) (pg_channel_accounts (sys_db (sh_sys s))) = Some a"
    and "pg_channel_accounts (sys_db (sh_sys s')) = mark_leased (ar_public_key a) (pg_channel_accounts (sys_db (sh_sys s)))"
    and "pg_transactions (sys_db (sh_sys s')) = pg_transactions (sys_db (sh_sys s))" "sh_pcs s' = sh_pcs s"
  shows "goes p [] (Leasing i x) s log
    (if ok then Sequencing i x (account_of_row a) else Concluding i [] (TxStatusFailed, er)) s' log"
proof -
  let ?a = "account_of_row a"
  have lk: "locked_by_others ((sh_pcs s)(p := q)) p = locked_by_others (sh_pcs s) p" for q
    by (auto simp: locked_by_others_def fun_eq_iff)
  have "step p (at p (Leasing i x) s log) (move p (Marking i x ?a) (at p (Leasing i x) s log))"
    using assms(1) by (intro step.lease_select) (simp_all add: lk)
  then have s1: "step p (at p (Leasing i x) s log) (at p (Marking i x ?a) s log)" by (simp add: at_def move_def)
  have "step p (at p (Marking i x ?a) s log) (move p (Committing i x ?a) (at p (Marking i x ?a) s log))"
    by (intro step.lease_mark) simp
  then have s2: "step p (at p (Marking i x ?a) s log) (at p (Committing i x ?a) s log)"
    by (simp add: at_def move_def)
  let ?c = "at p (Committing i x ?a) s log"
  let ?q = "if ok then Sequencing i x ?a else Concluding i [] (TxStatusFailed, er)"
  have "at p ?q s' log = move p ?q (?c\<lparr>cl_accts :=
      (if True then mark_leased (ca_PublicKey ?a) (cl_accts ?c) else cl_accts ?c)\<rparr>)"
    using assms(2-4) by (simp add: at_def move_def account_of_row_def)
  then have s3: "step p ?c (at p ?q s' log)" by (simp only:) (rule step.lease_commit, simp_all)
  show ?thesis
    by (rule goes_silent [OF goes_step [OF s1] goes_silent [OF goes_step [OF s2] goes_step [OF s3]]])
qed

text \<open>What the batch logs: nothing, without touching the router, or its one submission.\<close>

definition one_submission ::
  "parse_envelope \<Rightarrow> ('n, 'sb) Net \<Rightarrow> nat \<Rightarrow> uuid \<Rightarrow> string \<Rightarrow> (nat \<times> uuid \<times> string) list \<Rightarrow>
   ('n, 'sb) shared \<Rightarrow> ('n, 'sb) shared \<Rightarrow> bool" where
  "one_submission parse net p i x own s s' \<longleftrightarrow>
     own = [] \<and> sys_side (sh_sys s') = sys_side (sh_sys s) \<or>
     (\<exists>k. own = [(p, i, k)] \<and> sys_side (sh_sys s') = snd (Router_SubmitTransaction parse net x (sys_side (sh_sys s))))"

text \<open>From the transaction read on.\<close>

lemma process_goes:
  assumes "process_one us now (shared_engine p parse net cfg) tx s = (r, s')" "fair p s"
  shows "\<exists>own log'. goes p own (Claiming (tx_ID tx) x) s log Outside s' log' \<and>
    one_submission parse net p (tx_ID tx) (tx_EnvelopeXDR tx) own s s'"
proof -
  let ?i = "tx_ID tx" and ?e = "shared_engine p parse net cfg"
  obtain r1 s2 where c1: "on_shared p (on_db (Store_UpdateTransactionStatus ?i TxStatusSubmitting [] [])) s = (r1, s2)"
    by fastforce
  obtain s1 d1 log1 where s1: "goes p [] (Claiming ?i x) s log (Claiming ?i x) s1 log1"
    and u1: "Store_UpdateTransactionStatus ?i TxStatusSubmitting [] [] (sys_db (sh_sys s1)) = (r1, d1)"
    and s2: "s2 = s1\<lparr>sh_sys := (sh_sys s1)\<lparr>sys_db := d1\<rparr>\<rparr>" "sys_side (sh_sys s2) = sys_side (sh_sys s)" "fair p s2"
    using shared_db [OF c1 assms(2), of "Claiming ?i x" log] by (metis lock_of_simps(2))
  note f1 = update_effect [OF u1]
  obtain eff t where e1: "r1 = Ok () \<longrightarrow> eff" "pg_transactions d1 = (if eff then
      set_status ?i TxStatusSubmitting [] [] t (pg_transactions (sys_db (sh_sys s1))) else pg_transactions (sys_db (sh_sys s1)))"
    using f1 by blast
  let ?q = "if r1 = Ok () then Leasing ?i x else Outside" and ?c = "at p (Claiming ?i x) s1 log1"
  have "at p ?q s2 log1 = move p ?q (?c\<lparr>cl_txs :=
        (if eff then set_status ?i TxStatusSubmitting [] [] t (cl_txs ?c) else cl_txs ?c)\<rparr>)"
    using e1(2) f1 s2(1) by (simp add: at_def move_def)
  then have "step p ?c (at p ?q s2 log1)" using e1(1) by (simp only:) (rule step.claim, simp_all)
  then have g2: "goes p [] (Claiming ?i x) s log ?q s2 log1" using goes_silent [OF s1] goes_step by blast
  show ?thesis
  proof (cases "r1 = Ok ()")
    case False
    then have "s' = s2" using assms(1) c1 f1 by (cases r1) (auto simp: process_one_def try_call_def)
    then show ?thesis using g2 False s2(2) by (auto simp: one_submission_def)
  next
    case ok: True
    obtain rl s4 where c2: "on_shared p (on_db Store_LeaseChannelAccount) s2 = (rl, s4)" by fastforce
    obtain s3 d3 log3 where s3: "goes p [] (Leasing ?i x) s2 log1 (Leasing ?i x) s3 log3"
      and l: "Store_LeaseChannelAccount (sys_db (sh_sys s3)) = (rl, d3)"
      and s4: "s4 = s3\<lparr>sh_sys := (sh_sys s3)\<lparr>sys_db := d3\<rparr>\<rparr>"
      and lk: "\<forall>n. pg_locked (sys_db (sh_sys s3)) n = locked_by_others (sh_pcs s3) p"
      and side4: "sys_side (sh_sys s4) = sys_side (sh_sys s2)" and fair4: "fair p s4"
      using shared_db [OF c2 s2(3), of "Leasing ?i x" log1] by (metis lock_of_simps(3))
    note f2 = lease_effect [OF l lk]
    have g3: "goes p [] (Claiming ?i x) s log (Leasing ?i x) s3 log3" using goes_silent [OF g2] ok s3 by simp
    have fail: ?thesis if "rl = Error e"
      and "\<And>msg. goes p [] (Leasing ?i x) s3 log3 (Concluding ?i [] (TxStatusFailed, msg)) s4 log3" for e
    proof -
      define msg where "msg = err_msg us (Wrap [Lit ''no channel account: ''] (Wrap [Lit ''leasing channel account from pool: ''] e))"
      have "log_err (on_shared p (on_db (Store_UpdateTransactionStatus ?i TxStatusFailed [] msg))) (ret (Ok ())) s4 = (r, s')"
        using assms(1) c1 c2 ok that(1)
        by (simp add: process_one_def try_call_def Pool_Lease_def failTransaction_def msg_def wrap_err_def)
      from finish_goes [OF this fair4] obtain log' where
        "goes p [] (Concluding ?i [] (TxStatusFailed, msg)) s4 log3 Outside s' log'" "sys_side (sh_sys s') = sys_side (sh_sys s4)"
        by blast
      then show ?thesis
        using goes_silent [OF g3] goes_silent [OF that(2)] side4 s2(2) unfolding one_submission_def by metis
    qed
    consider e where "rl = Error e" "pg_channel_accounts d3 = pg_channel_accounts (sys_db (sh_sys s3))"
      | a e where "lease_candidate (locked_by_others (sh_pcs s3) p) (pg_channel_accounts (sys_db (sh_sys s3))) = Some a"
          "rl = Error e" "pg_channel_accounts d3 = mark_leased (ar_public_key a) (pg_channel_accounts (sys_db (sh_sys s3)))"
      | a where "lease_candidate (locked_by_others (sh_pcs s3) p) (pg_channel_accounts (sys_db (sh_sys s3))) = Some a"
          "rl = Ok (Some (account_of_row a))"
          "pg_channel_accounts d3 = mark_leased (ar_public_key a) (pg_channel_accounts (sys_db (sh_sys s3)))"
      using f2 by blast
    then show ?thesis
    proof cases
      case (1 e)
      have "goes p [] (Leasing ?i x) s3 log3 (Concluding ?i [] (TxStatusFailed, msg)) s4 log3" for msg
      proof (rule goes_step)
        have "at p (Concluding ?i [] (TxStatusFailed, msg)) s4 log3 =
            move p (Concluding ?i [] (TxStatusFailed, msg)) (at p (Leasing ?i x) s3 log3)"
          using 1 f2 s4 by (simp add: at_def move_def)
        then show "step p (at p (Leasing ?i x) s3 log3) (at p (Concluding ?i [] (TxStatusFailed, msg)) s4 log3)"
          by (simp only:) (rule step.lease_error, simp)
      qed
      then show ?thesis using fail [OF 1(1)] by blast
    next
      case (2 a e)
      have "goes p [] (Leasing ?i x) s3 log3 (Concluding ?i [] (TxStatusFailed, msg)) s4 log3" for msg
        using lease_goes [of s3 p a s4 ?i x log3 False msg] 2 f2 s4 by simp
      then show ?thesis using fail [OF 2(2)] by blast
    next
      case (3 a)
      let ?a = "account_of_row a"
      have g4: "goes p [] (Leasing ?i x) s3 log3 (Sequencing ?i x ?a) s4 log3"
        using lease_goes [of s3 p a s4 ?i x log3 True] 3 f2 s4 by simp
      have "submit_leased us now ?e tx \<lparr>acc_PublicKey = ca_PublicKey ?a, acc_EncryptedSecret = ca_EncryptedSecret ?a,
          acc_SequenceNumber = ca_SequenceNumber ?a\<rparr> s4 = (r, s')"
        using assms(1) c1 c2 ok 3 by (simp add: process_one_def try_call_def Pool_Lease_def)
      from submit_goes [OF this fair4, of x log3] show ?thesis
        using goes_silent [OF g3] goes_silent [OF g4] side4 s2(2) unfolding one_submission_def by metis
    qed
  qed
qed

text \<open>
  C4. The handler is a process of the interleaving model. Let the other processes make any steps before
  each call of the handler, and keep the row locks they have then. Whatever they do, whatever
  statements fail and whatever the router answers, a whole run of \<open>processBatch\<close> is, together with the
  others' steps, a run of the step relation in which this process goes from outside to outside. What
  it adds to the submission log is what it does with the router: nothing, with the router and the
  network untouched, or one entry for a stored row, after exactly one submission of that row's
  envelope. The lease's transaction counts as one call.
\<close>

theorem batch_is_a_run:
  assumes "processBatch us now (shared_engine p parse net cfg) s = (r, s')"
    and "\<forall>n c. cl_pc c p = Outside \<longrightarrow> steps (- {p}) c (sh_moves s n c)"
  shows "\<exists>log' own. steps UNIV (at p Outside s log) (at p Outside s' log') \<and>
    filter (\<lambda>e. fst e = p) log' = filter (\<lambda>e. fst e = p) log @ own \<and>
    (own = [] \<and> sys_side (sh_sys s') = sys_side (sh_sys s) \<or>
     (\<exists>row k. row \<in> set (pg_transactions (sys_db (sh_sys s'))) \<and> own = [(p, tr_id row, k)] \<and>
        sys_side (sh_sys s') = snd (Router_SubmitTransaction parse net (tr_envelope_xdr row) (sys_side (sh_sys s)))))"
proof -
  have fair: "fair p s" using assms(2) by (simp add: fair_def)
  obtain rp s2 where c1: "on_shared p (on_db (Store_GetPendingTransactions 1)) s = (rp, s2)" by fastforce
  obtain s1 d1 log1 where s1: "goes p [] Outside s log Outside s1 log1"
    and g: "Store_GetPendingTransactions 1 (sys_db (sh_sys s1)) = (rp, d1)"
    and s2: "s2 = s1\<lparr>sh_sys := (sh_sys s1)\<lparr>sys_db := d1\<rparr>\<rparr>" "sys_side (sh_sys s2) = sys_side (sh_sys s)" "fair p s2"
    using shared_db [OF c1 fair, of Outside log] by (metis lock_of_simps(1))
  note f = pending_effect [OF g]
  have same: "at p q s2 l = at p q s1 l" for q l using f s2(1) by (simp add: at_def)
  show ?thesis
  proof (cases "\<exists>tx txs. rp = Ok (tx # txs)")
    case True
    then obtain tx txs where tx: "rp = Ok (tx # txs)" by blast
    then obtain row rest where row: "pending_rows (pg_transactions (sys_db (sh_sys s1))) = row # rest"
      "tx_ID tx = tr_id row" "tx_EnvelopeXDR tx = tr_envelope_xdr row"
      using f by blast
    have "process_one us now (shared_engine p parse net cfg) tx s2 = (r, s')"
      using assms(1) c1 tx by (simp add: processBatch_def try_call_def)
    from process_goes [OF this s2(3), of "tx_EnvelopeXDR tx" log1] obtain own log' where
      p: "goes p own (Claiming (tx_ID tx) (tx_EnvelopeXDR tx)) s2 log1 Outside s' log'"
        "one_submission parse net p (tx_ID tx) (tx_EnvelopeXDR tx) own s2 s'" by blast
    have "step p (at p Outside s1 log1) (move p (Claiming (tr_id row) (tr_envelope_xdr row)) (at p Outside s1 log1))"
      using row(1) by (intro step.fetch) simp_all
    then have "step p (at p Outside s1 log1) (at p (Claiming (tx_ID tx) (tx_EnvelopeXDR tx)) s2 log1)"
      using row unfolding same by (simp add: at_def move_def)
    then have run: "goes p own Outside s log Outside s' log'"
      using goes_silent [OF s1] goes_silent [OF goes_step] p(1) by blast
    have "row \<in> set (pg_transactions (sys_db (sh_sys s2)))"
      using row(1) f s2(1) pending_rows_set [of row "pg_transactions (sys_db (sh_sys s1))"] by simp
    then have "stored (tx_ID tx) (tx_EnvelopeXDR tx) (pg_transactions (sys_db (sh_sys s2)))"
      using row by (auto simp: stored_def)
    from stored_goes [OF p(1) this] obtain row' where "row' \<in> set (pg_transactions (sys_db (sh_sys s')))"
      "tr_id row' = tx_ID tx" "tr_envelope_xdr row' = tx_EnvelopeXDR tx" by (auto simp: stored_def)
    then show ?thesis
      using run p(2) s2(2) unfolding goes_def own_log_def one_submission_def by metis
  next
    case False
    then have "s' = s2"
      using assms(1) c1 f by (cases rp) (auto simp: processBatch_def try_call_def split: list.splits)
    then show ?thesis using s1 s2(2) same unfolding goes_def own_log_def by auto
  qed
qed

text \<open>
  The witness: process 1 holds the lock of account GA while its lease commits, two accounts are idle;
  it dies before the fourth call, so the lease meets its lock.
\<close>

definition contended :: "TransactionResult option res \<Rightarrow> ((unit, string) shared)" where
  "contended rep =
     \<lparr>sh_sys = sample_world rep (calm_db [sample_tx 4 ''pending'' (Some [])]
          [sample_acct ''GA'' ''idle'' None, sample_acct ''GB'' ''idle'' None] (Inr [])),
      sh_pcs = (\<lambda>w. Outside)(1 := Committing 7 ''BBBB'' (account_of_row (sample_acct ''GA'' ''idle'' None))),
      sh_calls = 0, sh_moves = (\<lambda>n c. if n = 3 then move 1 Outside c else c)\<rparr>"

theorem batch_is_a_run_witness:
  "\<exists>r s'. processBatch (\<lambda>_. ''id'') (\<lambda>_. 77) (shared_engine 0 sample_parse (sample_net (Error EOF)) sample_cfg)
       (contended (Error EOF)) = (r, s') \<and>
     (\<exists>log' own. steps UNIV (at 0 Outside (contended (Error EOF)) []) (at 0 Outside s' log') \<and>
        filter (\<lambda>e. fst e = 0) log' = own)"
proof -
  let ?s = "contended (Error EOF)"
  obtain r s' where b: "processBatch (\<lambda>_. ''id'') (\<lambda>_. 77)
      (shared_engine 0 sample_parse (sample_net (Error EOF)) sample_cfg) ?s = (r, s')"
    by fastforce
  have d: "step 1 c (move 1 Outside c)" for c by (rule step.dies)
  have "\<forall>n c. cl_pc c 0 = Outside \<longrightarrow> steps (- {0}) c (sh_moves ?s n c)"
    using d by (auto simp: contended_def steps_def intro!: r_into_rtranclp bexI [of _ 1])
  from batch_is_a_run [OF b this, of "[]"] show ?thesis using b by (auto simp del: fun_upd_apply)
qed

end
