(* ===== verification/Json.thy ===== *)
theory Json
  imports Utf8
begin

text \<open>
  What encoding/json writes for the values the API and its client marshal: objects with string keys
  whose values are strings, integers or such objects. Keys are sorted; strings are escaped as
  \<open>appendString\<close> does with HTML escaping on, the default of \<open>Marshal\<close> and of an \<open>Encoder\<close>.
\<close>

section \<open>Escaping\<close>

definition hex_digit :: "nat \<Rightarrow> char" where
  "hex_digit n = (if n < 10 then char_of (48 + n) else char_of (87 + n))"

definition quote_char :: char where
  "quote_char = CHR 0x22"

definition backslash :: char where
  "backslash = CHR 0x5C"

text \<open>One ASCII byte.\<close>

definition escape_byte :: "char \<Rightarrow> string" where
  "escape_byte c =
     (if c = quote_char \<or> c = backslash then [backslash, c]
      else if c = CHR 0x08 then [backslash, CHR ''b'']
      else if c = CHR 0x0C then [backslash, CHR ''f'']
      else if c = CHR 0x0A then [backslash, CHR ''n'']
      else if c = CHR 0x0D then [backslash, CHR ''r'']
      else if c = CHR 0x09 then [backslash, CHR ''t'']
      else if of_char c < (0x20 :: nat) \<or> c = CHR ''<'' \<or> c = CHR ''>'' \<or> c = CHR ''&''
      then backslash # ''u00'' @ [hex_digit (of_char c div 16), hex_digit (of_char c mod 16)]
      else [c])"

text \<open>The line separators U+2028 and U+2029 in UTF-8.\<close>

definition line_separator :: "string \<Rightarrow> bool" where
  "line_separator s \<longleftrightarrow> s = [CHR 0xE2, CHR 0x80, CHR 0xA8] \<or> s = [CHR 0xE2, CHR 0x80, CHR 0xA9]"

function json_escape :: "string \<Rightarrow> string" where
  "json_escape [] = []"
| "json_escape (c # cs) =
     (if of_char c < (0x80 :: nat) then escape_byte c @ json_escape cs
      else let n = rune_len (c # cs) in
        if n = 0 then backslash # ''ufffd'' @ json_escape cs
        else if line_separator (take n (c # cs))
        then backslash # ''u202'' @ [hex_digit (of_char (last (take n (c # cs))) mod 16)] @ json_escape (drop n (c # cs))
        else take n (c # cs) @ json_escape (drop n (c # cs)))"
  by pat_completeness auto

termination
  by (relation "measure length") (auto simp: Let_def)

definition json_string :: "string \<Rightarrow> string" where
  "json_string s = quote_char # json_escape s @ [quote_char]"

section \<open>Values\<close>

datatype json = JStr string | JNum int | JObj "(string \<times> json) list"

definition comma_join :: "string list \<Rightarrow> string" where
  "comma_join xs = (case xs of [] \<Rightarrow> [] | y # ys \<Rightarrow> y @ concat (map (\<lambda>z. CHR '','' # z) ys))"

text \<open>Entries are encoded with their key and then put in the order of the keys.\<close>

primrec json_text :: "json \<Rightarrow> string" where
  "json_text (JStr s) = json_string s"
| "json_text (JNum n) = itoa n"
| "json_text (JObj kvs) =
     ''{'' @ comma_join (map (\<lambda>(k, t). json_string k @ '':'' @ t)
        (sort_key fst (map (map_prod id json_text) kvs))) @ ''}''"

definition json_Marshal :: "json \<Rightarrow> goerr + string" where
  "json_Marshal v = Inr (json_text v)"

section \<open>Facts\<close>

text \<open>No control byte survives: a marshalled value is one line.\<close>

definition no_control :: "string \<Rightarrow> bool" where
  "no_control s \<longleftrightarrow> (\<forall>c \<in> set s. (0x20 :: nat) \<le> of_char c)"

lemma no_control_append [simp]: "no_control (s @ t) \<longleftrightarrow> no_control s \<and> no_control t"
  by (auto simp: no_control_def)

lemma no_control_simps [simp]:
  "no_control []" "no_control (c # s) \<longleftrightarrow> (0x20 :: nat) \<le> of_char c \<and> no_control s"
  by (auto simp: no_control_def)

lemma no_control_concat: "(\<forall>s \<in> set ss. no_control s) \<Longrightarrow> no_control (concat ss)"
  by (induction ss) auto

lemma no_control_newline: "no_control s \<Longrightarrow> CHR 0x0A \<notin> set s"
  by (auto simp: no_control_def)

lemma hex_digit_printable: "n < 16 \<Longrightarrow> (0x20 :: nat) \<le> of_char (hex_digit n)"
  by (simp add: hex_digit_def of_char_of)

lemma no_control_escape_byte: "of_char c < (0x80 :: nat) \<Longrightarrow> no_control (escape_byte c)"
  by (auto simp: escape_byte_def quote_char_def backslash_def hex_digit_printable)

lemma lead_bytes:
  "lead2 a b \<Longrightarrow> (0x80 :: nat) \<le> of_char a \<and> (0x80 :: nat) \<le> of_char b"
  "lead3 a b \<Longrightarrow> (0x80 :: nat) \<le> of_char a \<and> (0x80 :: nat) \<le> of_char b"
  "lead4 a b \<Longrightarrow> (0x80 :: nat) \<le> of_char a \<and> (0x80 :: nat) \<le> of_char b"
  "tail_byte a \<Longrightarrow> (0x80 :: nat) \<le> of_char a"
  by (auto simp: lead2_def lead3_def lead4_def tail_byte_def byte_in_def)

lemma rune_bytes:
  assumes "i < rune_len s"
  shows "i < length s \<and> (0x80 :: nat) \<le> of_char (s ! i)"
  using assms unfolding rune_len_def
  by (auto split: if_splits dest!: lead_bytes simp: less_Suc_eq numeral_2_eq_2 numeral_3_eq_3 eval_nat_numeral)

lemma rune_take: "\<forall>c \<in> set (take (rune_len s) s). (0x80 :: nat) \<le> of_char c"
  using rune_bytes [of _ s] by (auto simp: in_set_conv_nth)

lemma no_control_json_escape: "no_control (json_escape s)"
proof (induction s rule: json_escape.induct)
  case (2 c cs)
  have "no_control (take (rune_len (c # cs)) (c # cs))" 
    using rune_take [of "c # cs"] by (force simp: no_control_def)
  then show ?case
    using 2 by (auto simp: Let_def no_control_escape_byte hex_digit_printable backslash_def)
qed simp

lemma no_control_json_string: "no_control (json_string s)"
  by (simp add: json_string_def no_control_json_escape quote_char_def)

lemma no_control_dec_digits: "no_control (dec_digits n)"
  by (induction n rule: dec_digits.induct) (subst dec_digits.simps, simp add: of_char_of)

lemma no_control_itoa: "no_control (itoa i)"
  by (simp add: itoa_def no_control_dec_digits)

lemma no_control_comma_join: "(\<forall>s \<in> set ss. no_control s) \<Longrightarrow> no_control (comma_join ss)"
  by (auto simp: comma_join_def intro!: no_control_concat split: list.split)

lemma no_control_json_text: "no_control (json_text v)"
proof (induction v)
  case (JObj kvs)
  show ?case
    using JObj by (fastforce intro!: no_control_comma_join simp: no_control_json_string snds.simps)
qed (simp_all add: no_control_json_string no_control_itoa)

lemma json_obj_ends: "\<exists>b. json_text (JObj kvs) = ''{'' @ b @ ''}''"
  by simp

end
