(* ===== verification/Migration.thy ===== *)
theory Migration
  imports Store Strconv Json
begin

text \<open>
  internal/store/migration.go: the migration runner. The database here is the tracking table
  \<open>_migrations\<close> and the schema the scripts act on; what a script does is a parameter, and it does not
  touch the tracking table. Round trips fail as in theory \<open>Store\<close>. The embedded files are parameters:
  the names in the order \<open>ReadDir\<close> lists them and their contents.
\<close>

section \<open>The number of a migration file\<close>

text \<open>
  \<open>Sscanf(name, "%d_", &id)\<close>: white space is skipped, a newline in it is an error; then an optional
  sign, digits and an underscore, and the number must fit an \<open>int\<close>. What follows is ignored.
\<close>

definition scan_space :: "string \<Rightarrow> string option" where
  "scan_space s =
     (let t = trim_front (filter (\<lambda>p. p \<noteq> newline) space_seqs) s
      in if has_prefix t newline then None else Some t)"

definition accept_sign :: "string \<Rightarrow> string \<times> string" where
  "accept_sign s =
     (case s of
        [] \<Rightarrow> ([], [])
      | c # cs \<Rightarrow> (if c = CHR ''+'' \<or> c = CHR ''-'' then ([c], cs) else ([], s)))"

definition Sscanf_d_underscore :: "string \<Rightarrow> int option" where
  "Sscanf_d_underscore name =
     (case scan_space name of
        None \<Rightarrow> None
      | Some s \<Rightarrow>
          (let (sign, t) = accept_sign s; ds = takeWhile is_digit t; rest = dropWhile is_digit t in
           if ds = [] then None
           else case Atoi (sign @ ds) of
             None \<Rightarrow> None
           | Some i \<Rightarrow> (if has_prefix rest ''_'' then Some i else None)))"

definition extractMigrationID :: "string \<Rightarrow> int \<times> bool" where
  "extractMigrationID name =
     (case Sscanf_d_underscore name of
        None \<Rightarrow> (0, False)
      | Some i \<Rightarrow> (i, length name > 3 \<and> drop (length name - 4) name = ''.sql''))"

section \<open>The database of the runner\<close>

record mig_row =
  mr_id :: int
  mr_name :: string
  mr_applied_at :: time

record 'sch mgdb =
  mg_migrations :: "mig_row list option"
  mg_schema :: 'sch
  mg_calls :: nat
  mg_fault :: "nat \<Rightarrow> fault option"
  mg_clock :: "nat \<Rightarrow> time"

text \<open>
  What is not under src: the effect of a script on the schema, the server's error values, the embedded
  files.
\<close>

record 'sch mig_env =
  me_exec :: "string \<Rightarrow> 'sch \<Rightarrow> goerr + 'sch"
  me_error :: "pg_condition \<Rightarrow> goerr"
  me_undefined_table :: goerr
  me_ReadDir :: "string \<Rightarrow> goerr + string list"
  me_ReadFile :: "string \<Rightarrow> goerr + string"

definition mg_tick :: "'sch mgdb \<Rightarrow> 'sch mgdb" where
  "mg_tick d = d\<lparr>mg_calls := Suc (mg_calls d)\<rparr>"

text \<open>One round trip whose effect \<open>body\<close> is committed, or a COMMIT with the effect it makes visible.\<close>

definition mg_stmt :: "('sch mgdb, 'a) op \<Rightarrow> ('sch mgdb, 'a) op" where
  "mg_stmt body d =
     (case mg_fault d (mg_calls d) of
        None \<Rightarrow> body (mg_tick d)
      | Some (NotRun e) \<Rightarrow> (Error e, mg_tick d)
      | Some (ReplyLost e) \<Rightarrow> (Error e, snd (body (mg_tick d))))"

text \<open>One round trip inside an open transaction: \<open>f\<close> computes from the state what becomes visible later.\<close>

definition mg_in_tx :: "('sch mgdb \<Rightarrow> goerr + 'a) \<Rightarrow> ('sch mgdb, 'a) op" where
  "mg_in_tx f d =
     (case mg_fault d (mg_calls d) of
        None \<Rightarrow> (of_sum (f d), mg_tick d)
      | Some (NotRun e) \<Rightarrow> (Error e, mg_tick d)
      | Some (ReplyLost e) \<Rightarrow> (Error e, mg_tick d))"

section \<open>The statements\<close>

definition sql_create_migrations :: "('sch mgdb, unit) op" where
  "sql_create_migrations d =
     (Ok (), d\<lparr>mg_migrations := (case mg_migrations d of None \<Rightarrow> Some [] | Some rows \<Rightarrow> Some rows)\<rparr>)"

definition sql_applied :: "'sch mig_env \<Rightarrow> ('sch mgdb, int list) op" where
  "sql_applied env d =
     (case mg_migrations d of
        None \<Rightarrow> (Error (me_undefined_table env), d)
      | Some rows \<Rightarrow> (Ok (sort (map mr_id rows)), d))"

text \<open>\<open>now()\<close> is the time the transaction began.\<close>

definition sql_record :: "'sch mig_env \<Rightarrow> time \<Rightarrow> int \<Rightarrow> string \<Rightarrow> 'sch mgdb \<Rightarrow> goerr + mig_row list" where
  "sql_record env began i name d =
     (if \<not> int4_ok i then Inl (me_error env NumericOutOfRange)
      else case mg_migrations d of
        None \<Rightarrow> Inl (me_undefined_table env)
      | Some rows \<Rightarrow>
          (if i \<in> mr_id ` set rows then Inl (me_error env UniqueViolation)
           else Inr (rows @ [\<lparr>mr_id = i, mr_name = name, mr_applied_at = began\<rparr>])))"

section \<open>The runner\<close>

text \<open>The deferred \<open>Rollback\<close> discards the transaction on every error path and does nothing after COMMIT.\<close>

definition runMigration :: "'sch mig_env \<Rightarrow> int \<Rightarrow> string \<Rightarrow> string \<Rightarrow> ('sch mgdb, unit) op" where
  "runMigration env i name sql =
     try_call (mg_in_tx (\<lambda>d. Inr (mg_clock d (mg_calls d))))
       (\<lambda>began. try_call (mg_in_tx (\<lambda>d. me_exec env sql (mg_schema d)))
          (\<lambda>sch. try_call (mg_in_tx (sql_record env began i name))
             (\<lambda>rows. mg_stmt (\<lambda>d. (Ok (), d\<lparr>mg_schema := sch, mg_migrations := Some rows\<rparr>)))
             (\<lambda>e. ret (Error (Wrap [Lit ''recording migration '', Num i, Lit '': ''] e))))
          (\<lambda>e. ret (Error (Wrap [Lit ''executing migration '', Num i, Lit '': ''] e))))
       (\<lambda>e. ret (Error (Wrap [Lit ''beginning migration tx '', Num i, Lit '': ''] e)))"

primrec migrate_files :: "'sch mig_env \<Rightarrow> int set \<Rightarrow> string list \<Rightarrow> ('sch mgdb, unit) op" where
  "migrate_files env appliedSet [] = ret (Ok ())"
| "migrate_files env appliedSet (f # fs) =
     (let (i, ext) = extractMigrationID f in
      if \<not> ext \<or> i \<le> 0 then migrate_files env appliedSet fs
      else if i \<in> appliedSet then migrate_files env appliedSet fs
      else case me_ReadFile env (''migrations/'' @ f) of
        Inl e \<Rightarrow> ret (Error (Wrap [Lit ''reading migration '', Lit f, Lit '': ''] e))
      | Inr data \<Rightarrow> try_call (runMigration env i f data)
          (\<lambda>_. migrate_files env appliedSet fs)
          (\<lambda>e. ret (Error e)))"

definition query_applied :: "'sch mig_env \<Rightarrow> ('sch mgdb, int list) op" where
  "query_applied env d =
     (case mg_fault d (mg_calls d) of
        Some (NotRun e) \<Rightarrow> (Error (Wrap [Lit ''querying applied migrations: ''] e), mg_tick d)
      | Some (ReplyLost e) \<Rightarrow> (Error (Wrap [Lit ''collecting applied migrations: ''] e), mg_tick d)
      | None \<Rightarrow> wrap_err [Lit ''collecting applied migrations: ''] (sql_applied env) (mg_tick d))"

definition migrate :: "'sch mig_env \<Rightarrow> ('sch mgdb, unit) op" where
  "migrate env =
     try_call (mg_stmt sql_create_migrations)
       (\<lambda>_. try_call (query_applied env)
          (\<lambda>applied. case me_ReadDir env ''migrations'' of
               Inl e \<Rightarrow> ret (Error (Wrap [Lit ''reading migration files: ''] e))
             | Inr files \<Rightarrow> migrate_files env (set applied) files)
          (\<lambda>e. ret (Error e)))
       (\<lambda>e. ret (Error (Wrap [Lit ''creating migration tracking table: ''] e)))"

section \<open>The specification: files applied one after the other\<close>

text \<open>
  What the operator sees: the ids and names recorded, and the schema. \<open>apply_files\<close> is the plan: the
  numbered files whose id is not among \<open>done\<close>, in order, each recorded with its effect; None if one
  cannot be applied.
\<close>

definition mg_view :: "'sch mgdb \<Rightarrow> (int \<times> string) list \<times> 'sch" where
  "mg_view d = (case mg_migrations d of None \<Rightarrow> [] | Some rows \<Rightarrow> map (\<lambda>r. (mr_id r, mr_name r)) rows, mg_schema d)"

definition apply_one :: "'sch mig_env \<Rightarrow> int \<Rightarrow> string \<Rightarrow> (int \<times> string) list \<times> 'sch \<Rightarrow> ((int \<times> string) list \<times> 'sch) option" where
  "apply_one env i f v =
     (case me_ReadFile env (''migrations/'' @ f) of
        Inl e \<Rightarrow> None
      | Inr sql \<Rightarrow>
          (case me_exec env sql (snd v) of
             Inl e \<Rightarrow> None
           | Inr sch \<Rightarrow> (if int4_ok i \<and> i \<notin> fst ` set (fst v) then Some (fst v @ [(i, f)], sch) else None)))"

fun apply_files :: "'sch mig_env \<Rightarrow> int set \<Rightarrow> string list \<Rightarrow> (int \<times> string) list \<times> 'sch \<Rightarrow> ((int \<times> string) list \<times> 'sch) option" where
  "apply_files env done [] v = Some v"
| "apply_files env done (f # fs) v =
     (case extractMigrationID f of (i, ext) \<Rightarrow>
        if \<not> ext \<or> i \<le> 0 \<or> i \<in> done then apply_files env done fs v
        else case apply_one env i f v of None \<Rightarrow> None | Some v' \<Rightarrow> apply_files env done fs v')"

definition recorded :: "(int \<times> string) list \<times> 'sch \<Rightarrow> int set" where
  "recorded v = fst ` set (fst v)"

section \<open>The runner refines the plan\<close>

lemma mg_tick_simps [simp]:
  "mg_migrations (mg_tick d) = mg_migrations d" "mg_schema (mg_tick d) = mg_schema d"
  "mg_fault (mg_tick d) = mg_fault d" "mg_clock (mg_tick d) = mg_clock d"
  "mg_calls (mg_tick d) = Suc (mg_calls d)" "mg_view (mg_tick d) = mg_view d"
  by (simp_all add: mg_tick_def mg_view_def)

lemma mg_in_tx_cases:
  assumes "mg_in_tx f d = (r, d')"
  obtains e where "r = Error e" "d' = mg_tick d" | a where "r = Ok a" "f d = Inr a" "d' = mg_tick d"
  using assms by (cases "f d") (auto simp: mg_in_tx_def split: option.splits fault.splits)

lemma mg_stmt_cases:
  assumes "mg_stmt (\<lambda>d. (Ok (), g d)) d = (r, d')"
  obtains e where "r = Error e" "d' = mg_tick d" | "r = Ok ()" "d' = g (mg_tick d)"
  | e where "r = Error e" "d' = g (mg_tick d)"
  using assms by (auto simp: mg_stmt_def split: option.splits fault.splits)

text \<open>What every step of the runner keeps: the environment, and the tracking table once it exists.\<close>

definition mg_kept :: "'sch mgdb \<Rightarrow> 'sch mgdb \<Rightarrow> bool" where
  "mg_kept d d' \<longleftrightarrow> mg_fault d' = mg_fault d \<and> mg_calls d \<le> mg_calls d' \<and>
     (mg_migrations d \<noteq> None \<longrightarrow> mg_migrations d' \<noteq> None)"

lemma mg_kept_refl [simp]: "mg_kept d d"
  by (simp add: mg_kept_def)

lemma mg_kept_tick [simp]: "mg_kept d d' \<Longrightarrow> mg_kept d (mg_tick d')"
  by (simp add: mg_kept_def)

lemma mg_kept_trans: "mg_kept d d' \<Longrightarrow> mg_kept d' d'' \<Longrightarrow> mg_kept d d''"
  by (auto simp: mg_kept_def)

text \<open>One file: applied whole, or not at all; only a lost reply to COMMIT hides that it was applied.\<close>

lemma runMigration_atomic:
  assumes "runMigration env i f sql d = (r, d')" "me_ReadFile env (''migrations/'' @ f) = Inr sql"
  shows "r \<noteq> Panic \<and> mg_kept d d' \<and>
    (mg_view d' = mg_view d \<and> r \<noteq> Ok () \<or> apply_one env i f (mg_view d) = Some (mg_view d'))"
proof -
  obtain r1 d1 where s1: "mg_in_tx (\<lambda>d. Inr (mg_clock d (mg_calls d))) d = (r1, d1)"
    by (cases "mg_in_tx (\<lambda>d. Inr (mg_clock d (mg_calls d))) d")
  show ?thesis
  proof (cases rule: mg_in_tx_cases [OF s1])
    case (1 e)
    then show ?thesis using assms(1) s1 by (auto simp: runMigration_def try_call_def)
  next
    case (2 began)
    note b = this
    obtain r2 d2 where s2: "mg_in_tx (\<lambda>d. me_exec env sql (mg_schema d)) d1 = (r2, d2)"
      by (cases "mg_in_tx (\<lambda>d. me_exec env sql (mg_schema d)) d1")
    show ?thesis
    proof (cases rule: mg_in_tx_cases [OF s2])
      case (1 e)
      then show ?thesis using assms(1) s1 s2 b by (auto simp: runMigration_def try_call_def)
    next
      case (2 sch)
      note x = this
      obtain r3 d3 where s3: "mg_in_tx (sql_record env began i f) d2 = (r3, d3)"
        by (cases "mg_in_tx (sql_record env began i f) d2")
      show ?thesis
      proof (cases rule: mg_in_tx_cases [OF s3])
        case (1 e)
        then show ?thesis using assms(1) s1 s2 s3 b x by (auto simp: runMigration_def try_call_def)
      next
        case (2 rows)
        let ?g = "\<lambda>d. d\<lparr>mg_schema := sch, mg_migrations := Some rows\<rparr>"
        have run: "mg_stmt (\<lambda>d. (Ok (), ?g d)) d3 = (r, d')"
          using assms(1) s1 s2 s3 b x 2 by (simp add: runMigration_def try_call_def)
        have one: "apply_one env i f (mg_view d) = Some (mg_view (?g (mg_tick d3)))"
          using assms(2) b x 2
          by (auto simp: apply_one_def mg_view_def sql_record_def image_image split: if_splits option.splits)
        have k: "mg_kept d (?g (mg_tick d3))" "mg_view d3 = mg_view d" "mg_kept d d3"
          using b x 2 by (simp_all add: mg_kept_def)
        show ?thesis by (cases rule: mg_stmt_cases [OF run]) (use one k in simp_all)
      qed
    qed
  qed
qed

text \<open>The loop: under any faults it leaves the plan's state for some prefix of the files.\<close>

lemma migrate_files_prefix:
  assumes "migrate_files env done fs d = (r, d')"
  shows "r \<noteq> Panic \<and> mg_kept d d' \<and>
    (\<exists>k \<le> length fs. apply_files env done (take k fs) (mg_view d) = Some (mg_view d') \<and>
       (r = Ok () \<longrightarrow> k = length fs))"
  using assms
proof (induction fs arbitrary: d)
  case Nil
  then have "Ok () = r" "d = d'" by simp_all
  then show ?case by (auto simp del: migrate_files.simps)
next
  case (Cons f fs)
  obtain i ext where e: "extractMigrationID f = (i, ext)" by (cases "extractMigrationID f")
  show ?case
  proof (cases "\<not> ext \<or> i \<le> 0 \<or> i \<in> done")
    case True
    then have "migrate_files env done fs d = (r, d')" using Cons.prems e by (auto split: if_splits)
    from Cons.IH [OF this] obtain k where "r \<noteq> Panic" "mg_kept d d'" "k \<le> length fs"
      "apply_files env done (take k fs) (mg_view d) = Some (mg_view d')" "r = Ok () \<longrightarrow> k = length fs" by blast
    then show ?thesis using True e by (auto intro!: exI [of _ "Suc k"])
  next
    case False
    show ?thesis
    proof (cases "me_ReadFile env (''migrations/'' @ f)")
      case (Inl x)
      then show ?thesis using Cons.prems e False by (auto intro!: exI [of _ 0])
    next
      case (Inr sql)
      obtain r1 d1 where s: "runMigration env i f sql d = (r1, d1)" by (cases "runMigration env i f sql d")
      note a = runMigration_atomic [OF s Inr]
      show ?thesis
      proof (cases r1)
        case (Ok u)
        then have "migrate_files env done fs d1 = (r, d')"
          using Cons.prems e False Inr s by (simp add: try_call_def)
        from Cons.IH [OF this] obtain k where k: "r \<noteq> Panic" "mg_kept d1 d'" "k \<le> length fs"
          "apply_files env done (take k fs) (mg_view d1) = Some (mg_view d')" "r = Ok () \<longrightarrow> k = length fs" by blast
        have "apply_one env i f (mg_view d) = Some (mg_view d1)" "mg_kept d d1" using a Ok by auto
        then show ?thesis
          using k e False by (auto intro!: exI [of _ "Suc k"] intro: mg_kept_trans)
      next
        case (Error x)
        then have r: "r = Error x" "d' = d1" using Cons.prems e False Inr s by (simp_all add: try_call_def)
        show ?thesis
        proof (cases "mg_view d1 = mg_view d")
          case True
          then show ?thesis using r a by (auto intro!: exI [of _ 0])
        next
          case False
          then have "apply_one env i f (mg_view d) = Some (mg_view d1)" using a by auto
          then show ?thesis
            using r a e \<open>\<not> (\<not> ext \<or> i \<le> 0 \<or> i \<in> done)\<close> by (auto intro!: exI [of _ 1])
        qed
      qed (use a in simp)
    qed
  qed
qed


lemma create_view: "mg_view (snd (sql_create_migrations d)) = mg_view d"
  by (simp add: sql_create_migrations_def mg_view_def split: option.split)

lemma create_run:
  assumes "mg_stmt sql_create_migrations d = (r, d')"
  shows "r \<noteq> Panic \<and> mg_view d' = mg_view d \<and> (r = Ok () \<longrightarrow> mg_migrations d' \<noteq> None)"
  using assms create_view [of "mg_tick d"]
  by (auto simp: mg_stmt_def sql_create_migrations_def split: option.splits fault.splits)

lemma query_run:
  assumes "query_applied env d = (r, d')"
  shows "r \<noteq> Panic \<and> d' = mg_tick d \<and> (\<forall>ids. r = Ok ids \<longrightarrow> set ids = recorded (mg_view d))"
  using assms
  by (auto simp: query_applied_def wrap_err_def try_call_def sql_applied_def recorded_def mg_view_def image_image
      split: option.splits fault.splits)

lemma migrate_prefix:
  assumes "migrate env d = (r, d')"
  shows "r \<noteq> Panic \<and>
    (mg_view d' = mg_view d \<and> r \<noteq> Ok () \<or>
     (\<exists>files k. me_ReadDir env ''migrations'' = Inr files \<and> k \<le> length files \<and>
        apply_files env (recorded (mg_view d)) (take k files) (mg_view d) = Some (mg_view d') \<and>
        (r = Ok () \<longrightarrow> k = length files)))"
proof -
  obtain r1 d1 where c: "mg_stmt sql_create_migrations d = (r1, d1)" by (cases "mg_stmt sql_create_migrations d")
  obtain r2 d2 where q: "query_applied env d1 = (r2, d2)" by (cases "query_applied env d1")
  note f = create_run [OF c] query_run [OF q]
  show ?thesis
  proof (cases r1)
    case (Error e)
    then show ?thesis using assms c f by (auto simp: migrate_def try_call_def)
  next
    case ok1: (Ok u)
    show ?thesis
    proof (cases r2)
      case (Error e)
      then show ?thesis using assms c q f ok1 by (auto simp: migrate_def try_call_def)
    next
      case ok2: (Ok ids)
      show ?thesis
      proof (cases "me_ReadDir env ''migrations''")
        case (Inl e)
        then show ?thesis using assms c q f ok1 ok2 by (auto simp: migrate_def try_call_def)
      next
        case (Inr files)
        have "migrate_files env (recorded (mg_view d)) files d2 = (r, d')"
          using assms c q f ok1 ok2 Inr by (simp add: migrate_def try_call_def)
        from migrate_files_prefix [OF this] show ?thesis using f Inr by auto
      qed
    qed (use f in simp)
  qed (use f in simp)
qed

section \<open>Facts about the plan\<close>

definition numbered :: "string \<Rightarrow> bool" where
  "numbered f \<longleftrightarrow> snd (extractMigrationID f) \<and> 0 < fst (extractMigrationID f)"

definition pending_files :: "int set \<Rightarrow> string list \<Rightarrow> string list" where
  "pending_files done files = filter (\<lambda>f. numbered f \<and> fst (extractMigrationID f) \<notin> done) files"

lemma apply_files_skip [simp]:
  "\<not> numbered f \<or> fst (extractMigrationID f) \<in> done \<Longrightarrow> apply_files env done (f # fs) v = apply_files env done fs v"
  by (auto simp: numbered_def split: prod.split)

lemma apply_files_step:
  "numbered f \<Longrightarrow> fst (extractMigrationID f) \<notin> done \<Longrightarrow> apply_files env done (f # fs) v =
     Option.bind (apply_one env (fst (extractMigrationID f)) f v) (apply_files env done fs)"
  by (auto simp: numbered_def split: prod.split option.split)

declare apply_files.simps(2) [simp del]

lemma apply_files_append:
  "apply_files env done (xs @ ys) v = Option.bind (apply_files env done xs v) (apply_files env done ys)"
proof (induction xs arbitrary: v)
  case (Cons f xs)
  then show ?case
    by (cases "numbered f \<and> fst (extractMigrationID f) \<notin> done")
       (auto simp: apply_files_step split: bind_splits)
qed simp

lemma apply_one_Some:
  "apply_one env i f v = Some v' \<Longrightarrow> fst v' = fst v @ [(i, f)] \<and> i \<notin> recorded v \<and> int4_ok i"
  by (auto simp: apply_one_def recorded_def split: sum.splits if_splits)

lemma apply_files_rows:
  assumes "apply_files env done fs v = Some v'"
  shows "fst v' = fst v @ map (\<lambda>f. (fst (extractMigrationID f), f)) (pending_files done fs) \<and>
    distinct (map (\<lambda>f. fst (extractMigrationID f)) (pending_files done fs)) \<and>
    recorded v \<inter> (\<lambda>f. fst (extractMigrationID f)) ` set (pending_files done fs) = {}"
  using assms
proof (induction fs arbitrary: v)
  case (Cons f fs)
  show ?case
  proof (cases "numbered f \<and> fst (extractMigrationID f) \<notin> done")
    case True
    then obtain v1 where v1: "apply_one env (fst (extractMigrationID f)) f v = Some v1" "apply_files env done fs v1 = Some v'"
      using Cons.prems by (auto simp: apply_files_step bind_eq_Some_conv)
    then show ?thesis
      using Cons.IH [OF v1(2)] apply_one_Some [OF v1(1)] True by (auto simp: pending_files_def recorded_def)
  next
    case False
    then show ?thesis using Cons by (auto simp: pending_files_def)
  qed
qed (simp add: pending_files_def)

lemma apply_files_none_left:
  assumes "apply_files env done xs v = Some v1" "done \<subseteq> recorded v" "recorded v1 \<subseteq> C"
  shows "apply_files env C xs u = Some u"
proof -
  have "fst (extractMigrationID f) \<in> C" if "f \<in> set xs" "numbered f" for f
    using apply_files_rows [OF assms(1)] assms(2,3) that
    by (force simp: recorded_def pending_files_def)
  then show ?thesis by (induction xs) auto
qed

lemma apply_files_more_done:
  assumes "apply_files env done ys v = Some vF" "done \<subseteq> C" "C \<subseteq> recorded v"
  shows "apply_files env C ys v = Some vF"
  using assms
proof (induction ys arbitrary: v)
  case (Cons f ys)
  show ?case
  proof (cases "numbered f \<and> fst (extractMigrationID f) \<notin> done")
    case True
    then obtain v1 where v1: "apply_one env (fst (extractMigrationID f)) f v = Some v1" "apply_files env done ys v1 = Some vF"
      using Cons.prems by (auto simp: apply_files_step bind_eq_Some_conv)
    note a = apply_one_Some [OF v1(1)]
    then have "C \<subseteq> recorded v1" "fst (extractMigrationID f) \<notin> C" using Cons.prems(3) by (auto simp: recorded_def)
    then show ?thesis using Cons.IH [OF v1(2) Cons.prems(2)] True v1(1) by (simp add: apply_files_step)
  next
    case False
    then have skip: "\<not> numbered f \<or> fst (extractMigrationID f) \<in> C" using Cons.prems(2) by blast
    have "apply_files env done ys v = Some vF" using Cons.prems(1) False by simp
    then show ?thesis using Cons.IH [OF _ Cons.prems(2,3)] skip by (simp only: apply_files_skip)
  qed
qed simp

text \<open>Starting again after a prefix ends where the whole plan ends.\<close>

lemma apply_files_resume:
  assumes "apply_files env (recorded v) fs v = Some vF" "apply_files env (recorded v) (take k fs) v = Some v1"
  shows "apply_files env (recorded v1) fs v1 = Some vF"
proof -
  have sub: "recorded v \<subseteq> recorded v1" using apply_files_rows [OF assms(2)] by (auto simp: recorded_def)
  have "apply_files env (recorded v) (take k fs @ drop k fs) v = Some vF" using assms(1) by simp
  then have "apply_files env (recorded v) (drop k fs) v1 = Some vF"
    unfolding apply_files_append using assms(2) by simp
  then have "apply_files env (recorded v1) (drop k fs) v1 = Some vF"
    by (rule apply_files_more_done [OF _ sub order_refl])
  moreover have "apply_files env (recorded v1) (take k fs) v1 = Some v1"
    using apply_files_none_left [OF assms(2)] by simp
  ultimately have "apply_files env (recorded v1) (take k fs @ drop k fs) v1 = Some vF"
    unfolding apply_files_append by simp
  then show ?thesis by simp
qed

section \<open>Runs without faults\<close>

definition mg_quiet :: "'sch mgdb \<Rightarrow> bool" where
  "mg_quiet d \<longleftrightarrow> (\<forall>n \<ge> mg_calls d. mg_fault d n = None)"

lemma mg_quiet_kept: "mg_quiet d \<Longrightarrow> mg_kept d d' \<Longrightarrow> mg_quiet d'"
  by (auto simp: mg_quiet_def mg_kept_def)

lemma runMigration_quiet:
  assumes "mg_quiet d" "mg_migrations d \<noteq> None" "me_ReadFile env (''migrations/'' @ f) = Inr sql"
    and "apply_one env i f (mg_view d) = Some v"
  shows "\<exists>d'. runMigration env i f sql d = (Ok (), d')"
proof -
  have n: "mg_fault d (mg_calls d) = None" "mg_fault d (Suc (mg_calls d)) = None"
    "mg_fault d (Suc (Suc (mg_calls d))) = None" "mg_fault d (Suc (Suc (Suc (mg_calls d)))) = None"
    using assms(1) by (simp_all add: mg_quiet_def)
  show ?thesis
    using n assms(2-4)
    by (auto simp: runMigration_def try_call_def mg_in_tx_def mg_stmt_def sql_record_def apply_one_def mg_view_def
        image_image split: sum.splits if_splits)
qed

lemma migrate_files_quiet:
  assumes "mg_quiet d" "mg_migrations d \<noteq> None" "apply_files env done fs (mg_view d) = Some v"
  shows "\<exists>d'. migrate_files env done fs d = (Ok (), d')"
  using assms
proof (induction fs arbitrary: d)
  case (Cons f fs)
  obtain i ext where e: "extractMigrationID f = (i, ext)" by (cases "extractMigrationID f")
  show ?case
  proof (cases "numbered f \<and> i \<notin> done")
    case True
    then obtain v1 where v1: "apply_one env i f (mg_view d) = Some v1" "apply_files env done fs v1 = Some v"
      using Cons.prems(3) e by (auto simp: apply_files_step bind_eq_Some_conv)
    then obtain sql where sql: "me_ReadFile env (''migrations/'' @ f) = Inr sql"
      by (auto simp: apply_one_def split: sum.splits)
    obtain d1 where d1: "runMigration env i f sql d = (Ok (), d1)"
      using runMigration_quiet [OF Cons.prems(1,2) sql v1(1)] by blast
    have "mg_kept d d1" "mg_view d1 = v1" using runMigration_atomic [OF d1 sql] v1(1) by auto
    then obtain d' where "migrate_files env done fs d1 = (Ok (), d')"
      using Cons.IH [of d1] Cons.prems(1,2) v1(2) mg_quiet_kept by (auto simp: mg_kept_def)
    then show ?thesis using True e sql d1 by (auto simp: numbered_def try_call_def)
  next
    case False
    then have "apply_files env done fs (mg_view d) = Some v" using Cons.prems(3) e by auto
    then show ?thesis using Cons False e by (auto simp: numbered_def)
  qed
qed simp

lemma migrate_quiet:
  assumes "mg_quiet d" "me_ReadDir env ''migrations'' = Inr files"
    and "apply_files env (recorded (mg_view d)) files (mg_view d) = Some v"
  shows "\<exists>d'. migrate env d = (Ok (), d') \<and> mg_view d' = v"
proof -
  obtain d1 where c: "mg_stmt sql_create_migrations d = (Ok (), d1)" "mg_migrations d1 \<noteq> None" "mg_kept d d1"
    "mg_view d1 = mg_view d"
    using assms(1) create_view [of "mg_tick d"]
    by (auto simp: mg_stmt_def mg_quiet_def sql_create_migrations_def mg_kept_def split: option.splits)
  have q: "mg_quiet d1" using mg_quiet_kept [OF assms(1) c(3)] .
  obtain ids where i: "query_applied env d1 = (Ok ids, mg_tick d1)" "set ids = recorded (mg_view d)"
  proof -
    obtain ids where "query_applied env d1 = (Ok ids, mg_tick d1)"
      using q c(2) by (auto simp: query_applied_def mg_quiet_def wrap_err_def try_call_def sql_applied_def)
    then show ?thesis using that query_run c(4) by force
  qed
  have "mg_quiet (mg_tick d1)" using q by (simp add: mg_quiet_def)
  then obtain d' where d': "migrate_files env (recorded (mg_view d)) files (mg_tick d1) = (Ok (), d')"
    using migrate_files_quiet [of "mg_tick d1" env "recorded (mg_view d)" files v] c assms(3) by auto
  then have "migrate env d = (Ok (), d')" using c(1) i assms(2) by (simp add: migrate_def try_call_def)
  moreover from this have "mg_view d' = v"
    using migrate_files_prefix [OF d'] c(4) assms(3) by auto
  ultimately show ?thesis by blast
qed


section \<open>Numbers in file names\<close>

lemma trim_front_id:
  assumes "is_digit c"
  shows "trim_front (filter (\<lambda>p. p \<noteq> newline) space_seqs) (c # s) = c # s"
proof -
  have "\<forall>p \<in> set space_seqs. p \<noteq> [] \<longrightarrow> \<not> is_digit (hd p)"
    by (simp add: space_seqs_def is_digit_def digit_val_def)
  then show ?thesis using assms by (intro trim_front_keep) auto
qed

lemma digits_all: "\<forall>c \<in> set (dec_digits n). is_digit c"
proof (induction n rule: dec_digits.induct)
  case (1 n)
  then show ?case by (subst dec_digits.simps) (auto simp: is_digit_def)
qed

lemma digits_zeros: "dec_value 0 (replicate k (CHR ''0'') @ ds) = dec_value 0 ds"
proof (induction k)
  case (Suc k)
  have "digit_val (CHR ''0'') = Some 0" by (simp add: digit_val_def)
  then show ?case using Suc by simp
qed simp

lemma Sscanf_digits:
  assumes "\<forall>c \<in> set ds. is_digit c" "ds \<noteq> []" "dec_value 0 ds = Some n" "i64_range (int n)"
  shows "Sscanf_d_underscore (ds @ ''_'' @ rest) = Some (int n)"
proof -
  obtain c cs where ds: "ds = c # cs" using assms(2) by (cases ds) auto
  have u: "\<not> is_digit (CHR ''_'')" by (simp add: is_digit_def digit_val_def)
  have c: "is_digit c" "c \<noteq> CHR ''+''" "c \<noteq> CHR ''-''" "c \<noteq> CHR 0x0A"
    using assms(1) ds by (auto simp: is_digit_def digit_val_def Let_def split: if_splits)
  have "scan_space (ds @ ''_'' @ rest) = Some (ds @ ''_'' @ rest)"
    using c trim_front_id [OF c(1)] by (simp add: scan_space_def ds has_prefix_def newline_def Let_def)
  moreover have "accept_sign (ds @ ''_'' @ rest) = ([], ds @ ''_'' @ rest)"
    using c by (simp add: accept_sign_def ds)
  moreover have "takeWhile is_digit (ds @ ''_'' @ rest) = ds" "dropWhile is_digit (ds @ ''_'' @ rest) = ''_'' @ rest"
    using assms(1) u by (simp_all add: takeWhile_append2 dropWhile_append2)
  moreover have "Atoi ds = Some (int n)"
    using c assms(3,4) by (simp add: Atoi_def ds signed_value_def Let_def)
  ultimately show ?thesis using assms(2) by (simp add: Sscanf_d_underscore_def has_prefix_def Let_def)
qed

lemma migration_id:
  assumes "i64_range (int n)"
  shows "extractMigrationID (replicate k (CHR ''0'') @ dec_digits n @ ''_'' @ text @ ''.sql'') = (int n, True)"
proof -
  let ?ds = "replicate k (CHR ''0'') @ dec_digits n"
  have "is_digit (CHR ''0'')" by (simp add: is_digit_def digit_val_def)
  then have "Sscanf_d_underscore (?ds @ ''_'' @ (text @ ''.sql'')) = Some (int n)"
    using assms digits_all [of n] dec_digits_nonempty [of n]
    by (intro Sscanf_digits) (auto simp: digits_zeros dec_value_digits)
  moreover have "drop (length (xs @ ''.sql'') - 4) (xs @ ''.sql'') = ''.sql''" for xs :: string
    by simp
  from this [of "?ds @ ''_'' @ text"] have "drop (length (?ds @ ''_'' @ text @ ''.sql'') - 4) (?ds @ ''_'' @ text @ ''.sql'') = ''.sql''"
    by simp
  ultimately show ?thesis by (simp add: extractMigrationID_def)
qed

section \<open>A small deployment\<close>

text \<open>Two scripts, each leaving its name in the schema, and an empty database with one fault.\<close>

definition sample_mig :: "(string list) mig_env" where
  "sample_mig =
     \<lparr>me_exec = \<lambda>sql sch. Inr (sch @ [sql]), me_error = \<lambda>c. Foreign ''server'', me_undefined_table = Foreign ''table'',
      me_ReadDir = \<lambda>p. Inr [''0001_a.sql'', ''README'', ''0002_b.sql''], me_ReadFile = \<lambda>p. Inr p\<rparr>"

definition sample_mgdb :: "(nat \<Rightarrow> fault option) \<Rightarrow> (string list) mgdb" where
  "sample_mgdb fault =
     \<lparr>mg_migrations = None, mg_schema = [], mg_calls = 0, mg_fault = fault, mg_clock = int\<rparr>"

lemma sample_ids:
  "extractMigrationID ''0001_a.sql'' = (1, True)" "extractMigrationID ''0002_b.sql'' = (2, True)"
  "\<not> snd (extractMigrationID ''README'')"
  by code_simp+

lemma sample_plan:
  "apply_files sample_mig {} [''0001_a.sql'', ''README'', ''0002_b.sql''] ([], []) =
     Some ([(1, ''0001_a.sql''), (2, ''0002_b.sql'')], [''migrations/0001_a.sql'', ''migrations/0002_b.sql''])"
  using sample_ids
  by (simp add: apply_files_step numbered_def apply_one_def sample_mig_def int4_ok_def int4_max_def)

lemma sample_mgdb_view: "mg_view (sample_mgdb fl) = ([], [])" "recorded ([], s) = {}"
  by (simp_all add: mg_view_def sample_mgdb_def recorded_def)

lemma sample_dir: "me_ReadDir sample_mig p = Inr [''0001_a.sql'', ''README'', ''0002_b.sql'']"
  by (simp add: sample_mig_def)

section \<open>Properties of the runner\<close>

text \<open>
  C18. Migrations are atomic, one by one: whatever round trips fail, and however the run ends, the
  tracking table and the schema are those of the plan for some prefix of the files, so a script's
  effect is there exactly when its number is recorded; and success means that the whole plan was
  carried out.
\<close>

theorem migrations_atomic:
  assumes "migrate env d = (r, d')"
  shows "r \<noteq> Panic \<and>
    (mg_view d' = mg_view d \<and> r \<noteq> Ok () \<or>
     (\<exists>files k. me_ReadDir env ''migrations'' = Inr files \<and> k \<le> length files \<and>
        apply_files env (recorded (mg_view d)) (take k files) (mg_view d) = Some (mg_view d') \<and>
        (r = Ok () \<longrightarrow> k = length files)))"
  using migrate_prefix [OF assms] .

theorem migrations_atomic_witness:
  "\<exists>k \<le> 3. apply_files sample_mig {} (take k [''0001_a.sql'', ''README'', ''0002_b.sql'']) ([], []) =
     Some (mg_view (snd (migrate sample_mig (sample_mgdb (\<lambda>n. if n = 7 then Some (ReplyLost EOF) else None)))))"
proof -
  let ?d = "sample_mgdb (\<lambda>n. if n = 7 then Some (ReplyLost EOF) else None)"
  obtain r d' where m: "migrate sample_mig ?d = (r, d')" by (cases "migrate sample_mig ?d")
  show ?thesis
  proof (cases "mg_view d' = ([], [])")
    case True
    then show ?thesis using m by (intro exI [of _ 0]) simp
  next
    case False
    then show ?thesis
      using migrations_atomic [OF m] m by (auto simp: sample_mgdb_view sample_dir numeral_3_eq_3)
  qed
qed

text \<open>
  C5. An interrupted run can be repeated: if the plan can be carried out, then after any run, with any
  faults, the next run without faults succeeds and ends in the same table and schema as if nothing
  had happened; after a success it therefore changes nothing.
\<close>

theorem migrations_resume:
  assumes "me_ReadDir env ''migrations'' = Inr files"
    and "apply_files env (recorded (mg_view d)) files (mg_view d) = Some v"
    and "migrate env d = (r, d1)" "mg_view d2 = mg_view d1" "mg_quiet d2"
  shows "\<exists>d3. migrate env d2 = (Ok (), d3) \<and> mg_view d3 = v"
proof -
  have "apply_files env (recorded (mg_view d1)) files (mg_view d1) = Some v"
  proof (cases "mg_view d1 = mg_view d")
    case False
    then obtain k where "apply_files env (recorded (mg_view d)) (take k files) (mg_view d) = Some (mg_view d1)"
      using migrate_prefix [OF assms(3)] assms(1) by auto
    then show ?thesis by (rule apply_files_resume [OF assms(2)])
  qed (use assms(2) in simp)
  then show ?thesis using migrate_quiet [OF assms(5,1)] assms(4) by simp
qed

theorem migrations_resume_witness:
  "\<exists>d3. migrate sample_mig ((snd (migrate sample_mig (sample_mgdb (\<lambda>n. if n = 7 then Some (ReplyLost EOF) else None))))
      \<lparr>mg_calls := 0, mg_fault := \<lambda>n. None\<rparr>) = (Ok (), d3) \<and>
    mg_view d3 = ([(1, ''0001_a.sql''), (2, ''0002_b.sql'')], [''migrations/0001_a.sql'', ''migrations/0002_b.sql''])"
proof -
  let ?d = "sample_mgdb (\<lambda>n. if n = 7 then Some (ReplyLost EOF) else None)"
  obtain r d1 where m: "migrate sample_mig ?d = (r, d1)" by (cases "migrate sample_mig ?d")
  have p: "apply_files sample_mig (recorded (mg_view ?d)) [''0001_a.sql'', ''README'', ''0002_b.sql''] (mg_view ?d) =
     Some ([(1, ''0001_a.sql''), (2, ''0002_b.sql'')], [''migrations/0001_a.sql'', ''migrations/0002_b.sql''])"
    using sample_plan by (simp add: sample_mgdb_view)
  have "mg_view (d1\<lparr>mg_calls := 0, mg_fault := \<lambda>n. None\<rparr>) = mg_view d1"
    "mg_quiet (d1\<lparr>mg_calls := 0, mg_fault := \<lambda>n. None\<rparr>)"
    by (simp_all add: mg_view_def mg_quiet_def)
  from migrations_resume [OF sample_dir p m this] show ?thesis using m by simp
qed

text \<open>
  What a successful run records: after what was there, the numbered files not yet recorded, each
  once and in the order of their names, all with different numbers; so two new files with the same
  number never succeed.
\<close>

lemma migrations_ok_records:
  assumes "migrate env d = (Ok (), d')"
  shows "\<exists>files. me_ReadDir env ''migrations'' = Inr files \<and>
    fst (mg_view d') = fst (mg_view d) @
      map (\<lambda>f. (fst (extractMigrationID f), f)) (pending_files (recorded (mg_view d)) files) \<and>
    distinct (map (\<lambda>f. fst (extractMigrationID f)) (pending_files (recorded (mg_view d)) files))"
  using migrate_prefix [OF assms] apply_files_rows by fastforce

end
