(* ===== verification/Metrics.thy ===== *)
theory Metrics
  imports Float64
begin

text \<open>
  internal/metrics/metrics.go: the package variables as a state. Before \<open>Register\<close> every variable is
  nil and every recorder dereferences nil; \<open>Register\<close> replaces all of them by fresh metrics on a new
  registry.
\<close>

record metrics =
  mt_registry :: bool
  mt_queueDepth :: "(string \<rightharpoonup> f64) option"
  mt_submissionDuration :: "f64 list option"
  mt_submissionTotal :: "(string \<Rightarrow> nat) option"
  mt_channelAccountsAvailable :: "f64 option"
  mt_retryTotal :: "nat option"

definition metrics_nil :: metrics where
  "metrics_nil = \<lparr>mt_registry = False, mt_queueDepth = None, mt_submissionDuration = None,
     mt_submissionTotal = None, mt_channelAccountsAvailable = None, mt_retryTotal = None\<rparr>"

definition Register :: "metrics \<Rightarrow> metrics" where
  "Register m = \<lparr>mt_registry = True, mt_queueDepth = Some Map.empty, mt_submissionDuration = Some [],
     mt_submissionTotal = Some (\<lambda>_. 0), mt_channelAccountsAvailable = Some (f64_of_int 0),
     mt_retryTotal = Some 0\<rparr>"

definition QueueDepth :: "string \<Rightarrow> int \<Rightarrow> (metrics, unit) op" where
  "QueueDepth status count m =
     (case mt_queueDepth m of
        None \<Rightarrow> (Panic, m)
      | Some g \<Rightarrow> (Ok (), m\<lparr>mt_queueDepth := Some (g(status \<mapsto> f64_of_int count))\<rparr>))"

definition RecordSubmissionDuration :: "f64 \<Rightarrow> (metrics, unit) op" where
  "RecordSubmissionDuration duration m =
     (case mt_submissionDuration m of
        None \<Rightarrow> (Panic, m)
      | Some ds \<Rightarrow> (Ok (), m\<lparr>mt_submissionDuration := Some (ds @ [duration])\<rparr>))"

definition RecordSubmission :: "string \<Rightarrow> (metrics, unit) op" where
  "RecordSubmission status m =
     (case mt_submissionTotal m of
        None \<Rightarrow> (Panic, m)
      | Some c \<Rightarrow> (Ok (), m\<lparr>mt_submissionTotal := Some (c(status := c status + 1))\<rparr>))"

definition SetChannelAccountsAvailable :: "int \<Rightarrow> (metrics, unit) op" where
  "SetChannelAccountsAvailable count m =
     (case mt_channelAccountsAvailable m of
        None \<Rightarrow> (Panic, m)
      | Some g \<Rightarrow> (Ok (), m\<lparr>mt_channelAccountsAvailable := Some (f64_of_int count)\<rparr>))"

definition metrics_IncrementRetry :: "(metrics, unit) op" where
  "metrics_IncrementRetry m =
     (case mt_retryTotal m of
        None \<Rightarrow> (Panic, m)
      | Some n \<Rightarrow> (Ok (), m\<lparr>mt_retryTotal := Some (n + 1)\<rparr>))"

text \<open>\<open>Registry() == nil\<close> is False.\<close>

definition Registry :: "metrics \<Rightarrow> bool" where
  "Registry m = mt_registry m"

section \<open>Recording after registration\<close>

definition registered :: "metrics \<Rightarrow> bool" where
  "registered m \<longleftrightarrow> mt_registry m \<and> mt_queueDepth m \<noteq> None \<and> mt_submissionDuration m \<noteq> None \<and>
     mt_submissionTotal m \<noteq> None \<and> mt_channelAccountsAvailable m \<noteq> None \<and> mt_retryTotal m \<noteq> None"

datatype record_event =
    RecDepth string int
  | RecDuration f64
  | RecSubmission string
  | RecAvailable int
  | RecRetry

primrec run_record :: "record_event \<Rightarrow> (metrics, unit) op" where
  "run_record (RecDepth s n) = QueueDepth s n"
| "run_record (RecDuration d) = RecordSubmissionDuration d"
| "run_record (RecSubmission s) = RecordSubmission s"
| "run_record (RecAvailable n) = SetChannelAccountsAvailable n"
| "run_record RecRetry = metrics_IncrementRetry"

fun run_records :: "record_event list \<Rightarrow> (metrics, unit) op" where
  "run_records [] = ret (Ok ())"
| "run_records (e # es) = try_call (run_record e) (\<lambda>_. run_records es) (\<lambda>err. ret (Error err))"

lemmas record_defs = QueueDepth_def RecordSubmissionDuration_def RecordSubmission_def
  SetChannelAccountsAvailable_def metrics_IncrementRetry_def

lemma run_record_registered:
  assumes "registered m"
  shows "\<exists>m'. run_record e m = (Ok (), m') \<and> registered m' \<and>
    mt_retryTotal m' = (case e of RecRetry \<Rightarrow> map_option Suc (mt_retryTotal m) | _ \<Rightarrow> mt_retryTotal m) \<and>
    mt_submissionTotal m' = (case e of
       RecSubmission s \<Rightarrow> map_option (\<lambda>c. c(s := Suc (c s))) (mt_submissionTotal m)
     | _ \<Rightarrow> mt_submissionTotal m)"
  using assms by (cases e) (auto simp: record_defs registered_def)

lemma run_records_registered:
  assumes "registered m" "mt_retryTotal m = Some n" "mt_submissionTotal m = Some c"
  shows "\<exists>m'. run_records es m = (Ok (), m') \<and> registered m' \<and>
    mt_retryTotal m' = Some (n + count_list es RecRetry) \<and>
    mt_submissionTotal m' = Some (\<lambda>s. c s + count_list es (RecSubmission s))"
  using assms
proof (induction es arbitrary: m n c)
  case (Cons e es)
  obtain m1 where m1: "run_record e m = (Ok (), m1)" "registered m1"
    "mt_retryTotal m1 = Some (n + (if e = RecRetry then 1 else 0))"
    "mt_submissionTotal m1 = Some (\<lambda>s. c s + (if e = RecSubmission s then 1 else 0))"
    using run_record_registered [OF Cons.prems(1), of e] Cons.prems(2,3)
    by (cases e) (auto simp: fun_eq_iff)
  from Cons.IH [OF m1(2-4)] m1(1) show ?case by (auto simp: try_call_def fun_eq_iff)
qed (simp add: registered_def)

text \<open>
  After \<open>Register\<close> no recorder panics, and the counters count exactly the calls made since the last
  \<open>Register\<close>, per label; before the first \<open>Register\<close> every recorder panics.
\<close>

lemma metrics_count_calls:
  "(\<exists>m'. run_records es (Register m) = (Ok (), m') \<and> Registry m' \<and>
     mt_retryTotal m' = Some (count_list es RecRetry) \<and>
     mt_submissionTotal m' = Some (\<lambda>s. count_list es (RecSubmission s))) \<and>
   fst (run_record e metrics_nil) = Panic"
proof -
  have "registered (Register m)" by (simp add: registered_def Register_def)
  from run_records_registered [OF this, of 0 "\<lambda>_. 0" es] show ?thesis
    by (cases e) (auto simp: Register_def Registry_def registered_def record_defs metrics_nil_def)
qed

end
