(* ===== verification/JsonDecode.thy ===== *)
theory JsonDecode
  imports Json GoNumbers "HOL-Library.AList"
begin

text \<open>
  encoding/json reading: the scanner, which goes through a text byte by byte with a stack of open
  arrays and objects and fails at nesting beyond 10000; the unquoting of strings; \<open>Decoder.Decode\<close> and
  \<open>Unmarshal\<close>; and the assignment of a value to the types the program decodes into. The scanner builds
  the value it passes. What an error says is left out: an error is one of four kinds.
\<close>

section \<open>Values and errors\<close>

datatype jvalue =
    VNull
  | VBool bool
  | VNum string
  | VStr string
  | VArr "jvalue list"
  | VObj "(string \<times> jvalue) list"

datatype json_error =
    JSyntax
  | JUnexpectedEOF
  | JRead goerr
  | JType

text \<open>The Go error; \<open>txt\<close> says what the decoder writes of a syntax or a type error.\<close>

definition json_goerr :: "(json_error \<Rightarrow> string) \<Rightarrow> json_error \<Rightarrow> goerr" where
  "json_goerr txt e =
     (case e of
        JRead err \<Rightarrow> err
      | JUnexpectedEOF \<Rightarrow> Foreign ''unexpected EOF''
      | _ \<Rightarrow> Foreign (txt e))"

section \<open>Unquoting\<close>

text \<open>\<open>getu4\<close>: the number of an escape of the form backslash, u, four hexadecimal digits.\<close>

definition getu4 :: "string \<Rightarrow> nat option" where
  "getu4 s =
     (case s of
        b # u # h1 # h2 # h3 # h4 # _ \<Rightarrow>
          (if b = backslash \<and> u = CHR ''u'' then
             (case (hex_val h1, hex_val h2, hex_val h3, hex_val h4) of
                (Some a, Some b, Some c, Some d) \<Rightarrow> Some (a * 4096 + b * 256 + c * 16 + d)
              | _ \<Rightarrow> None)
           else None)
      | _ \<Rightarrow> None)"

definition simple_escape :: "char \<Rightarrow> char" where
  "simple_escape c =
     (if c = CHR ''b'' then CHR 0x08 else if c = CHR ''f'' then CHR 0x0C else if c = CHR ''n'' then CHR 0x0A
      else if c = CHR ''r'' then CHR 0x0D else if c = CHR ''t'' then CHR 0x09 else c)"

text \<open>
  \<open>unquoteBytes\<close> on the text between the quotes, which the scanner has accepted: escapes are decoded, a
  lone surrogate and every byte that is not UTF-8 become U+FFFD.
\<close>

function unquote :: "string \<Rightarrow> string" where
  "unquote [] = []"
| "unquote (c # cs) =
     (if c = backslash then
        (case cs of
           [] \<Rightarrow> []
         | e # rest \<Rightarrow>
             (if e = CHR ''u'' then
                (case getu4 (c # cs) of
                   None \<Rightarrow> []
                 | Some r \<Rightarrow>
                     (let s = drop 4 rest in
                      if 0xD800 \<le> r \<and> r < 0xE000 then
                        (case getu4 s of
                           Some r1 \<Rightarrow>
                             (if r < 0xDC00 \<and> 0xDC00 \<le> r1 \<and> r1 < 0xE000
                              then utf8_encode ((r - 0xD800) * 1024 + (r1 - 0xDC00) + 0x10000) @ unquote (drop 6 s)
                              else replacement @ unquote s)
                         | None \<Rightarrow> replacement @ unquote s)
                      else utf8_encode r @ unquote s))
              else simple_escape e # unquote rest))
      else if of_char c < (0x80 :: nat) then c # unquote cs
      else let n = rune_len (c # cs) in
        if n = 0 then replacement @ unquote cs
        else take n (c # cs) @ unquote (drop n (c # cs)))"
  by pat_completeness auto
termination
  by (relation "measure length") (auto simp: Let_def)

declare unquote.simps [simp del]

section \<open>The scanner\<close>

text \<open>What encloses the point reached: an array and its items; an object waiting for a key; one with a
  key, waiting for its value.\<close>

datatype frame =
    InArray "jvalue list"
  | ObjectKey "(string \<times> jvalue) list"
  | ObjectValue "(string \<times> jvalue) list" string

text \<open>The states of a number: \<open>stateNeg\<close>, \<open>state1\<close>, \<open>state0\<close>, \<open>stateDot\<close>, \<open>stateDot0\<close>, \<open>stateE\<close>, \<open>stateESign\<close>, \<open>stateE0\<close>.\<close>

datatype number_state = NNeg | NInt | NZero | NDot | NFrac | NExp | NExpSign | NExpDigits

datatype scan_mode =
    BeginValue
  | BeginValueOrEmpty
  | BeginStringOrEmpty
  | BeginString
  | InString string
  | InStringEsc string
  | InStringEscU nat string
  | InNumber number_state string
  | InLiteral string jvalue
  | EndValue jvalue
  | ScanEnd jvalue bool
  | ScanError

type_synonym scanner = "scan_mode \<times> frame list"

definition is_space :: "char \<Rightarrow> bool" where
  "is_space c \<longleftrightarrow> c = CHR '' '' \<or> c = CHR 0x09 \<or> c = CHR 0x0D \<or> c = CHR 0x0A"

definition maxNestingDepth :: nat where
  "maxNestingDepth = 10000"

definition pushParseState :: "scan_mode \<Rightarrow> frame \<Rightarrow> frame list \<Rightarrow> scanner" where
  "pushParseState m f st = (if length st < maxNestingDepth then (m, f # st) else (ScanError, st))"

text \<open>
  \<open>stateEndValue\<close> and \<open>stateEndTop\<close>; a value has just ended. The byte after the top value ends the scan;
  whether it was a space is recorded, since only \<open>Unmarshal\<close> minds if it was not.
\<close>

fun end_value :: "jvalue \<Rightarrow> frame list \<Rightarrow> char \<Rightarrow> scanner" where
  "end_value v [] c = (ScanEnd v (is_space c), [])"
| "end_value v (InArray vs # st) c =
     (if is_space c then (EndValue v, InArray vs # st)
      else if c = CHR '','' then (BeginValue, InArray (vs @ [v]) # st)
      else if c = CHR '']'' then (EndValue (VArr (vs @ [v])), st)
      else (ScanError, []))"
| "end_value v (ObjectKey kvs # st) c =
     (if is_space c then (EndValue v, ObjectKey kvs # st)
      else case v of
        VStr k \<Rightarrow> (if c = CHR '':'' then (BeginValue, ObjectValue kvs k # st) else (ScanError, []))
      | _ \<Rightarrow> (ScanError, []))"
| "end_value v (ObjectValue kvs k # st) c =
     (if is_space c then (EndValue v, ObjectValue kvs k # st)
      else if c = CHR '','' then (BeginString, ObjectKey (kvs @ [(k, v)]) # st)
      else if c = CHR ''}'' then (EndValue (VObj (kvs @ [(k, v)])), st)
      else (ScanError, []))"

definition begin_value :: "frame list \<Rightarrow> char \<Rightarrow> scanner" where
  "begin_value st c =
     (if is_space c then (BeginValue, st)
      else if c = CHR ''{'' then pushParseState BeginStringOrEmpty (ObjectKey []) st
      else if c = CHR ''['' then pushParseState BeginValueOrEmpty (InArray []) st
      else if c = quote_char then (InString [], st)
      else if c = CHR ''-'' then (InNumber NNeg [c], st)
      else if c = CHR ''0'' then (InNumber NZero [c], st)
      else if is_digit c then (InNumber NInt [c], st)
      else if c = CHR ''t'' then (InLiteral ''rue'' (VBool True), st)
      else if c = CHR ''f'' then (InLiteral ''alse'' (VBool False), st)
      else if c = CHR ''n'' then (InLiteral ''ull'' VNull, st)
      else (ScanError, []))"

text \<open>The next state of a number; None when the byte does not belong to it.\<close>

fun number_step :: "number_state \<Rightarrow> char \<Rightarrow> number_state option" where
  "number_step NNeg c = (if c = CHR ''0'' then Some NZero else if is_digit c then Some NInt else None)"
| "number_step NInt c =
     (if is_digit c then Some NInt else if c = CHR ''.'' then Some NDot
      else if c = CHR ''e'' \<or> c = CHR ''E'' then Some NExp else None)"
| "number_step NZero c =
     (if c = CHR ''.'' then Some NDot else if c = CHR ''e'' \<or> c = CHR ''E'' then Some NExp else None)"
| "number_step NDot c = (if is_digit c then Some NFrac else None)"
| "number_step NFrac c =
     (if is_digit c then Some NFrac else if c = CHR ''e'' \<or> c = CHR ''E'' then Some NExp else None)"
| "number_step NExp c =
     (if c = CHR ''+'' \<or> c = CHR ''-'' then Some NExpSign else if is_digit c then Some NExpDigits else None)"
| "number_step NExpSign c = (if is_digit c then Some NExpDigits else None)"
| "number_step NExpDigits c = (if is_digit c then Some NExpDigits else None)"

definition number_complete :: "number_state \<Rightarrow> bool" where
  "number_complete n \<longleftrightarrow> n \<in> {NInt, NZero, NFrac, NExpDigits}"

definition escape_char :: "char \<Rightarrow> bool" where
  "escape_char c \<longleftrightarrow> c \<in> {CHR ''b'', CHR ''f'', CHR ''n'', CHR ''r'', CHR ''t'', backslash, CHR ''/'', quote_char}"

fun scan_step :: "scanner \<Rightarrow> char \<Rightarrow> scanner" where
  "scan_step (BeginValue, st) c = begin_value st c"
| "scan_step (BeginValueOrEmpty, st) c =
     (if is_space c then (BeginValueOrEmpty, st)
      else if c = CHR '']'' then (EndValue (VArr []), tl st)
      else begin_value st c)"
| "scan_step (BeginStringOrEmpty, st) c =
     (if is_space c then (BeginStringOrEmpty, st)
      else if c = CHR ''}'' then (EndValue (VObj []), tl st)
      else if c = quote_char then (InString [], st)
      else (ScanError, []))"
| "scan_step (BeginString, st) c =
     (if is_space c then (BeginString, st)
      else if c = quote_char then (InString [], st)
      else (ScanError, []))"
| "scan_step (InString r, st) c =
     (if c = quote_char then (EndValue (VStr (unquote r)), st)
      else if c = backslash then (InStringEsc (r @ [c]), st)
      else if of_char c < (0x20 :: nat) then (ScanError, [])
      else (InString (r @ [c]), st))"
| "scan_step (InStringEsc r, st) c =
     (if escape_char c then (InString (r @ [c]), st)
      else if c = CHR ''u'' then (InStringEscU 4 (r @ [c]), st)
      else (ScanError, []))"
| "scan_step (InStringEscU n r, st) c =
     (if hex_val c = None then (ScanError, [])
      else if n \<le> 1 then (InString (r @ [c]), st)
      else (InStringEscU (n - 1) (r @ [c]), st))"
| "scan_step (InNumber n r, st) c =
     (case number_step n c of
        Some n' \<Rightarrow> (InNumber n' (r @ [c]), st)
      | None \<Rightarrow> (if number_complete n then end_value (VNum r) st c else (ScanError, [])))"
| "scan_step (InLiteral l v, st) c =
     (case l of
        [] \<Rightarrow> (ScanError, [])
      | x # xs \<Rightarrow> (if c \<noteq> x then (ScanError, []) else if xs = [] then (EndValue v, st) else (InLiteral xs v, st)))"
| "scan_step (EndValue v, st) c = end_value v st c"
| "scan_step (ScanEnd v b, st) c = (if b \<and> is_space c then (ScanEnd v True, st) else (ScanError, []))"
| "scan_step (ScanError, st) c = (ScanError, st)"

section \<open>Decoder.Decode and Unmarshal\<close>

text \<open>\<open>Decode\<close> stops at the end of a value; an object or an array ends with its last byte, anything else
  with the byte after it.\<close>

definition value_done :: "scanner \<Rightarrow> jvalue option" where
  "value_done s =
     (case s of
        (ScanEnd v _, _) \<Rightarrow> Some v
      | (EndValue (VArr vs), []) \<Rightarrow> Some (VArr vs)
      | (EndValue (VObj kvs), []) \<Rightarrow> Some (VObj kvs)
      | _ \<Rightarrow> None)"

fun scan_value :: "scanner \<Rightarrow> string \<Rightarrow> jvalue + scanner" where
  "scan_value s [] = Inr s"
| "scan_value s (c # cs) =
     (let s' = scan_step s c in
      if fst s' = ScanError then Inr s'
      else case value_done s' of Some v \<Rightarrow> Inl v | None \<Rightarrow> scan_value s' cs)"

text \<open>The error of the last read of a body; a body that was not given an end ends.\<close>

fun read_end :: "http_body \<Rightarrow> goerr" where
  "read_end [] = EOF"
| "read_end ((s, None) # rs) = read_end rs"
| "read_end ((s, Some e) # rs) = e"

definition json_Decode :: "http_body \<Rightarrow> json_error + jvalue" where
  "json_Decode body =
     (case scan_value (BeginValue, []) (read_all body) of
        Inl v \<Rightarrow> Inr v
      | Inr s \<Rightarrow>
          (if fst s = ScanError then Inl JSyntax
           else if read_end body \<noteq> EOF then Inl (JRead (read_end body))
           else case scan_step s (CHR '' '') of
             (ScanEnd v _, _) \<Rightarrow> Inr v
           | _ \<Rightarrow> (if \<exists>c \<in> set (read_all body). \<not> is_space c then Inl JUnexpectedEOF else Inl (JRead EOF))))"

text \<open>\<open>Unmarshal\<close>: the whole text is one value.\<close>

definition json_Unmarshal :: "string \<Rightarrow> json_error + jvalue" where
  "json_Unmarshal s =
     (case scan_step (foldl scan_step (BeginValue, []) s) (CHR '' '') of
        (ScanEnd v _, _) \<Rightarrow> Inr v
      | _ \<Rightarrow> Inl JSyntax)"

section \<open>Assigning a value\<close>

text \<open>The folding of field names, exact for names in ASCII: besides the letters' case, the long s and
  the Kelvin sign fold to letters.\<close>

fun foldName :: "string \<Rightarrow> string" where
  "foldName (a # b # c # cs) =
     (if a = CHR 0xC5 \<and> b = CHR 0xBF then CHR ''s'' # foldName (c # cs)
      else if a = CHR 0xE2 \<and> b = CHR 0x84 \<and> c = CHR 0xAA then CHR ''k'' # foldName cs
      else lower a # foldName (b # c # cs))"
| "foldName (a # b # []) = (if a = CHR 0xC5 \<and> b = CHR 0xBF then ''s'' else [lower a, lower b])"
| "foldName (a # []) = [lower a]"
| "foldName [] = []"

text \<open>The field a key names: the one of that name, else the first that differs only in case.\<close>

definition field_of :: "string list \<Rightarrow> string \<Rightarrow> string option" where
  "field_of names key =
     (if key \<in> set names then Some key else List.find (\<lambda>n. foldName n = foldName key) names)"

fun decode_fields ::
  "string list \<Rightarrow> (string \<Rightarrow> jvalue \<Rightarrow> 's \<Rightarrow> 's option) \<Rightarrow> (string \<times> jvalue) list \<Rightarrow> 's \<Rightarrow> json_error + 's" where
  "decode_fields names setf [] s = Inr s"
| "decode_fields names setf ((k, v) # kvs) s =
     (case field_of names k of
        None \<Rightarrow> decode_fields names setf kvs s
      | Some f \<Rightarrow> (case setf f v s of None \<Rightarrow> Inl JType | Some s' \<Rightarrow> decode_fields names setf kvs s'))"

text \<open>A struct, whose fields keep their value when they are not named or when the value is null.\<close>

definition decode_struct ::
  "string list \<Rightarrow> (string \<Rightarrow> jvalue \<Rightarrow> 's \<Rightarrow> 's option) \<Rightarrow> 's \<Rightarrow> jvalue \<Rightarrow> json_error + 's" where
  "decode_struct names setf s v =
     (case v of
        VObj kvs \<Rightarrow> decode_fields names setf kvs s
      | VNull \<Rightarrow> Inr s
      | _ \<Rightarrow> Inl JType)"

definition set_string :: "jvalue \<Rightarrow> (string \<Rightarrow> 's) \<Rightarrow> 's \<Rightarrow> 's option" where
  "set_string v upd s = (case v of VStr x \<Rightarrow> Some (upd x) | VNull \<Rightarrow> Some s | _ \<Rightarrow> None)"

definition set_int :: "jvalue \<Rightarrow> (int \<Rightarrow> 's) \<Rightarrow> 's \<Rightarrow> 's option" where
  "set_int v upd s = (case v of VNum t \<Rightarrow> map_option upd (Atoi t) | VNull \<Rightarrow> Some s | _ \<Rightarrow> None)"

text \<open>A value of type \<open>interface{}\<close>; maps are association lists, a later key overwrites an earlier one.\<close>

datatype gvalue =
    GNil
  | GBool bool
  | GFloat f64
  | GStr string
  | GList "gvalue list"
  | GMap "(string \<times> gvalue) list"

primrec numbers_ok :: "jvalue \<Rightarrow> bool" where
  "numbers_ok VNull = True"
| "numbers_ok (VBool b) = True"
| "numbers_ok (VNum t) = (ParseFloat t \<noteq> None)"
| "numbers_ok (VStr x) = True"
| "numbers_ok (VArr vs) = list_all id (map numbers_ok vs)"
| "numbers_ok (VObj kvs) = list_all snd (map (map_prod id numbers_ok) kvs)"

definition go_map :: "(string \<times> gvalue) list \<Rightarrow> (string \<times> gvalue) list" where
  "go_map kvs = foldl (\<lambda>m (k, v). AList.update k v m) [] kvs"

primrec to_any :: "jvalue \<Rightarrow> gvalue" where
  "to_any VNull = GNil"
| "to_any (VBool b) = GBool b"
| "to_any (VNum t) = GFloat (case ParseFloat t of Some x \<Rightarrow> x | None \<Rightarrow> Fin 0 0)"
| "to_any (VStr x) = GStr x"
| "to_any (VArr vs) = GList (map to_any vs)"
| "to_any (VObj kvs) = GMap (go_map (map (map_prod id to_any) kvs))"

text \<open>Into a \<open>map[string]interface{}\<close>, nil for null.\<close>

definition decode_map :: "jvalue \<Rightarrow> json_error + (string \<times> gvalue) list" where
  "decode_map v =
     (case v of
        VObj kvs \<Rightarrow> (if numbers_ok v then Inr (go_map (map (map_prod id to_any) kvs)) else Inl JType)
      | VNull \<Rightarrow> Inr []
      | _ \<Rightarrow> Inl JType)"

end
