(* ===== verification/JsonRoundTrip.thy ===== *)
theory JsonRoundTrip
  imports JsonDecode
begin

text \<open>
  What the decoder of \<open>JsonDecode\<close> makes of the texts the encoder of \<open>Json\<close> writes: the same value, its
  strings with invalid UTF-8 replaced, its objects in the order of their keys.
\<close>

section \<open>Reading back what is written\<close>

lemma scan_high_bytes:
  "\<forall>c \<in> set xs. (0x80 :: nat) \<le> of_char c \<Longrightarrow> foldl scan_step (InString r, st) xs = (InString (r @ xs), st)"
  by (induction xs arbitrary: r) (auto simp: quote_char_def backslash_def)

lemma hex_val_digit [simp]: "n < 16 \<Longrightarrow> hex_val (hex_digit n) = Some n"
  by (auto simp: hex_val_def hex_digit_def digit_val_def lower_def Let_def of_char_of split: option.splits)

lemma hex_val_chars [simp]:
  "hex_val (CHR ''0'') = Some 0" "hex_val (CHR ''2'') = Some 2" "hex_val (CHR ''d'') = Some 13"
  "hex_val (CHR ''f'') = Some 15"
  by (simp_all add: hex_val_def digit_val_def lower_def)

lemma scan_escape_u:
  assumes "hex_val a \<noteq> None" "hex_val b \<noteq> None" "hex_val c \<noteq> None" "hex_val d \<noteq> None"
  shows "foldl scan_step (InString r, st) [backslash, CHR ''u'', a, b, c, d] =
    (InString (r @ [backslash, CHR ''u'', a, b, c, d]), st)"
  using assms by (simp add: backslash_def quote_char_def escape_char_def)

lemma scan_escape_byte:
  "of_char c < (0x80 :: nat) \<Longrightarrow> foldl scan_step (InString r, st) (escape_byte c) = (InString (r @ escape_byte c), st)"
proof -
  assume c: "of_char c < (0x80 :: nat)"
  have u: "foldl scan_step (InString r, st) (backslash # ''u00'' @ [hex_digit (of_char c div 16), hex_digit (of_char c mod 16)]) =
      (InString (r @ backslash # ''u00'' @ [hex_digit (of_char c div 16), hex_digit (of_char c mod 16)]), st)"
    unfolding append.simps using c by (intro scan_escape_u) simp_all
  show ?thesis
    using u unfolding escape_byte_def by (auto simp: escape_char_def quote_char_def backslash_def)
qed

lemma scan_json_escape:
  "foldl scan_step (InString r, st) (json_escape s) = (InString (r @ json_escape s), st)"
proof (induction s arbitrary: r rule: json_escape.induct)
  case (2 c cs)
  have h: "foldl scan_step (InString r, st) (take (rune_len (c # cs)) (c # cs)) =
      (InString (r @ take (rune_len (c # cs)) (c # cs)), st)" for r
    by (rule scan_high_bytes) (rule rune_take)
  have f: "foldl scan_step (InString r, st) (backslash # ''ufffd'') = (InString (r @ backslash # ''ufffd''), st)" for r
    by (rule scan_escape_u) simp_all
  have l: "n < 16 \<Longrightarrow> foldl scan_step (InString r, st) (backslash # ''u202'' @ [hex_digit n]) =
      (InString (r @ backslash # ''u202'' @ [hex_digit n]), st)" for r n
    unfolding append.simps by (rule scan_escape_u) simp_all
  show ?case
  proof (cases "of_char c < (0x80 :: nat)")
    case True
    then show ?thesis using 2 by (simp add: scan_escape_byte del: scan_step.simps)
  next
    case False
    consider "rune_len (c # cs) = 0" | "rune_len (c # cs) \<noteq> 0" "line_separator (take (rune_len (c # cs)) (c # cs))"
      | "rune_len (c # cs) \<noteq> 0" "\<not> line_separator (take (rune_len (c # cs)) (c # cs))" by blast
    then show ?thesis
    proof cases
      case 1
      have "foldl scan_step (InString r, st) (json_escape (c # cs)) =
          foldl scan_step (foldl scan_step (InString r, st) (backslash # ''ufffd'')) (json_escape cs)"
        using 1 False by (simp del: foldl_Cons scan_step.simps flip: foldl_append)
      then show ?thesis using 2(2) [OF False refl 1] 1 False by (simp only: f) simp
    next
      case 2
      let ?n = "of_char (last (take (rune_len (c # cs)) (c # cs))) mod 16 :: nat"
      have "foldl scan_step (InString r, st) (json_escape (c # cs)) =
          foldl scan_step (foldl scan_step (InString r, st) (backslash # ''u202'' @ [hex_digit ?n])) (json_escape (drop (rune_len (c # cs)) (c # cs)))"
        using 2 False by (simp add: Let_def del: foldl_Cons scan_step.simps flip: foldl_append)
      then show ?thesis using "2.IH"(3) [OF False refl 2] 2 False by (simp only: l) (simp add: Let_def)
    next
      case 3
      have "foldl scan_step (InString r, st) (json_escape (c # cs)) =
          foldl scan_step (foldl scan_step (InString r, st) (take (rune_len (c # cs)) (c # cs))) (json_escape (drop (rune_len (c # cs)) (c # cs)))"
        using 3 False by (simp add: Let_def del: foldl_Cons scan_step.simps take.simps flip: foldl_append)
      then show ?thesis using "2.IH"(4) [OF False refl 3] 3 False by (simp only: h) (simp add: Let_def)
    qed
  qed
qed simp

lemma unquote_ascii: "of_char c < (0x80 :: nat) \<Longrightarrow> c \<noteq> backslash \<Longrightarrow> unquote (c # t) = c # unquote t"
  by (subst unquote.simps) simp

lemma unquote_u:
  assumes "hex_val a = Some a'" "hex_val b = Some b'" "hex_val c = Some c'" "hex_val d = Some d'"
    and "n = a' * 4096 + b' * 256 + c' * 16 + d'" "n < 0xD800 \<or> 0xE000 \<le> n"
  shows "unquote (backslash # CHR ''u'' # a # b # c # d # t) = utf8_encode n @ unquote t"
  using assms by (subst unquote.simps) (auto simp: getu4_def Let_def)

lemma short_escapes:
  "c \<in> {CHR 0x08, CHR 0x0C, CHR 0x0A, CHR 0x0D, CHR 0x09} \<Longrightarrow>
    \<exists>x. escape_byte c = [backslash, x] \<and> x \<noteq> CHR ''u'' \<and> simple_escape x = c"
  by (elim insertE emptyE) (simp_all add: escape_byte_def simple_escape_def quote_char_def backslash_def)

lemma unquote_escape_byte:
  assumes "of_char c < (0x80 :: nat)"
  shows "unquote (escape_byte c @ t) = c # unquote t"
proof -
  let ?n = "of_char c :: nat"
  have "unquote (backslash # CHR ''u'' # CHR ''0'' # CHR ''0'' # hex_digit (?n div 16) # hex_digit (?n mod 16) # t) =
      utf8_encode ?n @ unquote t"
    using assms by (intro unquote_u [where a' = 0 and b' = 0 and c' = "?n div 16" and d' = "?n mod 16"]) simp_all
  then have u: "unquote (backslash # ''u00'' @ [hex_digit (?n div 16), hex_digit (?n mod 16)] @ t) = c # unquote t"
    using assms by (simp add: utf8_encode_def char_bytes_def)
  have e: "unquote (backslash # e # t) = simple_escape e # unquote t" if "e \<noteq> CHR ''u''" for e
    using that by (subst unquote.simps) simp
  have "c = quote_char \<or> c = backslash \<or> c \<in> {CHR 0x08, CHR 0x0C, CHR 0x0A, CHR 0x0D, CHR 0x09} \<or>
      escape_byte c = backslash # ''u00'' @ [hex_digit (?n div 16), hex_digit (?n mod 16)] \<or>
      escape_byte c = [c] \<and> c \<noteq> backslash"
    unfolding escape_byte_def by auto
  then consider "c = quote_char \<or> c = backslash" | "c \<in> {CHR 0x08, CHR 0x0C, CHR 0x0A, CHR 0x0D, CHR 0x09}"
    | "escape_byte c = backslash # ''u00'' @ [hex_digit (?n div 16), hex_digit (?n mod 16)]"
    | "escape_byte c = [c]" "c \<noteq> backslash"
    by blast
  then show ?thesis
  proof cases
    case 1
    then have "escape_byte c = [backslash, c]" "c \<noteq> CHR ''u''" "simple_escape c = c"
      by (auto simp: escape_byte_def simple_escape_def quote_char_def backslash_def)
    then show ?thesis using e [of c] by simp
  next
    case 2
    then obtain x where "escape_byte c = [backslash, x]" "x \<noteq> CHR ''u''" "simple_escape x = c"
      using short_escapes by blast
    then show ?thesis using e [of x] by simp
  next
    case 3 then show ?thesis using u by simp
  next
    case 4 then show ?thesis using assms by (simp add: unquote_ascii)
  qed
qed

lemma unquote_rune:
  assumes "\<not> of_char c < (0x80 :: nat)" "rune_len (c # cs) \<noteq> 0"
  shows "unquote (take (rune_len (c # cs)) (c # cs) @ t) = take (rune_len (c # cs)) (c # cs) @ unquote t"
proof -
  let ?n = "rune_len (c # cs)"
  obtain m where m: "?n = Suc m" using assms(2) by (cases ?n) auto
  have eq: "take ?n (c # cs) @ t = c # (take m cs @ t)" by (simp add: m)
  have "m \<le> length cs" using rune_len_bound [of "c # cs"] m by simp
  then have d: "take ?n (c # take m cs @ t) = take ?n (c # cs)" "drop ?n (c # take m cs @ t) = t"
    by (simp_all add: m)
  have "rune_len (c # (take m cs @ t)) = ?n" using rune_len_prefix [OF assms(2), of t] by (simp add: eq)
  moreover have "c \<noteq> backslash" using assms(1) by (auto simp: backslash_def)
  ultimately show ?thesis
    unfolding eq using assms d by (subst unquote.simps) (simp add: Let_def)
qed

lemma separator_chars:
  "char_of (226 :: nat) = CHR 0xE2" "char_of (128 :: nat) = CHR 0x80" "char_of (168 :: nat) = CHR 0xA8"
  "char_of (169 :: nat) = CHR 0xA9"
  by code_simp+

lemma unquote_escape: "unquote (json_escape s) = to_valid_utf8 s"
proof (induction s rule: json_escape.induct)
  case 1
  show ?case by (simp add: unquote.simps to_valid_utf8.simps)
next
  case (2 c cs)
  let ?n = "rune_len (c # cs)"
  show ?case
  proof (cases "of_char c < (0x80 :: nat)")
    case True
    then show ?thesis using 2(1) by (simp add: unquote_escape_byte to_valid_utf8.simps)
  next
    case False
    consider "?n = 0" | "?n \<noteq> 0" "line_separator (take ?n (c # cs))" | "?n \<noteq> 0" "\<not> line_separator (take ?n (c # cs))"
      by blast
    then show ?thesis
    proof cases
      case 1
      have "unquote (backslash # ''ufffd'' @ t) = replacement @ unquote t" for t
        using unquote_u [where a = "CHR ''f''" and b = "CHR ''f''" and c = "CHR ''f''" and d = "CHR ''d''"
            and n = "0xFFFD" and t = t]
        by (simp add: replacement_def)
      then show ?thesis using 1 False "2.IH"(2) by (simp add: to_valid_utf8.simps)
    next
      case 2
      let ?l = "of_char (last (take ?n (c # cs))) mod 16 :: nat"
      have "unquote (backslash # ''u202'' @ [hex_digit ?l] @ t) = take ?n (c # cs) @ unquote t" for t
        using 2(2) unquote_u [where a = "CHR ''2''" and b = "CHR ''0''" and c = "CHR ''2''" and d = "hex_digit ?l"
            and n = "0x2020 + ?l" and t = t]
        by (auto simp: line_separator_def utf8_encode_def char_bytes_def separator_chars)
      then show ?thesis using 2 False "2.IH"(3) [OF False refl 2] by (simp add: to_valid_utf8.simps Let_def)
    next
      case 3
      then show ?thesis using False "2.IH"(4) [OF False refl 3]
        by (simp add: to_valid_utf8.simps Let_def unquote_rune del: take.simps drop.simps take_Cons drop_Cons)
    qed
  qed
qed

text \<open>Numbers and whole values. A number ends with the first byte that does not belong to it.\<close>

definition ends_number :: "char \<Rightarrow> bool" where
  "ends_number c \<longleftrightarrow> \<not> is_digit c \<and> c \<notin> {CHR ''.'', CHR ''e'', CHR ''E''}"

lemma scan_digits:
  "dec_value n xs = Some m \<Longrightarrow> foldl scan_step (InNumber NInt r, st) xs = (InNumber NInt (r @ xs), st)"
  by (induction xs arbitrary: n r) (auto simp: is_digit_def split: option.splits)

lemma dec_digits_first: "0 < n \<Longrightarrow> 
    \<exists>(d :: nat) xs k m. dec_digits n = char_of (48 + d) # xs \<and> 0 < d \<and> d < 10 \<and> dec_value k xs = Some m"
proof (induction n rule: dec_digits.induct)
  case (1 n)
  show ?case
  proof (cases "n < 10")
    case True
    then show ?thesis using 1 by (intro exI [of _ n] exI [of _ "[]"] exI) (simp add: dec_digits.simps)
  next
    case False
    then obtain d :: nat and xs k m where
      "dec_digits (n div 10) = char_of (48 + d) # xs" "0 < d" "d < 10" "dec_value k xs = Some m"
      using 1 by fastforce
    then have "dec_digits n = char_of (48 + d) # (xs @ [char_of (48 + n mod 10)])" "0 < d" "d < 10"
        "dec_value k (xs @ [char_of (48 + n mod 10)]) = Some (m * 10 + n mod 10)"
      using False by (simp_all add: dec_digits.simps [of n] dec_value_append)
    then show ?thesis by blast
  qed
qed

lemma zero_char: "char_of (48 :: nat) = CHR ''0''"
  by code_simp

lemma digit_chars:
  "d < (10 :: nat) \<Longrightarrow> is_digit (char_of (48 + d))"
  "0 < d \<Longrightarrow> d < (10 :: nat) \<Longrightarrow> char_of (48 + d) \<noteq> CHR ''0''"
  by (auto simp: is_digit_def dest!: arg_cong [where f = "of_char :: char \<Rightarrow> nat"])

lemma digit_not:
  "is_digit c \<Longrightarrow> \<not> is_space c" "is_digit c \<Longrightarrow> c \<noteq> CHR ''{''" "is_digit c \<Longrightarrow> c \<noteq> CHR ''[''"
  "is_digit c \<Longrightarrow> c \<noteq> quote_char" "is_digit c \<Longrightarrow> c \<noteq> CHR ''-''"
  by (auto simp: is_digit_def digit_val_def is_space_def quote_char_def Let_def)

lemma scan_first_digit:
  assumes "m = BeginValue \<and> r = [] \<or> m = InNumber NNeg r" "is_digit c" "c \<noteq> CHR ''0''"
  shows "scan_step (m, st) c = (InNumber NInt (r @ [c]), st)"
  using assms(1)
proof (elim disjE conjE)
  assume "m = BeginValue" "r = []"
  then show ?thesis
    using assms(2,3) digit_not [OF assms(2)] by (simp add: begin_value_def)
qed (use assms(2,3) in simp)

lemma dec_digits_0: "dec_digits 0 = ''0''"
  by (simp add: dec_digits.simps [of 0] zero_char)

lemma scan_nat:
  assumes "m = BeginValue \<and> r = [] \<or> m = InNumber NNeg r"
  shows "\<exists>k. number_complete k \<and> (k = NInt \<or> k = NZero) \<and> foldl scan_step (m, st) (dec_digits n) = (InNumber k (r @ dec_digits n), st)"
proof (cases "n = 0")
  case True
  have "scan_step (m, st) (CHR ''0'') = (InNumber NZero (r @ ''0''), st)"
    using assms by (auto simp: begin_value_def is_space_def quote_char_def)
  then show ?thesis
    using True by (intro exI [of _ NZero]) (simp add: dec_digits_0 number_complete_def)
next
  case False
  then have "0 < n" by simp
  from dec_digits_first [OF this] obtain d :: nat and xs k j where
    d: "dec_digits n = char_of (48 + d) # xs" "0 < d" "d < 10" "dec_value k xs = Some j" by blast
  have "scan_step (m, st) (char_of (48 + d)) = (InNumber NInt (r @ [char_of (48 + d)]), st)"
    by (rule scan_first_digit [OF assms digit_chars(1) [OF d(3)] digit_chars(2) [OF d(2,3)]])
  then have "foldl scan_step (m, st) (dec_digits n) = (InNumber NInt (r @ dec_digits n), st)"
    unfolding d(1) foldl_Cons by (simp only: scan_digits [OF d(4)]) simp
  then show ?thesis by (intro exI [of _ NInt]) (simp add: number_complete_def)
qed

lemma scan_int:
  assumes "ends_number c"
  shows "scan_step (foldl scan_step (BeginValue, st) (itoa i)) c = end_value (VNum (itoa i)) st c"
proof -
  have e: "scan_step (InNumber k r, st) c = end_value (VNum r) st c" if "k = NInt \<or> k = NZero" for k r
    using that assms by (auto simp: ends_number_def number_complete_def)
  show ?thesis
  proof (cases "i < 0")
    case True
    then have i: "itoa i = CHR ''-'' # dec_digits (nat (- i))" by (simp add: itoa_def)
    have m: "scan_step (BeginValue, st) (CHR ''-'') = (InNumber NNeg ''-'', st)"
      by (simp add: begin_value_def is_space_def quote_char_def)
    obtain k where "k = NInt \<or> k = NZero"
      "foldl scan_step (InNumber NNeg ''-'', st) (dec_digits (nat (- i))) = (InNumber k (itoa i), st)"
      using scan_nat [of "InNumber NNeg ''-''" "''-''" st "nat (- i)"] i by auto
    then show ?thesis by (simp only: foldl_Cons i m e)
  next
    case False
    then obtain k where "k = NInt \<or> k = NZero" "foldl scan_step (BeginValue, st) (itoa i) = (InNumber k (itoa i), st)"
      using scan_nat [of BeginValue "[]" st "nat i"] by (auto simp: itoa_def)
    then show ?thesis by (simp only: e)
  qed
qed

text \<open>What a written value reads as.\<close>

primrec value_of :: "json \<Rightarrow> jvalue" where
  "value_of (JStr s) = VStr (to_valid_utf8 s)"
| "value_of (JNum n) = VNum (itoa n)"
| "value_of (JObj kvs) = VObj (map (map_prod to_valid_utf8 id) (sort_key fst (map (map_prod id value_of) kvs)))"

primrec json_depth :: "json \<Rightarrow> nat" where
  "json_depth (JStr s) = 0"
| "json_depth (JNum n) = 0"
| "json_depth (JObj kvs) = Suc (foldr max (map snd (map (map_prod id json_depth) kvs)) 0)"

lemma depth_member: "(k, v) \<in> set kvs \<Longrightarrow> json_depth v < json_depth (JObj kvs)"
  by (induction kvs) auto

lemma sort_key_map_snd: "sort_key fst (map (\<lambda>p. (fst p, f (snd p))) kvs) = map (\<lambda>p. (fst p, f (snd p))) (sort_key fst kvs)"
proof -
  have i: "insort_key fst (fst x, f (snd x)) (map (\<lambda>p. (fst p, f (snd p))) xs) =
      map (\<lambda>p. (fst p, f (snd p))) (insort_key fst x xs)" for x xs
    by (induction xs) auto
  show ?thesis by (induction kvs) (simp_all add: sort_key_def i)
qed

definition member_text :: "string \<times> json \<Rightarrow> string" where
  "member_text m = json_string (fst m) @ '':'' @ json_text (snd m)"

definition member_value :: "string \<times> json \<Rightarrow> string \<times> jvalue" where
  "member_value m = (to_valid_utf8 (fst m), value_of (snd m))"

lemma json_text_obj: "json_text (JObj kvs) = ''{'' @ comma_join (map member_text (sort_key fst kvs)) @ ''}''"
  by (simp add: map_prod_def case_prod_unfold sort_key_map_snd comp_def member_text_def [abs_def])

lemma value_of_obj: "value_of (JObj kvs) = VObj (map member_value (sort_key fst kvs))"
  by (simp add: map_prod_def case_prod_unfold sort_key_map_snd comp_def member_value_def [abs_def])

lemma scan_string: "foldl scan_step (InString [], st) (json_escape s @ [quote_char]) = (EndValue (VStr (to_valid_utf8 s)), st)"
  by (simp add: scan_json_escape unquote_escape)

lemma scan_member:
  assumes "\<And>st c. length st + json_depth (snd m) \<le> maxNestingDepth \<Longrightarrow> ends_number c \<Longrightarrow>
      scan_step (foldl scan_step (BeginValue, st) (json_text (snd m))) c = end_value (value_of (snd m)) st c"
    and "length st + json_depth (snd m) < maxNestingDepth" "ends_number c"
    and "b = BeginString \<or> b = BeginStringOrEmpty"
  shows "scan_step (foldl scan_step (b, ObjectKey kvs # st) (member_text m)) c =
    end_value (value_of (snd m)) (ObjectValue kvs (to_valid_utf8 (fst m)) # st) c"
proof -
  have q: "scan_step (b, ObjectKey kvs # st) quote_char = (InString [], ObjectKey kvs # st)"
    using assms(4) by (auto simp: is_space_def quote_char_def)
  have k: "scan_step (EndValue (VStr k), ObjectKey kvs # st) (CHR '':'') = (BeginValue, ObjectValue kvs k # st)" for k
    by (simp add: is_space_def)
  have t: "member_text m = quote_char # (json_escape (fst m) @ [quote_char]) @ CHR '':'' # json_text (snd m)"
    by (simp add: member_text_def json_string_def)
  show ?thesis
    unfolding t foldl_Cons foldl_append [of scan_step _ "json_escape (fst m) @ [quote_char]"] q scan_string k
    using assms(1) [of "ObjectValue kvs (to_valid_utf8 (fst m)) # st" c] assms(2,3) by simp
qed

lemma ends_number_chars: "ends_number (CHR '','')" "ends_number (CHR ''}'')" "ends_number (CHR '' '')" "ends_number (CHR 0x0A)"
  by (simp_all add: ends_number_def is_digit_def digit_val_def)

lemma scan_members:
  assumes "\<And>m st c. m \<in> set ms \<Longrightarrow> length st + json_depth (snd m) \<le> maxNestingDepth \<Longrightarrow> ends_number c \<Longrightarrow>
      scan_step (foldl scan_step (BeginValue, st) (json_text (snd m))) c = end_value (value_of (snd m)) st c"
    and "\<And>m. m \<in> set ms \<Longrightarrow> length st + json_depth (snd m) < maxNestingDepth"
    and "b = BeginString \<or> b = BeginStringOrEmpty" "ms \<noteq> []"
  shows "foldl scan_step (b, ObjectKey kvs # st) (comma_join (map member_text ms) @ ''}'') =
    (EndValue (VObj (kvs @ map member_value ms)), st)"
  using assms
proof (induction ms arbitrary: b kvs)
  case (Cons m ms)
  note m = scan_member [of m st _ b kvs, OF Cons.prems(1) Cons.prems(2)]
  show ?case
  proof (cases ms)
    case Nil
    have "foldl scan_step (b, ObjectKey kvs # st) (comma_join (map member_text (m # ms)) @ ''}'') =
        scan_step (foldl scan_step (b, ObjectKey kvs # st) (member_text m)) (CHR ''}'')"
      by (simp add: comma_join_def Nil del: scan_step.simps)
    also have "\<dots> = (EndValue (VObj (kvs @ map member_value (m # ms))), st)"
      by (subst m) (use Cons.prems(3) in \<open>auto simp: ends_number_chars is_space_def member_value_def Nil\<close>)
    finally show ?thesis .
  next
    case (Cons m' ms')
    have "comma_join (map member_text (m # ms)) = member_text m @ CHR '','' # comma_join (map member_text ms)"
      by (simp add: comma_join_def Cons)
    then have "foldl scan_step (b, ObjectKey kvs # st) (comma_join (map member_text (m # ms)) @ ''}'') =
        foldl scan_step (scan_step (foldl scan_step (b, ObjectKey kvs # st) (member_text m)) (CHR '',''))
          (comma_join (map member_text ms) @ ''}'')"
      by (simp del: scan_step.simps)
    also have "scan_step (foldl scan_step (b, ObjectKey kvs # st) (member_text m)) (CHR '','') =
        (BeginString, ObjectKey (kvs @ [member_value m]) # st)"
      by (subst m) (use Cons.prems(3) in \<open>auto simp: ends_number_chars is_space_def member_value_def\<close>)
    also have "foldl scan_step \<dots> (comma_join (map member_text ms) @ ''}'') =
        (EndValue (VObj ((kvs @ [member_value m]) @ map member_value ms)), st)"
      by (rule Cons.IH) (use Cons.prems Cons in auto)
    finally show ?thesis by simp
  qed
qed simp

lemma scan_object:
  assumes "\<And>m st c. m \<in> set kvs \<Longrightarrow> length st + json_depth (snd m) \<le> maxNestingDepth \<Longrightarrow> ends_number c \<Longrightarrow>
      scan_step (foldl scan_step (BeginValue, st) (json_text (snd m))) c = end_value (value_of (snd m)) st c"
    and "length st + json_depth (JObj kvs) \<le> maxNestingDepth"
  shows "foldl scan_step (BeginValue, st) (json_text (JObj kvs)) = (EndValue (value_of (JObj kvs)), st)"
proof -
  have b: "scan_step (BeginValue, st) (CHR ''{'') = (BeginStringOrEmpty, ObjectKey [] # st)"
    using assms(2) by (simp add: begin_value_def is_space_def pushParseState_def)
  have d: "m \<in> set kvs \<Longrightarrow> length st + json_depth (snd m) < maxNestingDepth" for m
    using depth_member [of "fst m" "snd m" kvs] assms(2) by simp
  show ?thesis
  proof (cases "kvs = []")
    case True
    have "json_text (JObj kvs) = CHR ''{'' # ''}''" "value_of (JObj kvs) = VObj []"
      by (simp_all add: True comma_join_def)
    then show ?thesis by (simp only: foldl_Cons b) (simp add: is_space_def)
  next
    case False
    have "foldl scan_step (BeginStringOrEmpty, ObjectKey [] # st)
        (comma_join (map member_text (sort_key fst kvs)) @ ''}'') = (EndValue (value_of (JObj kvs)), st)"
      unfolding value_of_obj using scan_members [of "sort_key fst kvs" st BeginStringOrEmpty "[]"] assms(1) d False by simp
    then show ?thesis unfolding json_text_obj append.simps foldl_Cons b .
  qed
qed

lemma scan_json_text:
  "length st + json_depth v \<le> maxNestingDepth \<Longrightarrow> ends_number c \<Longrightarrow>
    scan_step (foldl scan_step (BeginValue, st) (json_text v)) c = end_value (value_of v) st c"
proof (induction v arbitrary: st c)
  case (JStr s)
  have "scan_step (BeginValue, st) quote_char = (InString [], st)"
    by (simp add: begin_value_def is_space_def quote_char_def)
  then have "foldl scan_step (BeginValue, st) (json_text (JStr s)) = (EndValue (VStr (to_valid_utf8 s)), st)"
    by (simp only: json_text.simps json_string_def foldl_Cons scan_string)
  then show ?case by simp
next
  case (JNum n)
  then show ?case by (simp only: json_text.simps value_of.simps scan_int)
next
  case (JObj kvs)
  have "foldl scan_step (BeginValue, st) (json_text (JObj kvs)) = (EndValue (value_of (JObj kvs)), st)"
    by (rule scan_object) (use JObj in \<open>auto simp: snds.simps\<close>)
  then show ?case by simp
qed

section \<open>Decoding\<close>

text \<open>Past the end of a value the scanner never reports a value again.\<close>

definition scan_over :: "scanner \<Rightarrow> bool" where
  "scan_over s = (case fst s of ScanEnd v b \<Rightarrow> True | ScanError \<Rightarrow> True | _ \<Rightarrow> False)"

lemma scan_over_step: "scan_over s \<Longrightarrow> scan_over (scan_step s c)"
  by (cases s) (auto simp: scan_over_def split: scan_mode.splits)

lemma scan_over_foldl: "scan_over s \<Longrightarrow> scan_over (foldl scan_step s xs)"
  by (induction xs arbitrary: s) (simp_all add: scan_over_step del: scan_step.simps)

lemma value_done_step: "value_done s = Some v \<Longrightarrow> scan_over (scan_step s c)"
  by (cases s) (auto simp: value_done_def scan_over_def split: scan_mode.splits jvalue.splits list.splits)

lemma scan_value_foldl:
  assumes "foldl scan_step s xs = (EndValue v, [])" "value_done (EndValue v, []) = Some v" "xs \<noteq> []"
  shows "scan_value s (xs @ ys) = Inl v"
  using assms
proof (induction xs arbitrary: s)
  case (Cons c cs)
  let ?s = "scan_step s c"
  have no: "\<not> scan_over (EndValue v, [])" by (simp add: scan_over_def)
  show ?case
  proof (cases "cs = []")
    case True
    then have "?s = (EndValue v, [])" using Cons.prems(1) by simp
    then show ?thesis using Cons.prems(2) True by (simp add: Let_def)
  next
    case False
    then obtain d ds where cs: "cs = d # ds" by (cases cs) auto
    have "fst ?s \<noteq> ScanError"
    proof
      assume "fst ?s = ScanError"
      then have "scan_over ?s" by (simp add: scan_over_def)
      then show False using scan_over_foldl [of ?s cs] Cons.prems(1) no by simp
    qed
    moreover have "value_done ?s = None"
    proof (rule ccontr)
      assume "value_done ?s \<noteq> None"
      then obtain u where "value_done ?s = Some u" by blast
      then have "scan_over (scan_step ?s d)" by (rule value_done_step)
      then show False using scan_over_foldl [of "scan_step ?s d" ds] Cons.prems(1) no cs by simp
    qed
    moreover have "scan_value ?s (cs @ ys) = Inl v"
      using Cons.IH [of ?s] Cons.prems False by simp
    ultimately show ?thesis by (simp add: Let_def del: scan_step.simps)
  qed
qed simp

lemma json_Decode_object:
  assumes "json_depth (JObj kvs) \<le> maxNestingDepth"
  shows "json_Decode [(json_text (JObj kvs) @ ys, e)] = Inr (value_of (JObj kvs))"
proof -
  have "foldl scan_step (BeginValue, []) (json_text (JObj kvs)) = (EndValue (value_of (JObj kvs)), [])"
    by (rule scan_object) (use assms in \<open>auto intro: scan_json_text\<close>)
  moreover have "value_done (EndValue (value_of (JObj kvs)), []) = Some (value_of (JObj kvs))"
    by (simp add: value_done_def)
  moreover have "json_text (JObj kvs) \<noteq> []" by simp
  ultimately have "scan_value (BeginValue, []) (json_text (JObj kvs) @ ys) = Inl (value_of (JObj kvs))"
    by (rule scan_value_foldl)
  moreover have "read_all [(s, e)] = s" for s by (cases e) simp_all
  ultimately show ?thesis by (simp only: json_Decode_def sum.case)
qed

lemma json_Unmarshal_text:
  assumes "json_depth v \<le> maxNestingDepth"
  shows "json_Unmarshal (json_text v) = Inr (value_of v)"
proof -
  have "scan_step (foldl scan_step (BeginValue, []) (json_text v)) (CHR '' '') = end_value (value_of v) [] (CHR '' '')"
    by (rule scan_json_text) (use assms in \<open>simp_all add: ends_number_chars\<close>)
  then show ?thesis by (simp only: json_Unmarshal_def end_value.simps prod.case scan_mode.case)
qed

text \<open>Objects as structs and as maps.\<close>

lemma field_of_name: "f \<in> set names \<Longrightarrow> field_of names f = Some f"
  by (simp add: field_of_def)

primrec json_ints_ok :: "json \<Rightarrow> bool" where
  "json_ints_ok (JStr s) = True"
| "json_ints_ok (JNum n) = i64_range n"
| "json_ints_ok (JObj kvs) = list_all snd (map (map_prod id json_ints_ok) kvs)"

lemma numbers_ok_value: "json_ints_ok v \<Longrightarrow> numbers_ok (value_of v)"
proof (induction v)
  case (JNum n)
  then show ?case using ParseFloat_itoa [of n] by simp
next
  case (JObj kvs)
  then have "\<forall>(k, v) \<in> set kvs. numbers_ok (value_of v)"
    by (fastforce simp: list_all_iff snds.simps)
  then show ?case unfolding value_of_obj by (auto simp: list_all_iff member_value_def)
qed simp

text \<open>The map a marshalled object is read back as.\<close>

definition as_map :: "json \<Rightarrow> (string \<times> gvalue) list" where
  "as_map v = (case to_any (value_of v) of GMap m \<Rightarrow> m | _ \<Rightarrow> [])"

lemma decode_map_value: "json_ints_ok (JObj kvs) \<Longrightarrow> decode_map (value_of (JObj kvs)) = Inr (as_map (JObj kvs))"
  using numbers_ok_value [of "JObj kvs"] by (simp add: decode_map_def as_map_def)

end
