(* ===== verification/Api.thy ===== *)
theory Api
  imports Config Metrics Engine JsonRoundTrip
begin

text \<open>
  internal/api: the authentication middleware (auth.go), the handlers and the event stream
  (handlers.go) and the routes (server.go). A handler works on the world, where the store is, and the
  response writer. Parameters: creating, parsing and rendering a uuid, the scrape handler of
  Prometheus. chi's own middlewares and the sniffing of a missing Content-Type are not modelled.
\<close>

section \<open>Requests and the response writer\<close>

text \<open>The Authorization header is empty when absent; \<open>rq_ctx_key\<close> is the value under \<open>apiKeyCtxKey\<close>.\<close>

record request =
  rq_auth :: string
  rq_param_id :: string
  rq_body :: http_body
  rq_ctx_key :: "string option"

record response =
  rp_header :: "string \<rightharpoonup> string"
  rp_sent :: "(string \<rightharpoonup> string) option"
  rp_code :: int
  rp_body :: string

definition new_response :: response where
  "new_response = \<lparr>rp_header = Map.empty, rp_sent = None, rp_code = 200, rp_body = []\<rparr>"

type_synonym 'w handler = "request \<Rightarrow> ('w \<times> response, unit) op"

definition set_header :: "string \<Rightarrow> string \<Rightarrow> response \<Rightarrow> response" where
  "set_header k v r = r\<lparr>rp_header := (rp_header r)(k \<mapsto> v)\<rparr>"

text \<open>The first \<open>WriteHeader\<close> fixes the status and the headers; later ones are ignored.\<close>

definition WriteHeader :: "int \<Rightarrow> response \<Rightarrow> response" where
  "WriteHeader code r =
     (case rp_sent r of
        None \<Rightarrow> r\<lparr>rp_sent := Some (rp_header r), rp_code := code\<rparr>
      | Some h \<Rightarrow> r)"

definition write_body :: "string \<Rightarrow> response \<Rightarrow> response" where
  "write_body s r = (let r' = WriteHeader 200 r in r'\<lparr>rp_body := rp_body r' @ s\<rparr>)"

definition http_Error :: "string \<Rightarrow> int \<Rightarrow> ('w \<times> response, unit) op" where
  "http_Error msg code s =
     (Ok (), (fst s, write_body (msg @ newline)
        (WriteHeader code (set_header ''X-Content-Type-Options'' ''nosniff''
           (set_header ''Content-Type'' ''text/plain; charset=utf-8'' (snd s))))))"

definition on_response :: "(response \<Rightarrow> response) \<Rightarrow> ('w \<times> response, unit) op" where
  "on_response f s = (Ok (), (fst s, f (snd s)))"

definition on_store :: "('w, 'a) op \<Rightarrow> ('w \<times> response, 'a) op" where
  "on_store m s = (case m (fst s) of (r, w) \<Rightarrow> (r, (w, snd s)))"

section \<open>Libraries\<close>

record 'w libs =
  lb_uuid_Parse :: "string \<Rightarrow> goerr + uuid"
  lb_uuid_String :: "uuid \<Rightarrow> string"
  lb_uuid_New :: "('w, uuid) op"

text \<open>\<open>json.NewEncoder(w).Encode(v)\<close>, its error dropped.\<close>

definition encode_json :: "json \<Rightarrow> response \<Rightarrow> response" where
  "encode_json v r =
     (case json_Marshal v of Inl e \<Rightarrow> r | Inr s \<Rightarrow> write_body (s @ newline) r)"

section \<open>Authentication\<close>

definition bearer :: string where
  "bearer = ''Bearer ''"

text \<open>The loop over the configured keys, which breaks at the first match.\<close>

fun key_valid :: "string \<Rightarrow> string list \<Rightarrow> bool" where
  "key_valid token [] = False"
| "key_valid token (key # keys) = (if token = key then True else key_valid token keys)"

definition authMiddleware :: "Config \<Rightarrow> 'w handler \<Rightarrow> 'w handler" where
  "authMiddleware cfg nxt r =
     (if length (cfg_APIKeys cfg) = 0 then nxt r
      else if rq_auth r = [] then http_Error ''authorization required'' 401
      else if \<not> has_prefix (rq_auth r) bearer
      then http_Error ''invalid authorization header format'' 401
      else let token = trim_prefix (rq_auth r) bearer in
           if \<not> key_valid token (cfg_APIKeys cfg) then http_Error ''invalid API key'' 401
           else nxt (r\<lparr>rq_ctx_key := Some token\<rparr>))"

definition getAPIKey :: "request \<Rightarrow> string" where
  "getAPIKey r = (case rq_ctx_key r of None \<Rightarrow> [] | Some k \<Rightarrow> k)"

section \<open>Handlers\<close>

text \<open>The body of a request, decoded into the struct with the field \<open>envelope_xdr\<close>, empty when absent.\<close>

definition decode_request :: "http_body \<Rightarrow> json_error + string" where
  "decode_request body =
     (case json_Decode body of
        Inl e \<Rightarrow> Inl e
      | Inr v \<Rightarrow> decode_struct [''envelope_xdr''] (\<lambda>f v s. set_string v (\<lambda>x. x) s) [] v)"

definition enqueueHandler :: "'w libs \<Rightarrow> 'w TxStore \<Rightarrow> 'w handler" where
  "enqueueHandler lb st r =
     (case decode_request (rq_body r) of
        Inl e \<Rightarrow> http_Error ''invalid request body'' 400
      | Inr xdr \<Rightarrow>
          (if xdr = [] then http_Error ''envelope_xdr is required'' 400
           else try_call (on_store (lb_uuid_New lb))
             (\<lambda>i. try_call (on_store (ts_SaveTransaction st (pending_tx i xdr)))
                (\<lambda>_. on_response (\<lambda>w. encode_json (JObj [(''id'', JStr (lb_uuid_String lb i))])
                       (WriteHeader 201 w)))
                (\<lambda>e. http_Error ''failed to save transaction'' 500))
             (\<lambda>e. ret Panic)))"

text \<open>The map literal of \<open>getTxHandler\<close> and of the stream's status events.\<close>

definition status_json :: "'w libs \<Rightarrow> uuid \<Rightarrow> Transaction \<Rightarrow> json" where
  "status_json lb i tx =
     JObj [(''id'', JStr (lb_uuid_String lb i)), (''status'', JStr (tx_Status tx)),
           (''retry'', JNum (tx_RetryCount tx)), (''last_error'', JStr (tx_LastError tx))]"

definition getTxHandler :: "'w libs \<Rightarrow> 'w TxStore \<Rightarrow> 'w handler" where
  "getTxHandler lb st r =
     (case lb_uuid_Parse lb (rq_param_id r) of
        Inl e \<Rightarrow> http_Error ''invalid transaction ID'' 400
      | Inr i \<Rightarrow> try_call (on_store (ts_GetTransaction st i))
          (\<lambda>tx. on_response (\<lambda>w. encode_json (status_json lb i tx) (WriteHeader 200 w)))
          (\<lambda>e. http_Error ''transaction not found'' 404))"

definition healthHandler :: "'w handler" where
  "healthHandler r =
     on_response (\<lambda>w. encode_json (JObj [(''status'', JStr ''ok'')])
       (WriteHeader 200 (set_header ''Content-Type'' ''application/json'' w)))"

text \<open>\<open>scrape\<close> is Prometheus' handler over the registry.\<close>

definition metricsHandler :: "metrics \<Rightarrow> 'w handler \<Rightarrow> 'w handler" where
  "metricsHandler m scrape r =
     (if \<not> Registry m then http_Error ''metrics not registered'' 500 else scrape r)"

definition writeJSON :: "int \<Rightarrow> json option \<Rightarrow> response \<Rightarrow> response" where
  "writeJSON status data w =
     (let w' = WriteHeader status (set_header ''Content-Type'' ''application/json'' w)
      in case data of None \<Rightarrow> w' | Some v \<Rightarrow> encode_json v w')"

section \<open>The event stream\<close>

text \<open>
  Writing to a streaming client can fail at any moment: \<open>fails n\<close> is the error of the write when n
  bytes of body are already out.
\<close>

definition sse_frame :: "string \<Rightarrow> string \<Rightarrow> string" where
  "sse_frame event payload = ''event: '' @ event @ newline @ ''data: '' @ payload @ newline @ newline"

definition sendSSEEvent ::
  "(nat \<Rightarrow> goerr option) \<Rightarrow> string \<Rightarrow> json \<Rightarrow> ('w \<times> response, unit) op" where
  "sendSSEEvent fails event data s =
     (case json_Marshal data of
        Inl e \<Rightarrow> (Error e, s)
      | Inr payload \<Rightarrow>
          (case fails (length (rp_body (snd s))) of
             Some e \<Rightarrow> (Error e, s)
           | None \<Rightarrow> (Ok (), (fst s, write_body (sse_frame event payload) (snd s)))))"

text \<open>The select loop of the stream: False when the events run out while the handler still waits.\<close>

primrec stream_loop ::
  "'w libs \<Rightarrow> (nat \<Rightarrow> goerr option) \<Rightarrow> 'w TxStore \<Rightarrow> uuid \<Rightarrow> loop_event list \<Rightarrow> ('w \<times> response, bool) op"
where
  "stream_loop lb fails st i [] = ret (Ok False)"
| "stream_loop lb fails st i (ev # evs) =
     (case ev of
        CtxDone e \<Rightarrow> ret (Ok True)
      | Tick \<Rightarrow> try_call (on_store (ts_GetTransaction st i))
          (\<lambda>tx. try_call (sendSSEEvent fails ''status'' (status_json lb i tx))
             (\<lambda>_. stream_loop lb fails st i evs)
             (\<lambda>e. ret (Ok True)))
          (\<lambda>e. log_err (sendSSEEvent fails ''error''
                  (JObj [(''message'', JStr ''transaction not found'')]))
                (ret (Ok True))))"

definition streamHandler ::
  "'w libs \<Rightarrow> (nat \<Rightarrow> goerr option) \<Rightarrow> bool \<Rightarrow> 'w TxStore \<Rightarrow> loop_event list \<Rightarrow> request \<Rightarrow>
   ('w \<times> response, bool) op" where
  "streamHandler lb fails can_flush st evs r =
     (case lb_uuid_Parse lb (rq_param_id r) of
        Inl e \<Rightarrow> log_err (http_Error ''invalid transaction ID'' 400) (ret (Ok True))
      | Inr i \<Rightarrow>
          (if \<not> can_flush then log_err (http_Error ''streaming unsupported'' 500) (ret (Ok True))
           else log_err (on_response (\<lambda>w. set_header ''Connection'' ''keep-alive''
                    (set_header ''Cache-Control'' ''no-cache''
                      (set_header ''Content-Type'' ''text/event-stream'' w))))
             (try_call (sendSSEEvent fails ''status''
                  (JObj [(''id'', JStr (lb_uuid_String lb i)), (''status'', JStr ''pending'')]))
                (\<lambda>_. stream_loop lb fails st i evs)
                (\<lambda>e. ret (Ok True)))))"

section \<open>Routes\<close>

datatype endpoint = HealthEndpoint | MetricsEndpoint | EnqueueEndpoint | GetTxEndpoint | StreamEndpoint

definition routes :: "(string \<times> string \<times> endpoint \<times> bool) list" where
  "routes =
     [(''GET'', ''/health'', HealthEndpoint, False),
      (''GET'', ''/metrics'', MetricsEndpoint, False),
      (''POST'', ''/transactions'', EnqueueEndpoint, True),
      (''GET'', ''/transactions/{id}'', GetTxEndpoint, True),
      (''GET'', ''/transactions/{id}/stream'', StreamEndpoint, True)]"

text \<open>
  The fields of \<open>Server\<close> the handlers use, and what a request meets besides: the libraries, how writes
  to the client fail, whether the writer can flush, the metrics, the scrape handler, the events of
  the stream's select loop.
\<close>

record 'w Server =
  sv_cfg :: Config
  sv_store :: "'w TxStore"

record 'w http_env =
  he_libs :: "'w libs"
  he_fails :: "nat \<Rightarrow> goerr option"
  he_flush :: bool
  he_metrics :: metrics
  he_scrape :: "'w handler"
  he_events :: "loop_event list"

definition handler_of :: "'w Server \<Rightarrow> 'w http_env \<Rightarrow> endpoint \<Rightarrow> 'w handler" where
  "handler_of sv env ep =
     (case ep of
        HealthEndpoint \<Rightarrow> healthHandler
      | MetricsEndpoint \<Rightarrow> metricsHandler (he_metrics env) (he_scrape env)
      | EnqueueEndpoint \<Rightarrow> enqueueHandler (he_libs env) (sv_store sv)
      | GetTxEndpoint \<Rightarrow> getTxHandler (he_libs env) (sv_store sv)
      | StreamEndpoint \<Rightarrow> (\<lambda>r. log_err (streamHandler (he_libs env) (he_fails env) (he_flush env)
            (sv_store sv) (he_events env) r) (ret (Ok ()))))"

text \<open>What runs for a matched route: its handler, behind the middleware inside the group.\<close>

definition dispatch :: "'w Server \<Rightarrow> 'w http_env \<Rightarrow> endpoint \<times> bool \<Rightarrow> 'w handler" where
  "dispatch sv env rt =
     (if snd rt then authMiddleware (sv_cfg sv) (handler_of sv env (fst rt)) else handler_of sv env (fst rt))"

section \<open>Facts\<close>

text \<open>The body a client marshals is decoded, whatever the envelope; bytes that are not UTF-8 are replaced.\<close>

lemma decode_request_body:
  "decode_request [(json_text (JObj [(''envelope_xdr'', JStr x)]), e)] = Inr (to_valid_utf8 x)"
proof -
  have n: "to_valid_utf8 ''envelope_xdr'' = ''envelope_xdr''"
    using valid_utf8_ascii [of "''envelope_xdr''"] by (simp add: valid_utf8_def)
  have "json_Decode [(json_text (JObj [(''envelope_xdr'', JStr x)]) @ [], e)] =
      Inr (VObj [(''envelope_xdr'', VStr (to_valid_utf8 x))])"
    unfolding value_of_obj [symmetric] by (subst json_Decode_object) (simp_all add: maxNestingDepth_def n)
  then show ?thesis
    by (simp add: decode_request_def decode_struct_def field_of_name set_string_def del: json_text.simps)
qed

lemma http_Error_run:
  "rp_sent r = None \<Longrightarrow> http_Error msg code (w, r) = (Ok (), (w, r\<lparr>rp_header := (rp_header r)
     (''Content-Type'' \<mapsto> ''text/plain; charset=utf-8'', ''X-Content-Type-Options'' \<mapsto> ''nosniff''),
     rp_sent := Some ((rp_header r)(''Content-Type'' \<mapsto> ''text/plain; charset=utf-8'',
       ''X-Content-Type-Options'' \<mapsto> ''nosniff'')),
     rp_code := code, rp_body := rp_body r @ msg @ newline\<rparr>))"
  by (simp add: http_Error_def write_body_def WriteHeader_def set_header_def)

definition reply :: "int \<Rightarrow> string \<Rightarrow> response" where
  "reply code body = \<lparr>rp_header = Map.empty, rp_sent = Some Map.empty, rp_code = code, rp_body = body\<rparr>"

lemma reply_sel [simp]: "rp_code (reply code body) = code" "rp_body (reply code body) = body"
  by (simp_all add: reply_def)

lemma json_reply_run:
  "on_response (\<lambda>w. encode_json v (WriteHeader code w)) (w, new_response) =
     (Ok (), (w, reply code (json_text v @ newline)))"
  by (simp add: on_response_def encode_json_def json_Marshal_def write_body_def WriteHeader_def
      new_response_def reply_def)

definition error_reply :: "int \<Rightarrow> string \<Rightarrow> response" where
  "error_reply code msg = snd (snd (http_Error msg code ((), new_response)))"

lemma error_reply_sel [simp]:
  "rp_code (error_reply code msg) = code" "rp_body (error_reply code msg) = msg @ newline"
  by (simp_all add: error_reply_def http_Error_run new_response_def)

lemma error_reply_run: "http_Error msg code (w, new_response) = (Ok (), (w, error_reply code msg))"
  by (simp add: error_reply_def http_Error_def)

lemma key_valid_iff: "key_valid token keys \<longleftrightarrow> token \<in> set keys"
  by (induction keys) auto

lemma bearer_ne [simp]: "bearer \<noteq> []"
  by (simp add: bearer_def)

lemma authMiddleware_open: "cfg_APIKeys cfg = [] \<Longrightarrow> authMiddleware cfg nxt r = nxt r"
  by (simp add: authMiddleware_def)

lemma authMiddleware_valid:
  "cfg_APIKeys cfg \<noteq> [] \<Longrightarrow> rq_auth r = bearer @ k \<Longrightarrow> k \<in> set (cfg_APIKeys cfg) \<Longrightarrow>
   authMiddleware cfg nxt r = nxt (r\<lparr>rq_ctx_key := Some k\<rparr>)"
  by (simp add: authMiddleware_def key_valid_iff)

lemma authMiddleware_invalid:
  assumes "cfg_APIKeys cfg \<noteq> []" "\<forall>k \<in> set (cfg_APIKeys cfg). rq_auth r \<noteq> bearer @ k"
  shows "\<exists>msg. authMiddleware cfg nxt r = http_Error msg 401"
proof -
  have "\<not> key_valid (trim_prefix (rq_auth r) bearer) (cfg_APIKeys cfg)" if "has_prefix (rq_auth r) bearer"
    using assms(2) that by (auto simp: key_valid_iff has_prefix_iff)
  then show ?thesis using assms(1) by (auto simp: authMiddleware_def)
qed

end
