(* ===== verification/Client.thy ===== *)
theory Client
  imports JsonRoundTrip
begin

text \<open>
  pkg/client/client.go: the client of the API. The HTTP transport is a parameter, and so is
  the text of a JSON error.
\<close>

section \<open>Requests and responses\<close>

record Client =
  cl_baseURL :: string
  cl_apiKey :: string

definition client_New :: "string \<Rightarrow> string \<Rightarrow> Client" where
  "client_New baseURL apiKey = \<lparr>cl_baseURL = baseURL, cl_apiKey = apiKey\<rparr>"

record http_request =
  hq_method :: string
  hq_url :: string
  hq_header :: "(string \<times> string) list"
  hq_body :: string

record http_response =
  hs_code :: int
  hs_reads :: http_body

record TransactionStatus =
  ts_ID :: string
  ts_Status :: string
  ts_Retry :: int
  ts_LastError :: string

text \<open>\<open>cb_NewRequest\<close> is the error of \<open>http.NewRequest\<close> for a method and a URL, None when there is none.\<close>

record 'n client_libs =
  cb_NewRequest :: "string \<Rightarrow> string \<Rightarrow> goerr option"
  cb_Do :: "http_request \<Rightarrow> ('n, http_response) op"
  cb_json_text :: "json_error \<Rightarrow> string"

definition statusError :: "http_response \<Rightarrow> goerr" where
  "statusError resp =
     ErrText [Lit ''API error '', Num (hs_code resp), Lit '': '', Lit (read_all (hs_reads resp))]"

definition authorization :: "Client \<Rightarrow> string" where
  "authorization c = ''Bearer '' @ cl_apiKey c"

text \<open>Build a request, send it, compare the status with the expected one.\<close>

definition call_api ::
  "'n client_libs \<Rightarrow> http_request \<Rightarrow> int \<Rightarrow> (http_response \<Rightarrow> ('n, 'a) op) \<Rightarrow> ('n, 'a) op" where
  "call_api lb rq expected k =
     (case cb_NewRequest lb (hq_method rq) (hq_url rq) of
        Some e \<Rightarrow> ret (Error (Wrap [Lit ''create request: ''] e))
      | None \<Rightarrow> try_call (cb_Do lb rq)
          (\<lambda>resp. if hs_code resp \<noteq> expected then ret (Error (statusError resp)) else k resp)
          (\<lambda>e. ret (Error (Wrap [Lit ''do request: ''] e))))"

text \<open>The struct with the field \<open>id\<close>, and \<open>TransactionStatus\<close>.\<close>

definition decode_id :: "jvalue \<Rightarrow> json_error + string" where
  "decode_id = decode_struct [''id''] (\<lambda>f v s. set_string v (\<lambda>x. x) s) []"

definition set_status_field :: "string \<Rightarrow> jvalue \<Rightarrow> TransactionStatus \<Rightarrow> TransactionStatus option" where
  "set_status_field f v s =
     (if f = ''id'' then set_string v (\<lambda>x. s\<lparr>ts_ID := x\<rparr>) s
      else if f = ''status'' then set_string v (\<lambda>x. s\<lparr>ts_Status := x\<rparr>) s
      else if f = ''retry'' then set_int v (\<lambda>n. s\<lparr>ts_Retry := n\<rparr>) s
      else set_string v (\<lambda>x. s\<lparr>ts_LastError := x\<rparr>) s)"

definition decode_status :: "jvalue \<Rightarrow> json_error + TransactionStatus" where
  "decode_status = decode_struct [''id'', ''status'', ''retry'', ''last_error''] set_status_field
     \<lparr>ts_ID = [], ts_Status = [], ts_Retry = 0, ts_LastError = []\<rparr>"

definition decode_body ::
  "'n client_libs \<Rightarrow> (jvalue \<Rightarrow> json_error + 'a) \<Rightarrow> http_response \<Rightarrow> ('n, 'a) op" where
  "decode_body lb dec resp =
     (case json_Decode (hs_reads resp) of
        Inl e \<Rightarrow> ret (Error (Wrap [Lit ''decode response: ''] (json_goerr (cb_json_text lb) e)))
      | Inr v \<Rightarrow> (case dec v of
          Inl e \<Rightarrow> ret (Error (Wrap [Lit ''decode response: ''] (json_goerr (cb_json_text lb) e)))
        | Inr a \<Rightarrow> ret (Ok a)))"

definition Client_Enqueue :: "'n client_libs \<Rightarrow> Client \<Rightarrow> string \<Rightarrow> ('n, string) op" where
  "Client_Enqueue lb c envelopeXDR =
     (case json_Marshal (JObj [(''envelope_xdr'', JStr envelopeXDR)]) of
        Inl e \<Rightarrow> ret (Error (Wrap [Lit ''marshal request: ''] e))
      | Inr body \<Rightarrow> call_api lb
          \<lparr>hq_method = ''POST'', hq_url = cl_baseURL c @ ''/transactions'',
           hq_header = [(''Authorization'', authorization c), (''Content-Type'', ''application/json'')],
           hq_body = body\<rparr> 201 (decode_body lb decode_id))"

definition Client_GetStatus :: "'n client_libs \<Rightarrow> Client \<Rightarrow> string \<Rightarrow> ('n, TransactionStatus) op" where
  "Client_GetStatus lb c txid = call_api lb
     \<lparr>hq_method = ''GET'', hq_url = cl_baseURL c @ ''/transactions/'' @ txid,
      hq_header = [(''Authorization'', authorization c)], hq_body = []\<rparr> 200
     (decode_body lb decode_status)"

section \<open>The event stream\<close>

text \<open>The loop over the lines of one chunk, with the variables \<open>event\<close> and \<open>data\<close>.\<close>

fun scan_event_lines :: "string list \<Rightarrow> string \<Rightarrow> string \<Rightarrow> string \<times> string" where
  "scan_event_lines [] event data = (event, data)"
| "scan_event_lines (line # rest) event data =
     (let event' = (if has_prefix line ''event:'' then trim_prefix line ''event:'' else event);
          data' = (if has_prefix line ''data:'' then trim_prefix line ''data:'' else data)
      in scan_event_lines rest event' data')"

text \<open>\<open>json.Unmarshal\<close> into a \<open>map[string]interface{}\<close>.\<close>

definition unmarshal_event :: "string \<Rightarrow> json_error + (string \<times> gvalue) list" where
  "unmarshal_event data = (case json_Unmarshal data of Inl e \<Rightarrow> Inl e | Inr v \<Rightarrow> decode_map v)"

text \<open>The calls of \<open>onEvent\<close> that one chunk causes: at most one.\<close>

type_synonym event_call = "string \<times> (string \<times> gvalue) list"

definition chunk_events :: "string \<Rightarrow> event_call list" where
  "chunk_events chunk =
     (let (event, data) = scan_event_lines (split_lines (trim_space chunk)) [] [] in
      if event \<noteq> [] \<and> data \<noteq> []
      then (case unmarshal_event data of Inl e \<Rightarrow> [] | Inr parsed \<Rightarrow> [(event, parsed)])
      else [])"

text \<open>The read loop: None while the stream is open and has no more to read.\<close>

fun stream_reads :: "http_body \<Rightarrow> unit res option \<times> event_call list" where
  "stream_reads [] = (None, [])"
| "stream_reads ((chunk, Some e) # rs) = (Some (Error (Wrap [Lit ''read stream: ''] e)), [])"
| "stream_reads ((chunk, None) # rs) =
     (let (r, evs) = stream_reads rs in (r, chunk_events chunk @ evs))"

definition Client_StreamStatus ::
  "'n client_libs \<Rightarrow> Client \<Rightarrow> string \<Rightarrow> ('n, unit res option \<times> event_call list) op" where
  "Client_StreamStatus lb c txid = call_api lb
     \<lparr>hq_method = ''GET'', hq_url = cl_baseURL c @ ''/transactions/'' @ txid @ ''/stream'',
      hq_header = [(''Authorization'', authorization c)], hq_body = []\<rparr> 200
     (\<lambda>resp. ret (Ok (stream_reads (hs_reads resp))))"

section \<open>Properties of the client\<close>

lemma stream_reads_chunks:
  "stream_reads (map (\<lambda>c. (c, None)) cs @ rs) =
     (fst (stream_reads rs), concat (map (chunk_events) cs) @ snd (stream_reads rs))"
  by (induction cs) (auto simp: Let_def split: prod.split)

text \<open>
  \<open>StreamStatus\<close> ends only with an error: it reports the events of the chunks read so far and then
  returns the error of the read wrapped, also at the regular end of the stream, and what that last
  read delivered along with the error is lost.
\<close>

lemma stream_status_ends:
  assumes "cb_NewRequest lb = (\<lambda>_ _. None)"
    and "cb_Do lb \<lparr>hq_method = ''GET'', hq_url = cl_baseURL c @ ''/transactions/'' @ i @ ''/stream'',
        hq_header = [(''Authorization'', authorization c)], hq_body = []\<rparr> w = (Ok resp, w')"
    and "hs_code resp = 200" "hs_reads resp = map (\<lambda>s. (s, None)) chunks @ (s, Some e) # rest"
  shows "Client_StreamStatus lb c i w =
    (Ok (Some (Error (Wrap [Lit ''read stream: ''] e)), concat (map (chunk_events) chunks)), w')"
  using assms by (simp add: Client_StreamStatus_def call_api_def try_call_def stream_reads_chunks)

text \<open>The replies of the API are decoded.\<close>

lemma decode_id_reply:
  "decode_body lb decode_id \<lparr>hs_code = n, hs_reads = [(json_text (JObj [(''id'', JStr t)]) @ newline, e)]\<rparr> w =
     (Ok (to_valid_utf8 t), w)"
proof -
  have n: "to_valid_utf8 ''id'' = ''id''"
    using valid_utf8_ascii [of "''id''"] by (simp add: valid_utf8_def)
  have "json_Decode [(json_text (JObj [(''id'', JStr t)]) @ newline, e)] = Inr (VObj [(''id'', VStr (to_valid_utf8 t))])"
    by (subst json_Decode_object) (simp_all add: maxNestingDepth_def n)
  then show ?thesis
    by (simp add: decode_body_def decode_id_def decode_struct_def field_of_name set_string_def ret_def del: json_text.simps)
qed

lemma decode_status_reply:
  assumes "i64_range k"
  shows "decode_body lb decode_status \<lparr>hs_code = n, hs_reads =
      [(json_text (JObj [(''id'', JStr t), (''status'', JStr st), (''retry'', JNum k), (''last_error'', JStr s)]) @ newline, e)]\<rparr> w =
    (Ok \<lparr>ts_ID = to_valid_utf8 t, ts_Status = to_valid_utf8 st, ts_Retry = k, ts_LastError = to_valid_utf8 s\<rparr>, w)"
proof -
  let ?o = "JObj [(''id'', JStr t), (''status'', JStr st), (''retry'', JNum k), (''last_error'', JStr s)]"
  have n: "to_valid_utf8 x = x" if "x \<in> {''id'', ''status'', ''retry'', ''last_error''}" for x
    using valid_utf8_ascii [of x] that by (auto simp: valid_utf8_def)
  have srt: "sort_key fst [(''id'', a), (''status'', b), (''retry'', c), (''last_error'', d)] =
      [(''id'', a), (''last_error'', d), (''retry'', c), (''status'', b)]" for a b c d :: json
    by (simp add: sort_key_def less_char_def less_eq_char_def)
  have v: "value_of ?o = VObj [(''id'', VStr (to_valid_utf8 t)), (''last_error'', VStr (to_valid_utf8 s)),
      (''retry'', VNum (itoa k)), (''status'', VStr (to_valid_utf8 st))]"
    unfolding value_of_obj srt by (simp add: member_value_def n)
  have "json_Decode [(json_text ?o @ newline, e)] = Inr (value_of ?o)"
    by (rule json_Decode_object) (simp add: maxNestingDepth_def)
  then show ?thesis
    using Atoi_itoa [OF assms] unfolding v
    by (simp add: decode_body_def decode_status_def decode_struct_def field_of_name set_status_field_def set_string_def
        set_int_def ret_def del: json_text.simps)
qed

end
