(* ===== verification/Service.thy ===== *)
theory Service
  imports Samples Api Client
begin

text \<open>
  The service as its clients see it: the API's handlers over the whole program's store, and the
  client of pkg/client talking to them.
\<close>

section \<open>Access\<close>

lemma routes_public:
  "(meth, path, ep, protected) \<in> set routes \<Longrightarrow> protected \<longleftrightarrow> path \<notin> {''/health'', ''/metrics''}"
  by (auto simp: routes_def)

lemma dispatch_protected:
  assumes "cfg_APIKeys (sv_cfg sv) \<noteq> []"
  shows "\<exists>msg. dispatch sv env (ep, True) r =
    (if \<exists>k \<in> set (cfg_APIKeys (sv_cfg sv)). rq_auth r = bearer @ k
     then handler_of sv env ep (r\<lparr>rq_ctx_key := Some (drop (length bearer) (rq_auth r))\<rparr>)
     else http_Error msg 401)"
proof (cases "\<exists>k \<in> set (cfg_APIKeys (sv_cfg sv)). rq_auth r = bearer @ k")
  case True
  then obtain k where k: "k \<in> set (cfg_APIKeys (sv_cfg sv))" "rq_auth r = bearer @ k" by blast
  then show ?thesis
    using authMiddleware_valid [OF assms k(2,1)] by (auto simp: dispatch_def)
next
  case False
  then show ?thesis
    using authMiddleware_invalid [OF assms, of r "handler_of sv env ep"] by (simp add: dispatch_def)
qed

lemma dispatch_open: "cfg_APIKeys (sv_cfg sv) = [] \<Longrightarrow> dispatch sv env (ep, p) = handler_of sv env ep"
  by (auto simp: dispatch_def authMiddleware_open)

text \<open>
  C12. Access control: with keys configured, a request to any route but \<open>/health\<close> and \<open>/metrics\<close> runs
  the handler, with the key in its context, exactly when its header is \<open>Bearer\<close> and one of the keys;
  otherwise it changes nothing but its response, which is 401.
\<close>

theorem access_control:
  assumes "cfg_APIKeys (sv_cfg sv) \<noteq> []" "(meth, path, ep, protected) \<in> set routes"
    and "path \<notin> {''/health'', ''/metrics''}"
  shows "\<exists>msg. dispatch sv env (ep, protected) r =
    (if \<exists>k \<in> set (cfg_APIKeys (sv_cfg sv)). rq_auth r = bearer @ k
     then handler_of sv env ep (r\<lparr>rq_ctx_key := Some (drop (length bearer) (rq_auth r))\<rparr>)
     else http_Error msg 401)"
  using dispatch_protected [OF assms(1)] routes_public [OF assms(2)] assms(3) by simp

definition sample_server :: "((unit, string) sys) Server" where
  "sample_server = \<lparr>sv_cfg = sample_cfg, sv_store = sys_TxStore\<rparr>"

definition sample_request :: "string \<Rightarrow> string \<Rightarrow> request" where
  "sample_request auth body =
     \<lparr>rq_auth = auth, rq_param_id = ''id'', rq_body = [(body, Some EOF)], rq_ctx_key = None\<rparr>"

theorem access_control_witness:
  "\<forall>env. \<exists>msg. dispatch sample_server env (GetTxEndpoint, True) (sample_request ''Bearer yek'' []) =
     http_Error msg 401"
proof (intro allI)
  fix env
  have "cfg_APIKeys (sv_cfg sample_server) \<noteq> []" by (simp add: sample_server_def sample_cfg_def)
  moreover have "(''GET'', ''/transactions/{id}'', GetTxEndpoint, True) \<in> set routes" by (simp add: routes_def)
  ultimately show "\<exists>msg. dispatch sample_server env (GetTxEndpoint, True) (sample_request ''Bearer yek'' []) =
     http_Error msg 401"
    using access_control [of sample_server "''GET''" "''/transactions/{id}''" GetTxEndpoint True env
        "sample_request ''Bearer yek'' []"]
    by (simp add: sample_server_def sample_cfg_def sample_request_def bearer_def)
qed

text \<open>
  C40. What \<open>API_KEYS\<close> means: the keys are its non-empty comma separated fields; a client is let in
  exactly when its key is one of them, and everybody is when there is none, for instance when the
  variable is a single comma.
\<close>

theorem client_access:
  assumes "Load gs env = Inr (sv_cfg sv)" "rq_auth r = authorization c"
  shows "\<exists>msg. dispatch sv henv (ep, True) r =
    (if set (env ''API_KEYS'') \<subseteq> {CHR '',''} then handler_of sv henv ep r
     else if cl_apiKey c \<noteq> [] \<and> cl_apiKey c \<in> set (csv_fields [] (env ''API_KEYS''))
     then handler_of sv henv ep (r\<lparr>rq_ctx_key := Some (cl_apiKey c)\<rparr>)
     else http_Error msg 401)"
proof -
  have keys: "cfg_APIKeys (sv_cfg sv) = filter (\<lambda>p. p \<noteq> []) (csv_fields [] (env ''API_KEYS''))"
    using Load_config [OF assms(1)] read_config_keys [of gs env] by simp
  have auth: "rq_auth r = bearer @ cl_apiKey c"
    using assms(2) by (simp add: authorization_def bearer_def)
  show ?thesis
  proof (cases "set (env ''API_KEYS'') \<subseteq> {CHR '',''}")
    case True
    then have "cfg_APIKeys (sv_cfg sv) = []" by (simp only: keys fields_empty)
    then show ?thesis using True by (simp add: dispatch_open)
  next
    case False
    then have "cfg_APIKeys (sv_cfg sv) \<noteq> []" by (simp only: keys fields_empty simp_thms not_False_eq_True)
    from dispatch_protected [OF this, of henv ep r] obtain msg where "dispatch sv henv (ep, True) r =
        (if \<exists>k \<in> set (cfg_APIKeys (sv_cfg sv)). rq_auth r = bearer @ k
         then handler_of sv henv ep (r\<lparr>rq_ctx_key := Some (drop (length bearer) (rq_auth r))\<rparr>)
         else http_Error msg 401)" ..
    then show ?thesis using False by (intro exI [of _ msg]) (auto simp: auth keys)
  qed
qed

theorem client_access_witness:
  "\<forall>henv. \<exists>cfg. \<exists>msg. Load default_list (\<lambda>k. if k = ''API_KEYS'' then '','' else []) = Inr cfg \<and>
     dispatch \<lparr>sv_cfg = cfg, sv_store = (sys_TxStore :: ((unit, string) sys) TxStore)\<rparr> henv (GetTxEndpoint, True)
       (sample_request ''Bearer anything'' []) =
     handler_of \<lparr>sv_cfg = cfg, sv_store = sys_TxStore\<rparr> henv GetTxEndpoint (sample_request ''Bearer anything'' [])"
proof (intro allI)
  fix henv :: "((unit, string) sys) http_env"
  let ?env = "\<lambda>k. if k = ''API_KEYS'' then '','' else []"
  have "\<exists>cfg. Load default_list ?env = Inr cfg"
    by (simp add: Load_def Let_def read_config_def getEnvInt_def getEnvFloat_def f64_less_def f64_one_def)
  then obtain cfg where "Load default_list ?env = Inr cfg" by blast
  then show "\<exists>cfg. \<exists>msg. Load default_list (\<lambda>k. if k = ''API_KEYS'' then '','' else []) = Inr cfg \<and>
     dispatch \<lparr>sv_cfg = cfg, sv_store = sys_TxStore\<rparr> henv (GetTxEndpoint, True)
       (sample_request ''Bearer anything'' []) =
     handler_of \<lparr>sv_cfg = cfg, sv_store = sys_TxStore\<rparr> henv GetTxEndpoint (sample_request ''Bearer anything'' [])"
    using client_access [of default_list ?env "\<lparr>sv_cfg = cfg, sv_store = sys_TxStore\<rparr>"
        "sample_request ''Bearer anything'' []" "client_New [] ''anything''" henv GetTxEndpoint]
    by (simp add: sample_request_def authorization_def client_New_def)
qed


section \<open>Posting and reading a transaction\<close>

lemma save_run:
  assumes "sys_quiet w" "pg_text_ok x" "sys_txs w i = None"
  shows "\<exists>d. on_db (Store_SaveTransaction (pending_tx i x)) w = (Ok (), w\<lparr>sys_db := d\<rparr>) \<and> db_quiet d \<and>
    pg_scan_null d = pg_scan_null (sys_db w) \<and> db_accts d = db_accts (sys_db w) \<and>
    find_tx i (pg_transactions d) = Some \<lparr>tr_id = i, tr_envelope_xdr = x, tr_status = TxStatusPending,
      tr_channel_account = None, tr_retry_count = 0, tr_last_error = None,
      tr_created_at = pg_clock (sys_db w) (pg_calls (sys_db w)),
      tr_updated_at = pg_clock (sys_db w) (pg_calls (sys_db w))\<rparr> \<and>
    db_txs d = (db_txs (sys_db w))(i \<mapsto> \<lparr>av_env = x, av_status = TxStatusPending, av_chan = None,
      av_retry = 0, av_err = None\<rparr>)"
proof -
  have f: "find_tx i (pg_transactions (sys_db w)) = None" using assms(3) by (simp add: sys_txs_def db_txs_None)
  obtain r d where s: "Store_SaveTransaction (pending_tx i x) (sys_db w) = (r, d)"
    by (cases "Store_SaveTransaction (pending_tx i x) (sys_db w)")
  have q: "db_quiet (sys_db w)" using assms(1) by (simp add: sys_quiet_def)
  have "r = Ok ()" "db_quiet d" "pg_scan_null d = pg_scan_null (sys_db w)"
    "pg_transactions d = pg_transactions (sys_db w) @ [\<lparr>tr_id = i, tr_envelope_xdr = x, tr_status = TxStatusPending,
      tr_channel_account = None, tr_retry_count = 0, tr_last_error = None,
      tr_created_at = pg_clock (sys_db w) (pg_calls (sys_db w)),
      tr_updated_at = pg_clock (sys_db w) (pg_calls (sys_db w))\<rparr>]"
    using s q f assms(2)
    by (auto simp: Store_SaveTransaction_def wrap_err_def try_call_def quiet_pg_stmt sql_insert_tx_def
        pending_tx_def int4_ok_def int4_max_def find_tx_None db_quiet_def keys_ok_def no_faults_def)
  then show ?thesis
    using s f save_tx_views [OF q s] by (intro exI [of _ d]) (simp add: on_db_def find_tx_def find_append pending_tx_def)
qed


lemma post_stored:
  assumes "sys_quiet w" "sv_store sv = sys_TxStore" "lb_uuid_New (he_libs env) = on_net new"
    and "new (sys_net w) = (Ok i, nw)" "decode_request (rq_body r) = Inr x" "x \<noteq> []"
    and "handler_of sv env EnqueueEndpoint r (w, new_response) = (res, (w', rp))"
  shows "res = Ok () \<and> sys_quiet w' \<and> sys_accts w' = sys_accts w \<and> sys_router w' = sys_router w \<and>
    (if \<not> pg_text_ok x \<or> sys_txs w i \<noteq> None
     then rp_code rp = 500 \<and> rp_body rp = ''failed to save transaction'' @ newline \<and> sys_txs w' = sys_txs w
     else rp_code rp = 201 \<and>
       rp_body rp = json_text (JObj [(''id'', JStr (lb_uuid_String (he_libs env) i))]) @ newline \<and>
       sys_txs w' = (sys_txs w)(i \<mapsto> \<lparr>av_env = x, av_status = TxStatusPending, av_chan = None,
         av_retry = 0, av_err = None\<rparr>))"
proof -
  let ?w = "w\<lparr>sys_net := nw\<rparr>"
  have q: "sys_quiet ?w" using assms(1) by (simp add: sys_quiet_def)
  have h: "(res, (w', rp)) = try_call (on_store (on_db (Store_SaveTransaction (pending_tx i x))))
      (\<lambda>_. on_response (\<lambda>w. encode_json (JObj [(''id'', JStr (lb_uuid_String (he_libs env) i))])
         (WriteHeader 201 w)))
      (\<lambda>e. http_Error ''failed to save transaction'' 500) (?w, new_response)"
    using assms(2-7)
    by (simp add: handler_of_def enqueueHandler_def try_call_def on_store_def on_net_def)
  obtain y d where y: "Store_SaveTransaction (pending_tx i x) (sys_db w) = (y, d)"
    by (cases "Store_SaveTransaction (pending_tx i x) (sys_db w)")
  show ?thesis
  proof (cases "pg_text_ok x \<and> sys_txs w i = None")
    case True
    then have n: "pg_text_ok x" "sys_txs ?w i = None" by (simp_all add: sys_txs_def)
    from save_run [OF q n] obtain d where d:
      "on_db (Store_SaveTransaction (pending_tx i x)) ?w = (Ok (), ?w\<lparr>sys_db := d\<rparr>)" "db_quiet d"
      "db_accts d = db_accts (sys_db ?w)" "db_txs d = (db_txs (sys_db ?w))(i \<mapsto>
         \<lparr>av_env = x, av_status = TxStatusPending, av_chan = None, av_retry = 0, av_err = None\<rparr>)"
      by blast
    then show ?thesis
      using h True by (simp add: try_call_def on_store_def d json_reply_run sys_views)
  next
    case False
    then have "\<exists>e. y = Error e" "db_quiet d" "db_txs d = db_txs (sys_db w)" "db_accts d = db_accts (sys_db w)"
      using y assms(1) save_tx_views [OF _ y]
      by (auto simp: sys_views db_txs_def find_tx_None Store_SaveTransaction_def wrap_err_def try_call_def quiet_pg_stmt
          sql_insert_tx_def pending_tx_def int4_ok_def int4_max_def split: if_splits)
    then show ?thesis
      using h y False
      by (auto simp: try_call_def on_store_def on_db_def http_Error_run new_response_def sys_views)
  qed
qed

text \<open>
  C39. What \<open>POST /transactions\<close> does, with the database at rest: a body that does not decode, or
  without an envelope, is refused with 400 and stores nothing. An envelope the TEXT column does not
  take, as one with a NUL byte, and a clash of the id are a 500 that stores nothing. Any other text,
  whether it is an envelope at all or not, is stored as a new pending transaction and answered 201
  with its id. No account is touched.
\<close>

theorem post_transaction:
  assumes "sys_quiet w" "sv_store sv = sys_TxStore" "lb_uuid_New (he_libs env) = on_net new"
    and "new (sys_net w) = (Ok i, nw)"
    and "handler_of sv env EnqueueEndpoint r (w, new_response) = (res, (w', rp))"
  shows "res = Ok () \<and> sys_quiet w' \<and> sys_accts w' = sys_accts w \<and> sys_router w' = sys_router w \<and>
    (case decode_request (rq_body r) of
       Inl e \<Rightarrow> rp_code rp = 400 \<and> sys_txs w' = sys_txs w
     | Inr x \<Rightarrow>
         (if x = [] then rp_code rp = 400 \<and> sys_txs w' = sys_txs w
          else if \<not> pg_text_ok x \<or> sys_txs w i \<noteq> None
          then rp_code rp = 500 \<and> rp_body rp = ''failed to save transaction'' @ newline \<and> sys_txs w' = sys_txs w
          else rp_code rp = 201 \<and>
            rp_body rp = json_text (JObj [(''id'', JStr (lb_uuid_String (he_libs env) i))]) @ newline \<and>
            sys_txs w' = (sys_txs w)(i \<mapsto> \<lparr>av_env = x, av_status = TxStatusPending, av_chan = None,
              av_retry = 0, av_err = None\<rparr>)))"
proof (cases "decode_request (rq_body r)")
  case (Inl e)
  then show ?thesis
    using assms by (auto simp: handler_of_def enqueueHandler_def http_Error_run new_response_def)
next
  case (Inr x)
  show ?thesis
  proof (cases "x = []")
    case True
    then show ?thesis
      using assms Inr by (auto simp: handler_of_def enqueueHandler_def http_Error_run new_response_def)
  next
    case False
    then show ?thesis using post_stored [OF assms(1-4) Inr False assms(5)] Inr by simp
  qed
qed


definition sample_env :: "(string \<Rightarrow> goerr + uuid) \<Rightarrow> ((unit, string) sys) http_env" where
  "sample_env parse =
     \<lparr>he_libs = \<lparr>lb_uuid_Parse = parse, lb_uuid_String = \<lambda>i. ''id'',
        lb_uuid_New = on_net (ret (Ok 9))\<rparr>, he_fails = \<lambda>n. None, he_flush = True,
      he_metrics = metrics_nil, he_scrape = \<lambda>r. ret (Ok ()), he_events = []\<rparr>"

lemma sample_env_sel [simp]:
  "lb_uuid_Parse (he_libs (sample_env p)) = p"
  "lb_uuid_String (he_libs (sample_env p)) i = ''id''"
  "lb_uuid_New (he_libs (sample_env p)) = on_net (ret (Ok 9))"
  by (simp_all add: sample_env_def)

lemma sample_server_sel [simp]: "sv_store sample_server = sys_TxStore" "sv_cfg sample_server = sample_cfg"
  by (simp_all add: sample_server_def)

theorem post_transaction_witness:
  "\<exists>w' rp. handler_of sample_server (sample_env (\<lambda>s. Inr 9)) EnqueueEndpoint
      (sample_request [] (json_text (JObj [(''envelope_xdr'', JStr ''AAAA'')])))
      (sample_world (Ok None) (calm_db [] [] (Inr [])), new_response) = (Ok (), (w', rp)) \<and>
    rp_code rp = 201 \<and> map_option av_env (sys_txs w' 9) = Some ''AAAA''"
proof -
  let ?w = "sample_world (Ok None) (calm_db [] [] (Inr []))"
  let ?r = "sample_request [] (json_text (JObj [(''envelope_xdr'', JStr ''AAAA'')]))"
  obtain res w' rp where h: "handler_of sample_server (sample_env (\<lambda>s. Inr 9)) EnqueueEndpoint ?r
      (?w, new_response) = (res, (w', rp))" by (metis prod_cases3)
  have q: "sys_quiet ?w" by (simp add: sys_quiet_def)
  have n: "sys_txs ?w 9 = None" by (simp add: sys_txs_def db_txs_def find_tx_def)
  have u: "ret (Ok 9) (sys_net ?w) = (Ok 9, sys_net ?w)" by simp
  have "valid_utf8 ''AAAA''" by (rule valid_utf8_ascii) simp
  then have "decode_request (rq_body ?r) = Inr ''AAAA''"
    by (simp add: sample_request_def decode_request_body valid_utf8_def del: json_text.simps)
  then show ?thesis
    using post_transaction [OF q sample_server_sel(1) sample_env_sel(3) u h] h n
    by (intro exI [of _ w'] exI [of _ rp]) simp
qed

section \<open>The client against the service\<close>

text \<open>
  A transport that hands each request of the client to the service in the same process. \<open>mt\<close> is chi's
  matching of a method and a path (the URL without the base) to a route and its \<open>id\<close>; an unmatched
  one is chi's 404.
\<close>

type_synonym matcher = "string \<Rightarrow> string \<Rightarrow> ((endpoint \<times> bool) \<times> string) option"

definition header :: "string \<Rightarrow> (string \<times> string) list \<Rightarrow> string" where
  "header k h = (case map_of h k of None \<Rightarrow> [] | Some v \<Rightarrow> v)"

definition to_request :: "http_request \<Rightarrow> string \<Rightarrow> request" where
  "to_request rq param =
     \<lparr>rq_auth = header ''Authorization'' (hq_header rq), rq_param_id = param,
      rq_body = [(hq_body rq, Some EOF)], rq_ctx_key = None\<rparr>"

definition to_response :: "response \<Rightarrow> http_response" where
  "to_response rp = \<lparr>hs_code = rp_code rp, hs_reads = [(rp_body rp, Some EOF)]\<rparr>"

definition loopback :: "matcher \<Rightarrow> 'w Server \<Rightarrow> 'w http_env \<Rightarrow> http_request \<Rightarrow> ('w, http_response) op" where
  "loopback mt sv env rq w =
     (case mt (hq_method rq) (hq_url rq) of
        None \<Rightarrow> (Ok \<lparr>hs_code = 404, hs_reads = [(''404 page not found'' @ newline, Some EOF)]\<rparr>, w)
      | Some (rt, param) \<Rightarrow>
          (case dispatch sv env rt (to_request rq param) (w, new_response) of
             (Panic, (w', rp)) \<Rightarrow> (Error EOF, w')
           | (_, (w', rp)) \<Rightarrow> (Ok (to_response rp), w')))"

lemma client_let_in:
  assumes "cfg_APIKeys (sv_cfg sv) = [] \<or> cl_apiKey c \<in> set (cfg_APIKeys (sv_cfg sv))"
    and "rq_auth r = authorization c"
  shows "\<exists>r'. dispatch sv env (ep, True) r = handler_of sv env ep r' \<and>
    rq_body r' = rq_body r \<and> rq_param_id r' = rq_param_id r"
proof (cases "cfg_APIKeys (sv_cfg sv) = []")
  case True
  then show ?thesis by (intro exI [of _ r]) (simp add: dispatch_open)
next
  case False
  then have "\<exists>k \<in> set (cfg_APIKeys (sv_cfg sv)). rq_auth r = bearer @ k"
    using assms by (auto simp: authorization_def bearer_def)
  then show ?thesis using dispatch_protected [OF False, of env ep r] by fastforce
qed

lemma call_api_ok:
  assumes "cb_NewRequest cb = (\<lambda>_ _. None)" "cb_Do cb rq w = (Ok resp, w')" "hs_code resp = expected"
  shows "call_api cb rq expected k w = k resp w'"
  using assms by (simp add: call_api_def try_call_def)

lemma call_api_refused:
  assumes "cb_NewRequest cb = (\<lambda>_ _. None)" "cb_Do cb rq w = (Ok resp, w')" "hs_code resp \<noteq> expected"
  shows "call_api cb rq expected k w = (Error (statusError resp), w')"
  using assms by (simp add: call_api_def try_call_def)

text \<open>One exchange: a protected route, matched, with a key that is let in.\<close>

lemma loopback_run:
  assumes "cfg_APIKeys (sv_cfg sv) = [] \<or> cl_apiKey c \<in> set (cfg_APIKeys (sv_cfg sv))"
    and "mt (hq_method rq) (hq_url rq) = Some ((ep, True), param)"
    and "header ''Authorization'' (hq_header rq) = authorization c"
    and "\<forall>r. rq_body r = [(hq_body rq, Some EOF)] \<longrightarrow> rq_param_id r = param \<longrightarrow>
      handler_of sv env ep r (w, new_response) = (Ok (), (w', rp))"
  shows "loopback mt sv env rq w = (Ok (to_response rp), w')"
proof -
  obtain r' where r': "dispatch sv env (ep, True) (to_request rq param) = handler_of sv env ep r'"
    "rq_body r' = [(hq_body rq, Some EOF)]" "rq_param_id r' = param"
    using client_let_in [OF assms(1), of "to_request rq param" env ep] assms(3) by (auto simp: to_request_def)
  then show ?thesis using assms(2,4) by (simp add: loopback_def)
qed

lemma get_run:
  assumes "db_quiet d" "find_tx i (pg_transactions d) = Some tr" "tr_channel_account tr = None"
    "tr_last_error tr = None"
  shows "\<exists>d'. case pg_scan_null d of
      Inl e \<Rightarrow> \<exists>e'. Store_GetTransaction i d = (Error e', d')
    | Inr s \<Rightarrow> \<exists>tx. Store_GetTransaction i d = (Ok tx, d') \<and> tx_Status tx = tr_status tr \<and>
        tx_RetryCount tx = tr_retry_count tr \<and> tx_LastError tx = s"
  using assms
  by (auto simp: Store_GetTransaction_def wrap_err_def try_call_def quiet_pg_stmt sql_select_tx_def scan_tx_def
      split: sum.splits)


lemma post_run:
  assumes "sys_quiet w" "sv_store sv = sys_TxStore" "lb_uuid_New (he_libs env) = on_net new"
    and "new (sys_net w) = (Ok i, nw)" "sys_txs w i = None"
    and "decode_request (rq_body r) = Inr x" "x \<noteq> []"
    and "on_db (Store_SaveTransaction (pending_tx i x)) (w\<lparr>sys_net := nw\<rparr>) = (Ok (), w')"
  shows "handler_of sv env EnqueueEndpoint r (w, new_response) = (Ok (), (w',
    reply 201 (json_text (JObj [(''id'', JStr (lb_uuid_String (he_libs env) i))]) @ newline)))"
  using assms
  by (simp add: handler_of_def enqueueHandler_def try_call_def on_store_def on_net_def json_reply_run)

lemma get_handler_run:
  assumes "sv_store sv = sys_TxStore" "lb_uuid_Parse (he_libs env) (rq_param_id r) = Inr i"
    and "Store_GetTransaction i (sys_db w) = (res, d)"
  shows "case res of
      Ok tx \<Rightarrow> handler_of sv env GetTxEndpoint r (w, new_response) = (Ok (), (w\<lparr>sys_db := d\<rparr>,
        reply 200 (json_text (status_json (he_libs env) i tx) @ newline)))
    | Error e \<Rightarrow> handler_of sv env GetTxEndpoint r (w, new_response) =
        (Ok (), (w\<lparr>sys_db := d\<rparr>, error_reply 404 ''transaction not found''))
    | Panic \<Rightarrow> True"
  using assms
  by (cases res)
     (simp_all add: handler_of_def getTxHandler_def try_call_def on_store_def on_db_def json_reply_run
        error_reply_run)

lemma client_status_run:
  assumes "db_quiet (sys_db w)" "sv_store sv = sys_TxStore"
    and tr: "find_tx i (pg_transactions (sys_db w)) = Some tr" "tr_channel_account tr = None" "tr_last_error tr = None"
      "tr_status tr = st" "tr_retry_count tr = n"
    and key: "cfg_APIKeys (sv_cfg sv) = [] \<or> cl_apiKey c \<in> set (cfg_APIKeys (sv_cfg sv))"
    and ids: "lb_uuid_String (he_libs env) i = t" "lb_uuid_Parse (he_libs env) t = Inr i"
    and routing: "mt ''GET'' (cl_baseURL c @ ''/transactions/'' @ t) = Some ((GetTxEndpoint, True), t)"
    and utf8: "valid_utf8 t" "valid_utf8 st" "i64_range n"
    and http: "cb_NewRequest cb = (\<lambda>_ _. None)" "cb_Do cb = loopback mt sv env"
  shows "\<exists>w2. Client_GetStatus cb c t w =
      (case pg_scan_null (sys_db w) of
         Inr s \<Rightarrow> Ok \<lparr>ts_ID = t, ts_Status = st, ts_Retry = n, ts_LastError = to_valid_utf8 s\<rparr>
       | Inl e \<Rightarrow> Error (ErrText [Lit ''API error '', Num 404, Lit '': '',
                          Lit (''transaction not found'' @ newline)]), w2)"
proof -
  obtain res d' where g: "Store_GetTransaction i (sys_db w) = (res, d')" by (cases "Store_GetTransaction i (sys_db w)")
  have get: "loopback mt sv env \<lparr>hq_method = ''GET'', hq_url = cl_baseURL c @ ''/transactions/'' @ t,
      hq_header = [(''Authorization'', authorization c)], hq_body = []\<rparr> w =
    (Ok (to_response rp), w\<lparr>sys_db := d'\<rparr>)"
    if "\<forall>r. rq_param_id r = t \<longrightarrow>
      handler_of sv env GetTxEndpoint r (w, new_response) = (Ok (), (w\<lparr>sys_db := d'\<rparr>, rp))" for rp
    using key routing that by (intro loopback_run) (auto simp: header_def)
  show ?thesis
  proof (cases "pg_scan_null (sys_db w)")
    case (Inr s)
    then obtain tx where tx: "res = Ok tx" "tx_Status tx = st" "tx_RetryCount tx = n"
      "tx_LastError tx = s"
      using get_run [OF assms(1) tr(1-3)] g tr(4,5) by auto
    have h: "\<forall>r. rq_param_id r = t \<longrightarrow> handler_of sv env GetTxEndpoint r (w, new_response) =
        (Ok (), (w\<lparr>sys_db := d'\<rparr>, reply 200 (json_text (status_json (he_libs env) i tx) @ newline)))"
      using get_handler_run [OF assms(2), of env _ i w res d'] g tx(1) ids(2) by simp
    show ?thesis
      using call_api_ok [OF http(1), unfolded http(2), OF get [OF h], where expected = 200 and
          k = "decode_body cb decode_status"] tx Inr ids(1) utf8(1,2)
      by (simp add: Client_GetStatus_def to_response_def status_json_def valid_utf8_def decode_status_reply [OF utf8(3)]
          del: json_text.simps)
  next
    case (Inl e)
    then obtain e' where e': "res = Error e'" using get_run [OF assms(1) tr(1-3)] g by auto
    have h: "\<forall>r. rq_param_id r = t \<longrightarrow> handler_of sv env GetTxEndpoint r (w, new_response) =
        (Ok (), (w\<lparr>sys_db := d'\<rparr>, error_reply 404 ''transaction not found''))"
      using get_handler_run [OF assms(2), of env _ i w res d'] g e' ids(2) by simp
    show ?thesis
      using call_api_refused [OF http(1), unfolded http(2), OF get [OF h], where expected = 200 and
          k = "decode_body cb decode_status"] Inl
      by (simp add: Client_GetStatus_def to_response_def statusError_def)
  qed
qed

text \<open>
  C7. The client's round trip. Against a service with its database at rest, a client with a valid key
  that enqueues an envelope without a NUL byte, which the TEXT column would refuse, gets the id of a new pending transaction holding that envelope, with
  every byte that is not UTF-8 replaced by U+FFFD. Asking for its status with that id then answers
  pending, with no retries, if the driver reads NULL as a string; if the driver refuses NULL, it
  answers the error \<open>API error 404: transaction not found\<close> although the row is there. The matcher and
  the uuid library are assumed to do what they document on the id and the paths exchanged.
\<close>

theorem client_round_trip:
  assumes "sys_quiet w" "sv_store sv = sys_TxStore" "lb_uuid_New (he_libs env) = on_net new"
    and "new (sys_net w) = (Ok i, nw)" "sys_txs w i = None" "x \<noteq> []" "CHR 0x00 \<notin> set x"
    and key: "cfg_APIKeys (sv_cfg sv) = [] \<or> cl_apiKey c \<in> set (cfg_APIKeys (sv_cfg sv))"
    and ids: "lb_uuid_String (he_libs env) i = t" "lb_uuid_Parse (he_libs env) t = Inr i" "valid_utf8 t"
    and routing: "mt ''POST'' (cl_baseURL c @ ''/transactions'') = Some ((EnqueueEndpoint, True), p)"
      "mt ''GET'' (cl_baseURL c @ ''/transactions/'' @ t) = Some ((GetTxEndpoint, True), t)"
    and http: "cb_NewRequest cb = (\<lambda>_ _. None)" "cb_Do cb = loopback mt sv env"
  shows "\<exists>w1 w2. Client_Enqueue cb c x w = (Ok t, w1) \<and>
    sys_txs w1 = (sys_txs w)(i \<mapsto> \<lparr>av_env = to_valid_utf8 x, av_status = TxStatusPending, av_chan = None,
      av_retry = 0, av_err = None\<rparr>) \<and>
    Client_GetStatus cb c t w1 =
      (case pg_scan_null (sys_db w) of
         Inr s \<Rightarrow> Ok \<lparr>ts_ID = t, ts_Status = TxStatusPending, ts_Retry = 0, ts_LastError = to_valid_utf8 s\<rparr>
       | Inl e \<Rightarrow> Error (ErrText [Lit ''API error '', Num 404, Lit '': '',
                          Lit (''transaction not found'' @ newline)]), w2)"
proof -
  have x: "to_valid_utf8 x \<noteq> []" using assms(6) by simp
  have ok: "pg_text_ok (to_valid_utf8 x)"
    using assms(7) by (simp add: pg_text_ok_def to_valid_utf8_nul valid_utf8_def to_valid_utf8_idem)
  have q: "sys_quiet (w\<lparr>sys_net := nw\<rparr>)" "sys_txs (w\<lparr>sys_net := nw\<rparr>) i = None"
    using assms(1,5) by (simp_all add: sys_views)
  obtain d where d: "on_db (Store_SaveTransaction (pending_tx i (to_valid_utf8 x))) (w\<lparr>sys_net := nw\<rparr>) =
      (Ok (), w\<lparr>sys_net := nw, sys_db := d\<rparr>)" "db_quiet d" "pg_scan_null d = pg_scan_null (sys_db w)"
    "\<exists>n. find_tx i (pg_transactions d) = Some \<lparr>tr_id = i, tr_envelope_xdr = to_valid_utf8 x, tr_status = TxStatusPending,
      tr_channel_account = None, tr_retry_count = 0, tr_last_error = None, tr_created_at = n, tr_updated_at = n\<rparr>"
    "db_txs d = (db_txs (sys_db w))(i \<mapsto> \<lparr>av_env = to_valid_utf8 x, av_status = TxStatusPending, av_chan = None,
      av_retry = 0, av_err = None\<rparr>)"
    using save_run [OF q(1) ok q(2)] by auto
  let ?w1 = "w\<lparr>sys_net := nw, sys_db := d\<rparr>"
  have h: "\<forall>r. rq_body r = [(json_text (JObj [(''envelope_xdr'', JStr x)]), Some EOF)] \<longrightarrow> rq_param_id r = p \<longrightarrow>
      handler_of sv env EnqueueEndpoint r (w, new_response) =
        (Ok (), (?w1, reply 201 (json_text (JObj [(''id'', JStr t)]) @ newline)))"
    using post_run [OF assms(1-5) _ x d(1)] decode_request_body [of x "Some EOF"] ids(1) by (metis (no_types))
  have post: "loopback mt sv env \<lparr>hq_method = ''POST'', hq_url = cl_baseURL c @ ''/transactions'',
      hq_header = [(''Authorization'', authorization c), (''Content-Type'', ''application/json'')],
      hq_body = json_text (JObj [(''envelope_xdr'', JStr x)])\<rparr> w =
    (Ok (to_response (reply 201 (json_text (JObj [(''id'', JStr t)]) @ newline))), ?w1)"
    using key routing(1) h
    by (intro loopback_run) (simp_all add: header_def del: json_text.simps)
  have enq: "Client_Enqueue cb c x w = (Ok t, ?w1)"
    using call_api_ok [OF http(1), unfolded http(2), OF post, where expected = 201 and k = "decode_body cb decode_id"] ids(3)
    by (simp add: decode_id_reply Client_Enqueue_def json_Marshal_def to_response_def valid_utf8_def del: json_text.simps)
  obtain tr where tr: "find_tx i (pg_transactions (sys_db ?w1)) = Some tr" "tr_channel_account tr = None"
    "tr_last_error tr = None" "tr_status tr = TxStatusPending" "tr_retry_count tr = 0"
    using d(4) by auto
  have "db_quiet (sys_db ?w1)" using d(2) by simp
  moreover have "valid_utf8 TxStatusPending" by (rule valid_utf8_ascii) (simp add: TxStatusPending_def)
  moreover have "i64_range 0" by (simp add: i64_range_def)
  ultimately obtain w2 where "Client_GetStatus cb c t ?w1 =
      (case pg_scan_null (sys_db ?w1) of
         Inr s \<Rightarrow> Ok \<lparr>ts_ID = t, ts_Status = TxStatusPending, ts_Retry = 0, ts_LastError = to_valid_utf8 s\<rparr>
       | Inl e \<Rightarrow> Error (ErrText [Lit ''API error '', Num 404, Lit '': '',
                          Lit (''transaction not found'' @ newline)]), w2)"
    using client_status_run [OF _ assms(2) tr key ids(1,2) routing(2) ids(3) _ _ http] by blast
  then show ?thesis
    using enq d(3,5) by (intro exI [of _ ?w1] exI [of _ w2]) (simp add: sys_views)
qed

definition sample_match :: matcher where
  "sample_match meth url =
     (if meth = ''POST'' then Some ((EnqueueEndpoint, True), []) else Some ((GetTxEndpoint, True), ''id''))"

definition sample_client_libs ::
  "((unit, string) sys) http_env \<Rightarrow> ((unit, string) sys) client_libs" where
  "sample_client_libs env =
     \<lparr>cb_NewRequest = \<lambda>_ _. None, cb_Do = loopback sample_match sample_server env, cb_json_text = \<lambda>e. []\<rparr>"

theorem client_round_trip_witness:
  "\<exists>w1 w2. Client_Enqueue (sample_client_libs (sample_env (\<lambda>s. Inr 9))) (client_New ''u'' ''key'') ''AAAA''
      (sample_world (Ok None) (calm_db [] [] (Inr []))) = (Ok ''id'', w1) \<and>
    Client_GetStatus (sample_client_libs (sample_env (\<lambda>s. Inr 9))) (client_New ''u'' ''key'') ''id'' w1 =
      (Ok \<lparr>ts_ID = ''id'', ts_Status = TxStatusPending, ts_Retry = 0, ts_LastError = []\<rparr>, w2)"
proof -
  let ?w = "sample_world (Ok None) (calm_db [] [] (Inr []))"
  have q: "sys_quiet ?w" by (simp add: sys_quiet_def)
  have n: "sys_txs ?w 9 = None" by (simp add: sys_txs_def db_txs_def find_tx_def)
  have u: "ret (Ok 9) (sys_net ?w) = (Ok 9, sys_net ?w)" by simp
  have v: "valid_utf8 ''id''" by (rule valid_utf8_ascii) simp
  have e: "to_valid_utf8 [] = []" by simp
  from client_round_trip [OF q sample_server_sel(1) sample_env_sel(3) [of "\<lambda>s. Inr 9"] u n _ _ _ _ _ v,
      where c = "client_New ''u'' ''key''" and mt = sample_match and p = "[]" and
        x = "''AAAA''" and cb = "sample_client_libs (sample_env (\<lambda>s. Inr 9))"]
  show ?thesis
    by (auto simp: sample_match_def sample_client_libs_def client_New_def sample_cfg_def e simp del: to_valid_utf8_Nil)
qed

section \<open>The event stream, from the handler to the client's callback\<close>

definition frame_of :: "string \<times> json \<Rightarrow> string" where
  "frame_of ev = sse_frame (fst ev) (json_text (snd ev))"

lemma send_run:
  "\<exists>fs. length fs \<le> 1 \<and> set fs \<subseteq> {(e, v)} \<and>
     (case sendSSEEvent fails e v (w, rp) of (r, w', rp') \<Rightarrow>
        w' = w \<and> rp_body rp' = rp_body rp @ concat (map frame_of fs) \<and> (r = Ok () \<longleftrightarrow> fs \<noteq> []) \<and> r \<noteq> Panic)"
proof (cases "fails (length (rp_body rp))")
  case None
  have b: "rp_body (write_body s rp) = rp_body rp @ s" for s
    by (simp add: write_body_def WriteHeader_def Let_def split: option.split)
  show ?thesis
    using None by (intro exI [of _ "[(e, v)]"]) (simp add: sendSSEEvent_def json_Marshal_def frame_of_def b)
next
  case (Some err)
  then show ?thesis by (intro exI [of _ "[]"]) (simp add: sendSSEEvent_def json_Marshal_def)
qed

text \<open>The store's retry counts are Go integers.\<close>

definition counts_fit :: "'w TxStore \<Rightarrow> bool" where
  "counts_fit st \<longleftrightarrow> (\<forall>i w tx w'. ts_GetTransaction st i w = (Ok tx, w') \<longrightarrow> i64_range (tx_RetryCount tx))"

text \<open>The events the stream sends are objects of at most one level, with 64-bit integers.\<close>

definition flat_event :: "json \<Rightarrow> bool" where
  "flat_event v \<longleftrightarrow> json_ints_ok v \<and> json_depth v \<le> 1 \<and> (\<exists>kvs. v = JObj kvs)"

text \<open>What the stream sends after its first event: statuses, then perhaps one error, which is the last.\<close>

definition stream_shape :: "'w libs \<Rightarrow> uuid \<Rightarrow> (string \<times> json) list \<Rightarrow> bool" where
  "stream_shape lb i fs \<longleftrightarrow>
     (\<exists>txs e. fs = map (\<lambda>tx. (''status'', status_json lb i tx)) txs @ e \<and>
        (\<forall>tx \<in> set txs. i64_range (tx_RetryCount tx)) \<and> e \<in> {[], [(''error'', JObj [(''message'', JStr ''transaction not found'')])]})"

lemma stream_shape_simps:
  "stream_shape lb i []"
  "stream_shape lb i [(''error'', JObj [(''message'', JStr ''transaction not found'')])]"
  unfolding stream_shape_def by (rule exI [of _ "[]"], simp)+

lemma stream_shape_Cons:
  assumes "stream_shape lb i fs" "i64_range (tx_RetryCount tx)"
  shows "stream_shape lb i ((''status'', status_json lb i tx) # fs)"
proof -
  obtain txs e where "fs = map (\<lambda>tx. (''status'', status_json lb i tx)) txs @ e"
    "\<forall>tx \<in> set txs. i64_range (tx_RetryCount tx)"
    "e \<in> {[], [(''error'', JObj [(''message'', JStr ''transaction not found'')])]}"
    using assms(1) unfolding stream_shape_def by blast
  then show ?thesis unfolding stream_shape_def by (intro exI [of _ "tx # txs"] exI [of _ e]) (simp add: assms(2))
qed

lemma stream_loop_frames:
  assumes "counts_fit st"
  shows "\<exists>fs. stream_shape lb i fs \<and> length fs \<le> length evs \<and>
     rp_body (snd (snd (stream_loop lb fails st i evs (w, rp)))) = rp_body rp @ concat (map frame_of fs)"
proof (induction evs arbitrary: w rp)
  case Nil
  then show ?case by (intro exI [of _ "[]"]) (simp add: stream_shape_simps)
next
  case (Cons ev evs)
  show ?case
  proof (cases ev)
    case (CtxDone e)
    then show ?thesis by (intro exI [of _ "[]"]) (simp add: stream_shape_simps)
  next
    case Tick
    obtain g w1 where g: "ts_GetTransaction st i w = (g, w1)" by (cases "ts_GetTransaction st i w")
    show ?thesis
    proof (cases g)
      case (Ok tx)
      obtain r w' rp' where r: "sendSSEEvent fails ''status'' (status_json lb i tx) (w1, rp) = (r, w', rp')"
        by (metis prod_cases3)
      obtain fs0 where f: "set fs0 \<subseteq> {(''status'', status_json lb i tx)}" "length fs0 \<le> 1" "r \<noteq> Panic"
        "rp_body rp' = rp_body rp @ concat (map frame_of fs0)" "r = Ok () \<longleftrightarrow> fs0 \<noteq> []"
        using send_run [where e = "''status''" and v = "status_json lb i tx" and fails = fails and w = w1 and rp = rp] r by auto
      show ?thesis
      proof (cases r)
        case (Ok u)
        then have fs0: "fs0 = [(''status'', status_json lb i tx)]" using f by (cases fs0) auto
        obtain fs where fs: "stream_shape lb i fs" "length fs \<le> length evs"
          "rp_body (snd (snd (stream_loop lb fails st i evs (w', rp')))) = rp_body rp' @ concat (map frame_of fs)"
          using Cons.IH by blast
        have "i64_range (tx_RetryCount tx)" using assms g \<open>g = Ok tx\<close> unfolding counts_fit_def by blast
        then show ?thesis
          using Tick g \<open>g = Ok tx\<close> r Ok f(4) fs fs0
          by (intro exI [of _ "(''status'', status_json lb i tx) # fs"])
             (simp add: try_call_def on_store_def stream_shape_Cons)
      next
        case (Error e)
        then show ?thesis
          using Tick g \<open>g = Ok tx\<close> r f
          by (intro exI [of _ "[]"]) (simp add: try_call_def on_store_def stream_shape_simps)
      qed (use f in simp)
    next
      case (Error e)
      obtain r w' rp' where r: "sendSSEEvent fails ''error'' (JObj [(''message'', JStr ''transaction not found'')]) (w1, rp)
          = (r, w', rp')" by (metis prod_cases3)
      obtain fs0 where f: "set fs0 \<subseteq> {(''error'', JObj [(''message'', JStr ''transaction not found'')])}"
        "length fs0 \<le> 1" "r \<noteq> Panic" "rp_body rp' = rp_body rp @ concat (map frame_of fs0)"
        using send_run [where e = "''error''" and v = "JObj [(''message'', JStr ''transaction not found'')]" and
              fails = fails and w = w1 and rp = rp] r by auto
      have "stream_shape lb i fs0" using f(1,2) by (cases fs0) (auto simp: stream_shape_simps)
      then show ?thesis
        using Tick g Error r f
        by (intro exI [of _ fs0]) (cases r; simp add: try_call_def log_err_def on_store_def)
    next
      case Panic
      then show ?thesis
        using Tick g by (intro exI [of _ "[]"]) (simp add: try_call_def on_store_def stream_shape_simps)
    qed
  qed
qed


lemma frame_lines:
  assumes "no_control e"
  shows "split_lines (frame_of (e, v) @ s) = (''event: '' @ e) # (''data: '' @ json_text v) # [] # split_lines s"
proof -
  have e: "CHR 0x0A \<notin> set (''event: '' @ e)" using no_control_newline [OF assms] by simp
  have d: "CHR 0x0A \<notin> set (''data: '' @ json_text v)" using no_control_newline [OF no_control_json_text] by simp
  have f: "frame_of (e, v) @ s =
      (''event: '' @ e) @ newline @ (''data: '' @ json_text v) @ newline @ newline @ s"
    by (simp add: frame_of_def sse_frame_def)
  show ?thesis
    unfolding f split_lines_cons [OF e] split_lines_cons [OF d] split_lines_newline ..
qed

lemma scan_frame:
  "scan_event_lines ((''event: '' @ e) # (''data: '' @ p) # rest) ev da = scan_event_lines rest ('' '' @ e) ('' '' @ p)"
  by (simp add: has_prefix_def trim_prefix_def Let_def)

lemma scan_frames:
  assumes "\<forall>x \<in> set fs. no_control (fst x)" "no_control (fst f)"
  shows "scan_event_lines (split_lines (concat (map frame_of fs) @ ''event: '' @ fst f @ newline @
      ''data: '' @ json_text (snd f))) ev da = ('' '' @ fst f, '' '' @ json_text (snd f))"
  using assms(1)
proof (induction fs arbitrary: ev da)
  case Nil
  have e: "CHR 0x0A \<notin> set (''event: '' @ fst f)" using no_control_newline [OF assms(2)] by simp
  have d: "CHR 0x0A \<notin> set (''data: '' @ json_text (snd f))" using no_control_newline [OF no_control_json_text] by simp
  show ?case
    using split_lines_cons [OF e, of "''data: '' @ json_text (snd f)"] split_lines_line [OF d]
      scan_frame [of "fst f" "json_text (snd f)" "[]"] by simp
next
  case (Cons x fs)
  then have x: "no_control (fst x)" by simp
  have "scan_event_lines ([] # rest) ev da = scan_event_lines rest ev da" for rest ev da
    by (simp add: has_prefix_def)
  then show ?case
    using Cons frame_lines [OF x, of "snd x"] by (simp only: list.map concat.simps append_assoc scan_frame prod.collapse) simp
qed

text \<open>A chunk that ends where a frame ends: only its last event reaches the callback.\<close>

lemma chunk_frames:
  assumes "\<forall>x \<in> set (fs @ [(e, JObj kvs)]). no_control (fst x)" "unmarshal_event ('' '' @ json_text (JObj kvs)) = Inr j"
  shows "chunk_events (concat (map frame_of (fs @ [(e, JObj kvs)]))) = [('' '' @ e, j)]"
proof -
  let ?b = "concat (map frame_of fs) @ ''event: '' @ e @ newline @ ''data: '' @ json_text (JObj kvs)"
  have hd: "printable (hd (concat (map frame_of fs) @ CHR ''e'' # s))" for s
    by (cases fs) (simp_all add: frame_of_def sse_frame_def printable_def)
  have "trim_space (?b @ replicate 2 (CHR 0x0A)) = ?b"
    using hd by (intro trim_space_body) (auto simp: printable_def)
  moreover have "concat (map frame_of (fs @ [(e, JObj kvs)])) = ?b @ replicate 2 (CHR 0x0A)"
    by (simp add: frame_of_def sse_frame_def newline_def numeral_2_eq_2 del: json_text.simps)
  ultimately have t: "trim_space (concat (map frame_of (fs @ [(e, JObj kvs)]))) = ?b" by (simp only:)
  have "scan_event_lines (split_lines ?b) [] [] = ('' '' @ e, '' '' @ json_text (JObj kvs))"
    using scan_frames [of fs "(e, JObj kvs)" "[]" "[]"] assms(1) by (simp del: json_text.simps)
  then show ?thesis
    unfolding chunk_events_def t using assms(2) by (simp del: json_text.simps)
qed


definition first_event :: "'w libs \<Rightarrow> uuid \<Rightarrow> string \<times> json" where
  "first_event lb i = (''status'', JObj [(''id'', JStr (lb_uuid_String lb i)), (''status'', JStr ''pending'')])"

lemma shape_events:
  assumes "stream_shape lb i fs" "x \<in> set (first_event lb i # fs)"
  shows "no_control (fst x) \<and> flat_event (snd x)"
  using assms by (auto simp: stream_shape_def first_event_def status_json_def flat_event_def)

lemma shape_ends:
  assumes "stream_shape lb i fs"
  shows "(\<forall>x \<in> set (butlast (first_event lb i # fs)). fst x = ''status'') \<and>
    fst (last (first_event lb i # fs)) \<in> {''status'', ''error''}"
proof -
  obtain txs e where f: "fs = map (\<lambda>tx. (''status'', status_json lb i tx)) txs @ e"
    "e = [] \<or> e = [(''error'', JObj [(''message'', JStr ''transaction not found'')])]"
    using assms unfolding stream_shape_def by blast
  let ?s = "first_event lb i # map (\<lambda>tx. (''status'', status_json lb i tx)) txs"
  define ss where "ss = ?s"
  have st: "ss \<noteq> []" "\<forall>x \<in> set ss. fst x = ''status''" by (auto simp: first_event_def ss_def)
  have lst: "fst (last ss) = ''status''" using st last_in_set by blast
  have bl: "\<forall>x \<in> set (butlast ss). fst x = ''status''" using st(2) in_set_butlastD by metis
  have "first_event lb i # fs = ss \<or>
      first_event lb i # fs = ss @ [(''error'', JObj [(''message'', JStr ''transaction not found'')])]"
    using f by (auto simp: ss_def)
  then show ?thesis
    using st lst bl by (elim disjE) (simp_all only: butlast_snoc last_snoc fst_conv insert_iff simp_thms)
qed

lemma stream_frames:
  assumes "lb_uuid_Parse lb (rq_param_id r) = Inr i" "counts_fit st"
    and "streamHandler lb fails True st evs r (w, new_response) = (res, (w', rp))"
  shows "\<exists>fs. (fs = [] \<or> (\<exists>fs'. fs = first_event lb i # fs' \<and> stream_shape lb i fs' \<and> length fs' \<le> length evs)) \<and>
    rp_body rp = concat (map frame_of fs)"
proof -
  define rp0 where "rp0 = set_header ''Connection'' ''keep-alive'' (set_header ''Cache-Control'' ''no-cache''
      (set_header ''Content-Type'' ''text/event-stream'' new_response))"
  have rp0: "rp_body rp0 = []" "streamHandler lb fails True st evs r (w, new_response) =
      try_call (sendSSEEvent fails (fst (first_event lb i)) (snd (first_event lb i)))
        (\<lambda>_. stream_loop lb fails st i evs) (\<lambda>e. ret (Ok True)) (w, rp0)"
    using assms(1)
    by (simp_all add: streamHandler_def log_err_def try_call_def on_response_def set_header_def new_response_def
        first_event_def rp0_def)
  obtain y w1 rp1 where y: "sendSSEEvent fails (fst (first_event lb i)) (snd (first_event lb i)) (w, rp0) = (y, w1, rp1)"
    by (metis prod_cases3)
  obtain fs0 where f: "length fs0 \<le> 1" "set fs0 \<subseteq> {first_event lb i}" "y \<noteq> Panic" "y = Ok () \<longleftrightarrow> fs0 \<noteq> []"
    "rp_body rp1 = concat (map frame_of fs0)"
    using send_run [where e = "fst (first_event lb i)" and v = "snd (first_event lb i)" and fails = fails and
        w = w and rp = rp0] y rp0(1) by auto
  show ?thesis
  proof (cases y)
    case (Ok u)
    then have "fs0 = [first_event lb i]" using f by (cases fs0) auto
    moreover obtain fs where "stream_shape lb i fs" "length fs \<le> length evs"
      "rp_body (snd (snd (stream_loop lb fails st i evs (w1, rp1)))) = rp_body rp1 @ concat (map frame_of fs)"
      using stream_loop_frames [OF assms(2), where lb = lb and i = i and evs = evs and fails = fails and
          w = w1 and rp = rp1] by auto
    ultimately show ?thesis
      using assms(3) rp0(2) y Ok f(5) by (intro exI [of _ "first_event lb i # fs"]) (simp add: try_call_def)
  next
    case (Error e)
    then show ?thesis
      using assms(3) rp0(2) y f by (intro exI [of _ "[]"]) (simp add: try_call_def)
  qed (use f in simp)
qed

lemma unmarshal_flat:
  assumes "flat_event v"
  shows "unmarshal_event ('' '' @ json_text v) = Inr (as_map v)"
proof -
  obtain kvs where v: "v = JObj kvs" "json_ints_ok v" "json_depth v \<le> 1" using assms by (auto simp: flat_event_def)
  have "foldl scan_step (BeginValue, []) ('' '' @ json_text v) = foldl scan_step (BeginValue, []) (json_text v)"
    by (simp add: begin_value_def is_space_def del: json_text.simps)
  then have "json_Unmarshal ('' '' @ json_text v) = json_Unmarshal (json_text v)" by (simp only: json_Unmarshal_def)
  also have "\<dots> = Inr (value_of v)" by (rule json_Unmarshal_text) (use v(3) in \<open>simp add: maxNestingDepth_def\<close>)
  finally show ?thesis
    using decode_map_value [of kvs] v(1,2) by (simp only: unmarshal_event_def sum.case)
qed

lemma reads_one_by_one:
  assumes "\<forall>x \<in> set fs. no_control (fst x) \<and> flat_event (snd x)"
  shows "stream_reads (map (\<lambda>x. (frame_of x, None)) fs) = (None, map (\<lambda>x. ('' '' @ fst x, as_map (snd x))) fs)"
  using assms
proof (induction fs)
  case (Cons x fs)
  then obtain e kvs where x: "x = (e, JObj kvs)" "no_control e" "flat_event (JObj kvs)"
    by (cases x) (auto simp: flat_event_def)
  have "chunk_events (frame_of (e, JObj kvs)) = [('' '' @ e, as_map (JObj kvs))]"
    using chunk_frames [where fs = "[]" and e = e and kvs = kvs, OF _ unmarshal_flat [OF x(3)]] x(2) by simp
  then show ?case using Cons x(1) by simp
qed simp

text \<open>
  C13. The event stream, from the handler to the client's callback. What the handler writes is a
  sequence of whole frames: first the event that says pending, whatever the transaction's status,
  then at most one per tick, statuses and at the end possibly one error. A client that gets one frame
  per \<open>Read\<close> reports all of them in order, each with the map its data is unmarshalled into, but with
  the event's name \<open> status\<close> or \<open> error\<close>, with a space in front; one that gets them in a single \<open>Read\<close>
  reports only the last.
\<close>

theorem stream_to_callback:
  assumes "lb_uuid_Parse lb (rq_param_id r) = Inr i" "counts_fit st"
    and "streamHandler lb fails True st evs r (w, new_response) = (res, (w', rp))"
  shows "\<exists>fs. rp_body rp = concat (map frame_of fs) \<and> length fs \<le> Suc (length evs) \<and>
    (fs = [] \<or> (hd fs = (''status'', JObj [(''id'', JStr (lb_uuid_String lb i)), (''status'', JStr ''pending'')]) \<and>
       (\<forall>x \<in> set (butlast fs). fst x = ''status'') \<and> fst (last fs) \<in> {''status'', ''error''} \<and>
       stream_reads [(rp_body rp, None)] = (None, [('' '' @ fst (last fs), as_map (snd (last fs)))]))) \<and>
    stream_reads (map (\<lambda>x. (frame_of x, None)) fs) = (None, map (\<lambda>x. ('' '' @ fst x, as_map (snd x))) fs)"
proof -
  obtain fs where fs: "fs = [] \<or> (\<exists>fs'. fs = first_event lb i # fs' \<and> stream_shape lb i fs' \<and> length fs' \<le> length evs)"
    "rp_body rp = concat (map frame_of fs)"
    using stream_frames [OF assms(1,2,3)] by blast
  have ev: "\<forall>x \<in> set fs. no_control (fst x) \<and> flat_event (snd x)"
    using fs(1) shape_events by fastforce
  note each = reads_one_by_one [OF ev]
  show ?thesis
  proof (cases "fs = []")
    case False
    then obtain fs' where fs': "fs = first_event lb i # fs'" "stream_shape lb i fs'" "length fs' \<le> length evs"
      using fs(1) by blast
    obtain init x where x: "fs = init @ [x]" using False by (cases fs rule: rev_cases) auto
    moreover obtain e kvs where "x = (e, JObj kvs)" using ev x by (cases x) (auto simp: flat_event_def)
    ultimately have l: "fs = init @ [(e, JObj kvs)]" by simp
    have "chunk_events (rp_body rp) = [('' '' @ e, as_map (JObj kvs))]"
      unfolding fs(2) l using ev l by (intro chunk_frames unmarshal_flat) auto
    then have one: "stream_reads [(rp_body rp, None)] = (None, [('' '' @ fst (last fs), as_map (snd (last fs)))])"
      by (simp add: l)
    have "hd fs = (''status'', JObj [(''id'', JStr (lb_uuid_String lb i)), (''status'', JStr ''pending'')])"
      "length fs \<le> Suc (length evs)"
      using fs'(1,3) by (simp_all add: first_event_def)
    then show ?thesis
      using each fs(2) one shape_ends [OF fs'(2), folded fs'(1)] by blast
  qed (use fs each in \<open>auto intro: exI [of _ "[]"]\<close>)
qed


definition confirmed_store :: "nat TxStore" where
  "confirmed_store =
     \<lparr>ts_SaveTransaction = \<lambda>_. ret (Ok ()), ts_UpdateTransactionStatus = \<lambda>_ _ _ _. ret (Ok ()),
      ts_IncrementRetry = \<lambda>_. ret (Ok ()), ts_GetPendingTransactions = \<lambda>_. ret (Ok []),
      ts_GetTransaction = \<lambda>i. ret (Ok ((pending_tx i ''AAAA'')\<lparr>tx_Status := TxStatusConfirmed\<rparr>)),
      ts_GetTransactionForRetry = \<lambda>_. ret (Error ErrNoRows), ts_UpdateSequenceNumber = \<lambda>_ _. ret (Ok ())\<rparr>"

definition confirmed_libs :: "nat libs" where
  "confirmed_libs = \<lparr>lb_uuid_Parse = \<lambda>s. Inr 9, lb_uuid_String = \<lambda>i. ''id'', lb_uuid_New = ret (Ok 9)\<rparr>"

theorem stream_to_callback_witness:
  "\<exists>fs. rp_body (snd (snd (streamHandler confirmed_libs (\<lambda>n. None) True confirmed_store [Tick, Tick]
      (sample_request [] []) (0, new_response)))) = concat (map frame_of fs) \<and>
    stream_reads (map (\<lambda>x. (frame_of x, None)) fs) = (None, map (\<lambda>x. ('' '' @ fst x, as_map (snd x))) fs)"
proof -
  have fit: "counts_fit confirmed_store"
    by (auto simp: counts_fit_def confirmed_store_def pending_tx_def ret_def i64_range_def)
  obtain res w' rp where h: "streamHandler confirmed_libs (\<lambda>n. None) True confirmed_store [Tick, Tick]
      (sample_request [] []) (0, new_response) = (res, (w', rp))"
    by (metis prod_cases3)
  have "lb_uuid_Parse confirmed_libs (rq_param_id (sample_request [] [])) = Inr 9" by (simp add: confirmed_libs_def)
  from stream_to_callback [OF this fit h] show ?thesis
    unfolding h snd_conv by (blast intro: refl)
qed

end
