(* ===== verification/Startup.thy ===== *)
theory Startup
  imports Interleaving Migration Service
begin

text \<open>
  cmd/forgetss/main.go with what it starts: \<open>NewPostgres\<close> and \<open>Close\<close> of internal/store/postgres.go,
  \<open>NewServer\<close> and \<open>Start\<close> of internal/api/server.go, the queue processor in its goroutine and the
  HTTP server, interleaved event by event until the process ends. A batch, a request and a round of an
  open stream are one event each; theories \<open>Replicas\<close> and \<open>Interleaving\<close> interleave statements. The calls that do not compile are
  read as they are meant: \<open>NewPostgres\<close> with a background context, the store it returns as the store.
\<close>

section \<open>The connection pool\<close>

record 'c pool_config =
  pc_parsed :: 'c
  pc_MaxConns :: int
  pc_MinConns :: int

text \<open>The server the pools connect to: the open pools by handle, the next handle, the migrated database.\<close>

record ('c, 'sch) pgserver =
  pgs_pools :: "nat \<rightharpoonup> 'c pool_config"
  pgs_next :: nat
  pgs_mig :: "'sch mgdb"

text \<open>pgx: parsing a URL, the error of opening a pool with a configuration, the error of a ping.\<close>

record 'c pgx =
  px_ParseConfig :: "string \<Rightarrow> goerr + 'c pool_config"
  px_NewError :: "'c pool_config \<Rightarrow> goerr option"
  px_PingError :: "nat \<Rightarrow> goerr option"

definition NewWithConfig :: "'c pgx \<Rightarrow> 'c pool_config \<Rightarrow> (('c, 'sch) pgserver, nat) op" where
  "NewWithConfig px cfg s =
     (case px_NewError px cfg of
        Some e \<Rightarrow> (Error e, s)
      | None \<Rightarrow> (Ok (pgs_next s), s\<lparr>pgs_pools := (pgs_pools s)(pgs_next s \<mapsto> cfg), pgs_next := Suc (pgs_next s)\<rparr>))"

definition Ping :: "'c pgx \<Rightarrow> nat \<Rightarrow> (('c, 'sch) pgserver, unit) op" where
  "Ping px p s = (case px_PingError px p of Some e \<Rightarrow> (Error e, s) | None \<Rightarrow> (Ok (), s))"

definition Close :: "nat \<Rightarrow> ('c, 'sch) pgserver \<Rightarrow> ('c, 'sch) pgserver" where
  "Close p s = s\<lparr>pgs_pools := (pgs_pools s)(p := None)\<rparr>"

definition on_mig :: "('sch mgdb, 'a) op \<Rightarrow> (('c, 'sch) pgserver, 'a) op" where
  "on_mig m s = (case m (pgs_mig s) of (r, d) \<Rightarrow> (r, s\<lparr>pgs_mig := d\<rparr>))"

text \<open>The result is the handle of the pool that the store holds.\<close>

definition NewPostgres :: "'c pgx \<Rightarrow> 'sch mig_env \<Rightarrow> string \<Rightarrow> (('c, 'sch) pgserver, nat) op" where
  "NewPostgres px env databaseURL =
     (case px_ParseConfig px databaseURL of
        Inl e \<Rightarrow> ret (Error e)
      | Inr cfg \<Rightarrow>
          try_call (NewWithConfig px (cfg\<lparr>pc_MaxConns := 10, pc_MinConns := 2\<rparr>))
            (\<lambda>pool. try_call (Ping px pool)
               (\<lambda>_. try_call (on_mig (migrate env))
                  (\<lambda>_. ret (Ok pool))
                  (\<lambda>e s. (Error e, Close pool s)))
               (\<lambda>e. ret (Error e)))
            (\<lambda>e. ret (Error e)))"

section \<open>The HTTP server\<close>

datatype middleware = RequestID | RealIP | Logger | Recoverer | Timeout i64

record 'w HttpServer =
  hv_addr :: string
  hv_middlewares :: "middleware list"
  hv_routes :: "(string \<times> string \<times> endpoint \<times> bool) list"
  hv_server :: "'w Server"

definition NewServer :: "Config \<Rightarrow> 'w TxStore \<Rightarrow> 'w HttpServer" where
  "NewServer cfg st =
     \<lparr>hv_addr = cfg_ListenAddr cfg,
      hv_middlewares = [RequestID, RealIP, Logger, Recoverer, Timeout (60 * Second)],
      hv_routes = routes, hv_server = \<lparr>sv_cfg = cfg, sv_store = st\<rparr>\<rparr>"

text \<open>
  What the select of \<open>Start\<close> receives. \<open>ListenAndServe\<close> returns an error always; the first parameter of
  \<open>Start\<close> is what \<open>Shutdown\<close> returns.
\<close>

datatype start_event = CtxCancelled | ListenReturned goerr

definition Start :: "goerr option \<Rightarrow> start_event \<Rightarrow> goerr option" where
  "Start shutdown ev = (case ev of CtxCancelled \<Rightarrow> shutdown | ListenReturned e \<Rightarrow> Some e)"

text \<open>A connection: how writes to it fail, and whether it can flush.\<close>

record conn =
  cn_fails :: "nat \<Rightarrow> goerr option"
  cn_flush :: bool

text \<open>The uuid parser and Prometheus' handler.\<close>

record web_libs =
  wl_uuid_Parse :: "string \<Rightarrow> goerr + uuid"
  wl_scrape :: "request \<Rightarrow> response \<Rightarrow> response"

definition main_libs :: "('n, 'sb, 'fb) deploy \<Rightarrow> web_libs \<Rightarrow> (('n, 'sb) sys) libs" where
  "main_libs D wl =
     \<lparr>lb_uuid_Parse = wl_uuid_Parse wl, lb_uuid_String = dp_us D, lb_uuid_New = on_net (dp_uuid_New D)\<rparr>"

definition main_http_env ::
  "('n, 'sb, 'fb) deploy \<Rightarrow> web_libs \<Rightarrow> metrics \<Rightarrow> conn \<Rightarrow> (('n, 'sb) sys) http_env" where
  "main_http_env D wl m cn =
     \<lparr>he_libs = main_libs D wl, he_fails = cn_fails cn, he_flush = cn_flush cn, he_metrics = m,
      he_scrape = \<lambda>r. on_response (wl_scrape wl r), he_events = []\<rparr>"

text \<open>
  A request on a route; \<open>Recoverer\<close> turns a panic of the handler into a reply, so the server goes on. Of
  a stream this is the part before its select loop first waits; its rounds are \<open>stream_event\<close> below, so
  what is said of requests as a whole is said of \<open>serve\<close>, which runs both.
\<close>

definition serve_http ::
  "('n, 'sb, 'fb) deploy \<Rightarrow> web_libs \<Rightarrow> metrics \<Rightarrow> endpoint \<times> bool \<Rightarrow> request \<Rightarrow> conn \<Rightarrow> ('n, 'sb) sys \<Rightarrow> ('n, 'sb) sys" where
  "serve_http D wl m rt r cn w =
     fst (snd (dispatch (hv_server (NewServer (dp_cfg D) sys_TxStore)) (main_http_env D wl m cn) rt r (w, new_response)))"

text \<open>
  A stream lives across other events: the transaction it watches, its connection, what it has written,
  and whether its handler still waits.
\<close>

record stream =
  sm_id :: uuid
  sm_conn :: conn
  sm_response :: response
  sm_open :: bool

definition lets_in :: "Config \<Rightarrow> request \<Rightarrow> bool" where
  "lets_in cfg r \<longleftrightarrow> length (cfg_APIKeys cfg) = 0 \<or>
     rq_auth r \<noteq> [] \<and> has_prefix (rq_auth r) bearer \<and> key_valid (trim_prefix (rq_auth r) bearer) (cfg_APIKeys cfg)"

definition open_stream ::
  "('n, 'sb, 'fb) deploy \<Rightarrow> web_libs \<Rightarrow> request \<Rightarrow> conn \<Rightarrow> ('n, 'sb) sys \<Rightarrow> stream list" where
  "open_stream D wl r cn w =
     (if lets_in (dp_cfg D) r
      then case streamHandler (main_libs D wl) (cn_fails cn) (cn_flush cn) sys_TxStore [] r (w, new_response) of
          (Ok False, (w', rp)) \<Rightarrow>
            (case wl_uuid_Parse wl (rq_param_id r) of
               Inl e \<Rightarrow> []
             | Inr i \<Rightarrow> [\<lparr>sm_id = i, sm_conn = cn, sm_response = rp, sm_open = True\<rparr>])
        | _ \<Rightarrow> []
      else [])"

text \<open>One round of its select loop: the ticker's tick, or the end of the request's context.\<close>

definition stream_event ::
  "('n, 'sb, 'fb) deploy \<Rightarrow> web_libs \<Rightarrow> loop_event \<Rightarrow> stream \<Rightarrow> ('n, 'sb) sys \<Rightarrow> stream \<times> ('n, 'sb) sys" where
  "stream_event D wl ev sm w =
     (if \<not> sm_open sm then (sm, w)
      else case stream_loop (main_libs D wl) (cn_fails (sm_conn sm)) sys_TxStore (sm_id sm) [ev] (w, sm_response sm) of
          (res, (w', rp)) \<Rightarrow> (sm\<lparr>sm_response := rp, sm_open := (res = Ok False)\<rparr>, w'))"

text \<open>Cutting the loop after any number of rounds changes nothing.\<close>

lemma stream_loop_append:
  "stream_loop lb fails st i (evs @ evs') s =
     (case stream_loop lb fails st i evs s of
        (Ok False, s') \<Rightarrow> stream_loop lb fails st i evs' s'
      | (res, s') \<Rightarrow> (res, s'))"
proof (induction evs arbitrary: s)
  case (Cons ev evs)
  then show ?case
    by (cases ev) (auto simp: try_call_def log_err_def split: prod.split res.split)
qed (auto split: prod.split res.split)

section \<open>main\<close>

datatype main_event =
    QueueTick
  | HttpEv "endpoint \<times> bool" request conn
  | StreamEv nat loop_event
  | ServerStops goerr

datatype process_end = ExitCode int | Crash | MainReturns

record ('n, 'sb, 'c, 'sch) process =
  ps_pg :: "('c, 'sch) pgserver"
  ps_metrics :: metrics
  ps_app :: "('n, 'sb) sys"
  ps_streams :: "stream list"

text \<open>\<open>os.Exit\<close> does not run deferred calls; returning closes the pool.\<close>

definition main_ends :: "goerr option \<Rightarrow> nat \<Rightarrow> ('n, 'sb, 'c, 'sch) process \<Rightarrow>
  process_end \<times> ('n, 'sb, 'c, 'sch) process" where
  "main_ends err p s =
     (case err of
        Some e \<Rightarrow> (ExitCode 1, s)
      | None \<Rightarrow> (MainReturns, s\<lparr>ps_pg := Close p (ps_pg s)\<rparr>))"

text \<open>
  The goroutines at work; None while they are. The first tick stands for the start of the queue
  processor too. The context of \<open>main\<close> is cancelled by \<open>main\<close>'s own return only, so \<open>Start\<close> never sees
  it cancelled. A panic outside the HTTP handlers ends the process.
\<close>

primrec serve ::
  "('n, 'sb, 'fb) deploy \<Rightarrow> web_libs \<Rightarrow> nat \<Rightarrow> main_event list \<Rightarrow> ('n, 'sb, 'c, 'sch) process \<Rightarrow>
   process_end option \<times> ('n, 'sb, 'c, 'sch) process" where
  "serve D wl p [] s = (None, s)"
| "serve D wl p (ev # evs) s =
     (case ev of
        QueueTick \<Rightarrow>
          (case ProcessQueue (dp_us D) (dp_now D) (dp_engine D) [Tick] (ps_app s) of
             (Some Panic, w) \<Rightarrow> (Some Crash, s\<lparr>ps_app := w\<rparr>)
           | (_, w) \<Rightarrow> serve D wl p evs (s\<lparr>ps_app := w\<rparr>))
      | HttpEv rt r cn \<Rightarrow> serve D wl p evs
          (s\<lparr>ps_app := serve_http D wl (ps_metrics s) rt r cn (ps_app s),
             ps_streams := ps_streams s @
               (if fst rt = StreamEndpoint then open_stream D wl r cn (ps_app s) else [])\<rparr>)
      | StreamEv k e \<Rightarrow>
          (if k < length (ps_streams s)
           then case stream_event D wl e (ps_streams s ! k) (ps_app s) of
               (sm, w) \<Rightarrow> serve D wl p evs (s\<lparr>ps_app := w, ps_streams := (ps_streams s)[k := sm]\<rparr>)
           else serve D wl p evs s)
      | ServerStops e \<Rightarrow> (case main_ends (Start None (ListenReturned e)) p s of (x, s') \<Rightarrow> (Some x, s')))"

definition main ::
  "strings_reader \<Rightarrow> getenv \<Rightarrow> 'c pgx \<Rightarrow> 'sch mig_env \<Rightarrow> ('n, 'sb, 'fb) deploy \<Rightarrow> web_libs \<Rightarrow> main_event list \<Rightarrow>
   ('n, 'sb, 'c, 'sch) process \<Rightarrow> process_end option \<times> ('n, 'sb, 'c, 'sch) process" where
  "main gs env px menv D wl evs s =
     (case Load gs env of
        Inl err \<Rightarrow> (Some (ExitCode 1), s)
      | Inr cfg \<Rightarrow>
          (case NewPostgres px menv (cfg_DatabaseURL cfg) (ps_pg s) of
             (Ok db, pg) \<Rightarrow>
               serve (D\<lparr>dp_cfg := cfg\<rparr>) wl db evs
                 \<lparr>ps_pg = pg, ps_metrics = Register (ps_metrics s),
                  ps_app = (ps_app s)\<lparr>sys_router := main_router (dp_net D) cfg\<rparr>, ps_streams = []\<rparr>
           | (_, pg) \<Rightarrow> (Some (ExitCode 1), s\<lparr>ps_pg := pg\<rparr>)))"

section \<open>What requests leave alone\<close>

text \<open>Relations between a handler's worlds, whatever it writes.\<close>

definition resp_rel :: "('w \<Rightarrow> 'w \<Rightarrow> bool) \<Rightarrow> 'w \<times> response \<Rightarrow> 'w \<times> response \<Rightarrow> bool" where
  "resp_rel R s s' \<longleftrightarrow> R (fst s) (fst s')"

lemma resp_rel_preorder: "preorder_on_worlds R \<Longrightarrow> preorder_on_worlds (resp_rel R)"
  unfolding resp_rel_def preorder_on_worlds_def by (auto intro!: reflpI transpI dest: reflpD transpD)

lemma keeps_on_store: "keeps R m \<Longrightarrow> keeps (resp_rel R) (on_store m)"
  by (auto intro!: keepsI simp: resp_rel_def on_store_def keeps_result split: prod.split)

text \<open>The contract of the API: the store keeps R on a read and on saving a new pending transaction.\<close>

locale served_store =
  fixes st :: "'w TxStore" and R :: "'w \<Rightarrow> 'w \<Rightarrow> bool" and new_id :: "('w, uuid) op"
  assumes served_pre: "preorder_on_worlds R"
    and served_get: "keeps R (ts_GetTransaction st i)"
    and served_save: "keeps R (ts_SaveTransaction st (pending_tx i x))"
    and served_id: "keeps R new_id"
begin

lemma served_respond: "keeps (resp_rel R) (on_response f)" "keeps (resp_rel R) (http_Error msg code)"
  using served_pre by (auto simp: keeps_def resp_rel_def on_response_def http_Error_def preorder_on_worlds_def reflpD)

lemma served_send: "keeps (resp_rel R) (sendSSEEvent fails ev v)"
  using served_pre
  by (auto simp: keeps_def resp_rel_def sendSSEEvent_def preorder_on_worlds_def reflpD split: sum.split option.split)

lemmas served_intros = keeps_try_call keeps_log_err resp_rel_preorder [OF served_pre] served_respond served_send
  keeps_on_store served_get served_save keeps_ret

lemma served_stream_loop: "keeps (resp_rel R) (stream_loop lb fails st i evs)"
  by (induction evs) (auto intro!: served_intros simp del: ret_apply split: loop_event.split)

lemma served_handler:
  assumes "sv_store sv = st" "lb_uuid_New (he_libs env) = new_id" "\<And>r. keeps (resp_rel R) (he_scrape env r)"
  shows "keeps (resp_rel R) (handler_of sv env ep r)"
proof (cases ep)
  case HealthEndpoint
  then show ?thesis by (simp add: handler_of_def healthHandler_def served_respond)
next
  case MetricsEndpoint
  then show ?thesis by (simp add: handler_of_def metricsHandler_def served_respond assms(3))
next
  case EnqueueEndpoint
  then show ?thesis
    unfolding EnqueueEndpoint handler_of_def enqueueHandler_def assms(1,2)
    by (auto intro!: served_intros served_id simp del: ret_apply split: sum.split)
next
  case GetTxEndpoint
  then show ?thesis
    unfolding GetTxEndpoint handler_of_def getTxHandler_def assms(1)
    by (auto intro!: served_intros simp del: ret_apply split: sum.split)
next
  case StreamEndpoint
  then show ?thesis
    unfolding StreamEndpoint handler_of_def streamHandler_def assms(1)
    by (auto intro!: served_intros served_stream_loop simp del: ret_apply split: sum.split)
qed

lemma served_dispatch:
  assumes "sv_store sv = st" "lb_uuid_New (he_libs env) = new_id" "\<And>r. keeps (resp_rel R) (he_scrape env r)"
  shows "keeps (resp_rel R) (dispatch sv env rt r)"
  using served_handler [OF assms]
  by (auto simp: dispatch_def authMiddleware_def Let_def served_respond)

end

section \<open>Runs of the process\<close>

lemma tick_run:
  "snd (ProcessQueue us now e [Tick] w) = w \<or> snd (ProcessQueue us now e [Tick] w) = snd (processBatch us now e w)"
  by (auto simp: ProcessQueue_def split: prod.split res.split)

lemma preorder_trans: "preorder_on_worlds R \<Longrightarrow> R u v \<Longrightarrow> R v w \<Longrightarrow> R u w"
  unfolding preorder_on_worlds_def by (blast dest: transpD)

lemma serve_keeps:
  fixes D :: "('n, 'sb, 'fb) deploy" and s :: "('n, 'sb, 'c, 'sch) process"
  assumes "preorder_on_worlds R"
    and "\<And>w. QueueTick \<in> set evs \<Longrightarrow> R w (snd (ProcessQueue (dp_us D) (dp_now D) (dp_engine D) [Tick] w))"
    and "\<And>m rt r cn w. R w (serve_http D wl m rt r cn w)"
    and "\<And>ev sm w. R w (snd (stream_event D wl ev sm w))"
  shows "R (ps_app s) (ps_app (snd (serve D wl p evs s)))"
  using assms(2)
proof (induction evs arbitrary: s)
  case Nil
  then show ?case using assms(1) by (simp add: preorder_on_worlds_def reflpD)
next
  case (Cons ev evs)
  have IH: "R (ps_app s) (ps_app (snd (serve D wl p evs s)))" for s :: "('n, 'sb, 'c, 'sch) process"
    by (rule Cons.IH) (rule Cons.prems, simp)
  show ?case
  proof (cases ev)
    case QueueTick
    obtain x w where q: "ProcessQueue (dp_us D) (dp_now D) (dp_engine D) [Tick] (ps_app s) = (x, w)"
      by (cases "ProcessQueue (dp_us D) (dp_now D) (dp_engine D) [Tick] (ps_app s)")
    have "R (ps_app s) w" using Cons.prems [of "ps_app s"] QueueTick q by simp
    moreover have "R w (ps_app (snd (serve D wl p evs (s\<lparr>ps_app := w\<rparr>))))" using IH [of "s\<lparr>ps_app := w\<rparr>"] by simp
    ultimately have "R (ps_app s) (ps_app (snd (serve D wl p evs (s\<lparr>ps_app := w\<rparr>))))"
      by (rule preorder_trans [OF assms(1)])
    with \<open>R (ps_app s) w\<close> show ?thesis using QueueTick q by (auto split: option.split res.split)
  next
    case (HttpEv rt r cn)
    let ?w = "serve_http D wl (ps_metrics s) rt r cn (ps_app s)"
    have "R ?w (ps_app (snd (serve D wl p evs (s\<lparr>ps_app := ?w, ps_streams := sms\<rparr>))))" for sms
      using IH [of "s\<lparr>ps_app := ?w, ps_streams := sms\<rparr>"] by simp
    then have "R (ps_app s) (ps_app (snd (serve D wl p evs (s\<lparr>ps_app := ?w, ps_streams := sms\<rparr>))))" for sms
      by (rule preorder_trans [OF assms(1,3)])
    then show ?thesis using HttpEv by simp
  next
    case (StreamEv k e)
    obtain sm w where e: "stream_event D wl e (ps_streams s ! k) (ps_app s) = (sm, w)" by fastforce
    let ?s = "s\<lparr>ps_app := w, ps_streams := (ps_streams s)[k := sm]\<rparr>"
    have "R (ps_app s) w" using assms(4) [of "ps_app s" e "ps_streams s ! k"] e by simp
    moreover have "R w (ps_app (snd (serve D wl p evs ?s)))" using IH [of ?s] by simp
    ultimately have "R (ps_app s) (ps_app (snd (serve D wl p evs ?s)))" by (rule preorder_trans [OF assms(1)])
    then show ?thesis using StreamEv e IH [of s] by simp
  next
    case (ServerStops e)
    then show ?thesis
      using assms(1) by (simp add: main_ends_def Start_def preorder_on_worlds_def reflpD)
  qed
qed

lemma served_requests:
  fixes D :: "('n, 'sb, 'fb) deploy" and w :: "('n, 'sb) sys"
  assumes "served_store (sys_TxStore :: (('n, 'sb) sys) TxStore) (db_rel R) (on_net (dp_uuid_New D))"
  shows "R (sys_db w) (sys_db (serve_http D wl m rt r cn w))"
proof -
  let ?env = "main_http_env D wl m cn" and ?sv = "hv_server (NewServer (dp_cfg D) sys_TxStore)"
  have "keeps (resp_rel (db_rel R)) (dispatch ?sv ?env rt r)"
    by (rule served_store.served_dispatch [OF assms])
       (simp_all add: NewServer_def main_http_env_def main_libs_def served_store.served_respond [OF assms])
  from keepsD [OF this, of "(w, new_response)"] show ?thesis
    by (simp add: serve_http_def resp_rel_def db_rel_def)
qed

lemma served_streams:
  fixes D :: "('n, 'sb, 'fb) deploy" and w :: "('n, 'sb) sys"
  assumes "served_store (sys_TxStore :: (('n, 'sb) sys) TxStore) (db_rel R) (on_net (dp_uuid_New D))"
  shows "R (sys_db w) (sys_db (snd (stream_event D wl ev sm w)))"
proof -
  have "db_rel R w w"
    using served_store.served_pre [OF assms] by (simp add: preorder_on_worlds_def reflpD)
  moreover have "keeps (resp_rel (db_rel R))
      (stream_loop (main_libs D wl) (cn_fails (sm_conn sm)) sys_TxStore (sm_id sm) [ev])"
    by (rule served_store.served_stream_loop [OF assms])
  from keepsD [OF this, of "(w, sm_response sm)"] have "db_rel R w (fst (snd (stream_loop (main_libs D wl)
      (cn_fails (sm_conn sm)) sys_TxStore (sm_id sm) [ev] (w, sm_response sm))))"
    by (simp add: resp_rel_def)
  ultimately show ?thesis
    by (auto simp: stream_event_def db_rel_def simp del: stream_loop.simps split: prod.split)
qed


text \<open>A relation kept by the queue and by the API is kept by every run of \<open>main\<close>, from its start.\<close>

lemma main_keeps:
  fixes D :: "('n, 'sb, 'fb) deploy" and s :: "('n, 'sb, 'c, 'sch) process"
  assumes "preorder_on_worlds R"
    and "\<And>cfg w. db_rel R w (snd (ProcessQueue (dp_us D) (dp_now D) (dp_engine (D\<lparr>dp_cfg := cfg\<rparr>)) [Tick] w))"
    and "served_store (sys_TxStore :: (('n, 'sb) sys) TxStore) (db_rel R) (on_net (dp_uuid_New D))"
  shows "R (sys_db (ps_app s)) (sys_db (ps_app (snd (main gs env px menv D wl evs s))))"
proof -
  have "db_rel R w (serve_http (D\<lparr>dp_cfg := cfg\<rparr>) wl m rt r cn w)" for cfg m rt r cn w
    using served_requests [of R "D\<lparr>dp_cfg := cfg\<rparr>"] assms(3) by (simp add: db_rel_def)
  moreover have "db_rel R w (snd (stream_event (D\<lparr>dp_cfg := cfg\<rparr>) wl ev sm w))" for cfg ev sm w
    using served_streams [of R "D\<lparr>dp_cfg := cfg\<rparr>"] assms(3) by (simp add: db_rel_def)
  ultimately have k: "R (sys_db (ps_app s)) (sys_db (ps_app (snd (serve (D\<lparr>dp_cfg := cfg\<rparr>) wl p evs s))))" for cfg p s
    using serve_keeps [where R = "db_rel R" and D = "D\<lparr>dp_cfg := cfg\<rparr>" and wl = wl, OF db_rel_preorder [OF assms(1)]] assms(2)
    by (simp add: db_rel_def)
  have refl: "R d d" for d using assms(1) by (simp add: preorder_on_worlds_def reflpD)
  show ?thesis
  proof (cases "Load gs env")
    case (Inl e)
    then show ?thesis using refl by (simp add: main_def)
  next
    case (Inr cfg)
    obtain r pg where n: "NewPostgres px menv (cfg_DatabaseURL cfg) (ps_pg s) = (r, pg)" by fastforce
    show ?thesis
    proof (cases r)
      case (Ok db)
      show ?thesis
        using Inr n Ok k [of "\<lparr>ps_pg = pg, ps_metrics = Register (ps_metrics s),
          ps_app = (ps_app s)\<lparr>sys_router := main_router (dp_net D) cfg\<rparr>, ps_streams = []\<rparr>" cfg db]
        by (simp add: main_def)
    qed (use Inr n refl in \<open>simp_all add: main_def\<close>)
  qed
qed

interpretation history_served: served_store sys_TxStore "db_rel tx_history" "on_net new" for new
  by unfold_locales
     (simp_all add: db_rel_preorder preorder_tx_history keeps_on_db history.keeps_get save_tx_keeps keeps_on_net)

interpretation wf_served: served_store sys_TxStore "db_rel keeps_ok" "on_net new" for new
  by unfold_locales
     (simp_all add: db_rel_preorder preorder_keeps_ok keeps_on_db wf.keeps_get save_tx_keeps keeps_on_net)

interpretation null_served: served_store sys_TxStore "db_rel null_kept" "on_net new" for new
  by unfold_locales
     (simp_all add: db_rel_preorder preorder_null_kept keeps_on_db null.keeps_get save_null keeps_on_net)

section \<open>What the API can change\<close>

text \<open>New rows at the end of the table transactions, untried; nothing else.\<close>

definition only_adds :: "pgdb \<Rightarrow> pgdb \<Rightarrow> bool" where
  "only_adds d d' \<longleftrightarrow> pg_channel_accounts d' = pg_channel_accounts d \<and>
     (\<exists>rs. pg_transactions d' = pg_transactions d @ rs \<and>
        (\<forall>r \<in> set rs. tr_status r = TxStatusPending \<and> tr_retry_count r = 0))"

lemma preorder_only_adds: "preorder_on_worlds only_adds"
proof (rule preorder_on_worldsI)
  show "only_adds d d" for d by (simp add: only_adds_def)
  show "only_adds u w" if "only_adds u v" "only_adds v w" for u v w
    using that by (fastforce simp: only_adds_def)
qed

lemma only_adds_same:
  "pg_transactions d' = pg_transactions d \<Longrightarrow> pg_channel_accounts d' = pg_channel_accounts d \<Longrightarrow> only_adds d d'"
  by (simp add: only_adds_def)

lemma only_adds_get: "keeps only_adds (Store_GetTransaction i)"
  unfolding Store_GetTransaction_def
  by (intro keeps_wrap_err keeps_pg_stmt preorder_only_adds)
     (simp_all add: only_adds_same sql_select_tx_def split: option.splits)

lemma only_adds_save: "keeps only_adds (Store_SaveTransaction (pending_tx i x))"
  unfolding Store_SaveTransaction_def
  by (intro keeps_wrap_err keeps_pg_stmt preorder_only_adds)
     (auto simp: only_adds_def sql_insert_tx_def pending_tx_def)

interpretation adds_served: served_store sys_TxStore "db_rel only_adds" "on_net new" for new
  by unfold_locales
     (simp_all add: db_rel_preorder preorder_only_adds keeps_on_db only_adds_get only_adds_save keeps_on_net)

section \<open>A queue without channel accounts\<close>

text \<open>
  The program that \<open>main\<close> runs has no account and has confirmed nothing; kept for good, because
  nothing that \<open>main\<close> starts adds an account.
\<close>

definition no_service :: "pgdb \<Rightarrow> bool" where
  "no_service d \<longleftrightarrow> pg_channel_accounts d = [] \<and> (\<forall>r \<in> set (pg_transactions d). tr_status r \<noteq> TxStatusConfirmed)"

definition stays_unserved :: "pgdb \<Rightarrow> pgdb \<Rightarrow> bool" where
  "stays_unserved d d' \<longleftrightarrow> (no_service d \<longrightarrow> no_service d')"

lemma preorder_unserved: "preorder_on_worlds stays_unserved"
  by (rule preorder_on_worldsI) (auto simp: stays_unserved_def)

lemma unserved_same:
  "pg_transactions d' = pg_transactions d \<Longrightarrow> pg_channel_accounts d' = pg_channel_accounts d \<Longrightarrow> stays_unserved d d'"
  by (simp add: stays_unserved_def no_service_def)

lemma unserved_adds: "only_adds d d' \<Longrightarrow> stays_unserved d d'"
  by (auto simp: stays_unserved_def no_service_def only_adds_def)

lemma unserved_calls:
  "keeps stays_unserved (Store_GetPendingTransactions n)"
  "st \<noteq> TxStatusConfirmed \<Longrightarrow> keeps stays_unserved (Store_UpdateTransactionStatus i st ch er)"
proof -
  show "keeps stays_unserved (Store_GetPendingTransactions n)"
    unfolding Store_GetPendingTransactions_def
    by (intro keeps_pg_query preorder_unserved unserved_same) (simp_all add: sql_select_pending_def)
  have "stays_unserved d (snd (sql_update_tx_status i st ch er n d))" if "st \<noteq> TxStatusConfirmed" for n d
    using that by (auto simp: stays_unserved_def no_service_def sql_update_tx_status_def update_tx_rows_def)
  then show "keeps stays_unserved (Store_UpdateTransactionStatus i st ch er)" if "st \<noteq> TxStatusConfirmed"
    using that unfolding Store_UpdateTransactionStatus_def
    by (intro keeps_try_call keeps_pg_stmt keeps_if keeps_ret preorder_unserved) (simp_all add: unserved_same)
qed

text \<open>Whatever faults strike and whatever rows are locked, there is no account to lease.\<close>

lemma no_account_to_lease:
  assumes "pg_channel_accounts d = []"
  shows "\<exists>e d'. Store_LeaseChannelAccount d = (Error e, d') \<and> pg_channel_accounts d' = [] \<and>
    pg_transactions d' = pg_transactions d"
  using assms
  by (auto simp: Store_LeaseChannelAccount_def try_call_def in_tx_def lease_candidate_def idle_candidates_def
      split: option.split fault.split)

lemma unserved_lease:
  assumes "\<And>err. keeps (db_rel stays_unserved) (g err)"
  shows "db_rel stays_unserved w (snd (try_call (Pool_Lease (main_pool net cfg)) f g w))"
proof (cases "pg_channel_accounts (sys_db w) = []")
  case True
  from no_account_to_lease [OF this] obtain e d' where d: "Store_LeaseChannelAccount (sys_db w) = (Error e, d')"
    "pg_channel_accounts d' = []" "pg_transactions d' = pg_transactions (sys_db w)" by blast
  let ?e = "Wrap [Lit ''leasing channel account from pool: ''] e"
  have "try_call (Pool_Lease (main_pool net cfg)) f g w = g ?e (w\<lparr>sys_db := d'\<rparr>)"
    using d by (simp add: Pool_Lease_def try_call_def on_db_def)
  moreover have "db_rel stays_unserved w (w\<lparr>sys_db := d'\<rparr>)"
    using d True by (simp add: db_rel_def unserved_same)
  ultimately show ?thesis
    using keepsD [OF assms [of ?e], of "w\<lparr>sys_db := d'\<rparr>"] by (auto simp: db_rel_def stays_unserved_def)
qed (simp add: db_rel_def stays_unserved_def no_service_def)

lemma unserved_tick:
  "db_rel stays_unserved w (snd (ProcessQueue us now (main_engine parse net cfg) [Tick] w))"
proof -
  note pre = db_rel_preorder [OF preorder_unserved]
  note calls = unserved_calls [THEN keeps_on_db]
  have fail: "keeps (db_rel stays_unserved) (failTransaction us (main_engine parse net cfg) i ch err)" for i ch err
    unfolding failTransaction_def main_engine_sel sys_TxStore_sel
    by (intro keeps_log_err keeps_ret pre calls) (simp add: TxStatusFailed_def TxStatusConfirmed_def)
  have "keeps (db_rel stays_unserved) (process_one us now (main_engine parse net cfg) tx)" for tx
    unfolding process_one_def main_engine_sel sys_TxStore_sel
    by (intro keeps_try_call keeps_ret pre calls keepsI unserved_lease fail)
       (simp add: TxStatusSubmitting_def TxStatusConfirmed_def)
  then have "keeps (db_rel stays_unserved) (processBatch us now (main_engine parse net cfg))"
    unfolding processBatch_def main_engine_sel sys_TxStore_sel
    by (intro keeps_try_call keeps_ret pre calls) (auto intro: keeps_ret pre split: list.split)
  from keepsD [OF this, of w] show ?thesis
    using tick_run [of us now "main_engine parse net cfg" w] by (auto simp: db_rel_def stays_unserved_def)
qed

interpretation unserved_served: served_store sys_TxStore "db_rel stays_unserved" "on_net new" for new
proof unfold_locales
  have k: "keeps stays_unserved m" if "keeps only_adds m" for m :: "(pgdb, 'x) op"
    using that by (simp add: keeps_def unserved_adds)
  show "keeps (db_rel stays_unserved) (ts_GetTransaction sys_TxStore i)"
    "keeps (db_rel stays_unserved) (ts_SaveTransaction sys_TxStore (pending_tx i x))" for i x
    unfolding sys_TxStore_sel by (intro keeps_on_db k only_adds_get only_adds_save)+
qed (simp_all add: db_rel_preorder preorder_unserved keeps_on_net)

section \<open>Opening the pool\<close>

lemma migrate_no_panic: "fst (migrate env d) \<noteq> Panic"
proof -
  have s: "panic_free (mg_stmt body)" if "\<And>d. fst (body d) \<noteq> Panic" for body :: "('sch mgdb, 'b) op"
    using that by (auto simp: panic_free_def mg_stmt_def split: option.split fault.split)
  have t: "panic_free (mg_in_tx f)" for f :: "'sch mgdb \<Rightarrow> goerr + 'b"
    by (auto simp: panic_free_def mg_in_tx_def split: option.split fault.split)
       (metis of_sum.simps res.distinct(4,6) sum.exhaust)
  have r: "panic_free (runMigration env i f data)" for i f data
    unfolding runMigration_def by (intro panic_free_try_call s t) (auto intro: panic_free_ret)
  have "panic_free (migrate_files env ids files)" for ids files
    by (induction files)
       (auto simp: Let_def simp del: ret_apply intro!: panic_free_try_call panic_free_ret r split: prod.split sum.split)
  moreover have "panic_free (query_applied env)"
    by (auto simp: panic_free_def query_applied_def sql_applied_def wrap_err_def try_call_def
        split: option.split fault.split)
  ultimately have "panic_free (migrate env)"
    unfolding migrate_def
    by (intro panic_free_try_call s) (auto simp: sql_create_migrations_def intro: panic_free_ret split: sum.split)
  then show ?thesis by (rule panic_freeD)
qed

definition limited :: "'c pool_config \<Rightarrow> 'c pool_config" where
  "limited cfg = cfg\<lparr>pc_MaxConns := 10, pc_MinConns := 2\<rparr>"

text \<open>Every way of opening the pool: what was not opened, opened and left, opened and closed, opened.\<close>

lemma NewPostgres_cases:
  assumes "NewPostgres px env url s = (r, s')"
  obtains e where "px_ParseConfig px url = Inl e" "r = Error e" "s' = s"
  | cfg e where "px_ParseConfig px url = Inr cfg" "px_NewError px (limited cfg) = Some e" "r = Error e" "s' = s"
  | cfg e where "px_ParseConfig px url = Inr cfg" "px_NewError px (limited cfg) = None"
      "px_PingError px (pgs_next s) = Some e" "r = Error e"
      "s' = s\<lparr>pgs_pools := (pgs_pools s)(pgs_next s \<mapsto> limited cfg), pgs_next := Suc (pgs_next s)\<rparr>"
  | cfg e d where "px_ParseConfig px url = Inr cfg" "px_NewError px (limited cfg) = None"
      "px_PingError px (pgs_next s) = None" "migrate env (pgs_mig s) = (Error e, d)" "r = Error e"
      "s' = s\<lparr>pgs_next := Suc (pgs_next s), pgs_mig := d, pgs_pools := (pgs_pools s)(pgs_next s := None)\<rparr>"
  | cfg d where "px_ParseConfig px url = Inr cfg" "px_NewError px (limited cfg) = None"
      "px_PingError px (pgs_next s) = None" "migrate env (pgs_mig s) = (Ok (), d)" "r = Ok (pgs_next s)"
      "s' = s\<lparr>pgs_pools := (pgs_pools s)(pgs_next s \<mapsto> limited cfg), pgs_next := Suc (pgs_next s), pgs_mig := d\<rparr>"
proof (cases "px_ParseConfig px url")
  case (Inl e)
  then show ?thesis using assms that(1) by (simp add: NewPostgres_def)
next
  case cfg: (Inr cfg)
  show ?thesis
  proof (cases "px_NewError px (limited cfg)")
    case (Some e)
    then show ?thesis
      using assms cfg that(2) by (simp add: NewPostgres_def NewWithConfig_def try_call_def limited_def)
  next
    case new: None
    obtain m d where m: "migrate env (pgs_mig s) = (m, d)" by fastforce
    show ?thesis
    proof (cases "px_PingError px (pgs_next s)")
      case (Some e)
      then show ?thesis
        using assms cfg new that(3) by (simp add: NewPostgres_def NewWithConfig_def Ping_def try_call_def limited_def)
    next
      case None
      note facts = None m assms cfg new
      show ?thesis
      proof (cases m)
        case (Ok u)
        then show ?thesis using Ok facts that(5)
          by (simp add: NewPostgres_def NewWithConfig_def Ping_def on_mig_def try_call_def limited_def)
      next
        case (Error e)
        then show ?thesis using Error facts that(4)
          by (simp add: NewPostgres_def NewWithConfig_def Ping_def on_mig_def try_call_def limited_def Close_def)
      next
        case Panic
        then show ?thesis using m migrate_no_panic [of env "pgs_mig s"] by simp
      qed
    qed
  qed
qed

section \<open>Properties of the process\<close>

lemma serve_ends:
  assumes "serve D wl p evs s = (x, s')"
  shows "x \<in> {None, Some (ExitCode 1), Some Crash} \<and> ps_pg s' = ps_pg s"
  using assms
proof (induction evs arbitrary: s)
  case (Cons ev evs)
  then show ?case
    by (cases ev) (auto simp: main_ends_def Start_def split: prod.splits option.splits res.splits if_splits)
qed simp

text \<open>
  C38. \<open>main\<close> never returns: it keeps running, exits with code 1 or crashes, so its deferred calls do
  not run. Whatever happened, the pool that it opened, with 10 connections at most and 2 at least, is
  still open at the end.
\<close>

theorem main_never_returns:
  assumes "main gs env px menv D wl evs s = (x, s')"
    and "Load gs env = Inr cfg" "NewPostgres px menv (cfg_DatabaseURL cfg) (ps_pg s) = (Ok p, pg)"
  shows "x \<in> {None, Some (ExitCode 1), Some Crash} \<and> ps_pg s' = pg \<and>
    (\<exists>pc. pgs_pools (ps_pg s') p = Some pc \<and> pc_MaxConns pc = 10 \<and> pc_MinConns pc = 2)"
  using assms(3)
proof (cases rule: NewPostgres_cases)
  case (5 c d)
  have "x \<in> {None, Some (ExitCode 1), Some Crash} \<and> ps_pg s' = pg"
    using assms serve_ends [of "D\<lparr>dp_cfg := cfg\<rparr>" wl p evs] by (fastforce simp: main_def)
  then show ?thesis using 5 by (simp add: limited_def)
qed simp_all

definition sample_pgx :: "string pgx" where
  "sample_pgx = \<lparr>px_ParseConfig = \<lambda>url. Inr \<lparr>pc_parsed = url, pc_MaxConns = 4, pc_MinConns = 0\<rparr>,
     px_NewError = \<lambda>c. None, px_PingError = \<lambda>p. None\<rparr>"

definition sample_pgserver :: "(string, string list) pgserver" where
  "sample_pgserver = \<lparr>pgs_pools = Map.empty, pgs_next = 0, pgs_mig = sample_mgdb (\<lambda>n. None)\<rparr>"

definition sample_process :: "pgdb \<Rightarrow> (unit, string, string, string list) process" where
  "sample_process d = \<lparr>ps_pg = sample_pgserver, ps_metrics = metrics_nil, ps_app = sample_world (Error EOF) d,
     ps_streams = []\<rparr>"

lemma sample_opens: "\<exists>pg. NewPostgres sample_pgx sample_mig url sample_pgserver = (Ok 0, pg)"
proof -
  have "mg_quiet (sample_mgdb (\<lambda>n. None))" by (simp add: mg_quiet_def sample_mgdb_def)
  then obtain d where "migrate sample_mig (sample_mgdb (\<lambda>n. None)) = (Ok (), d)"
    using migrate_quiet [OF _ sample_dir, of "sample_mgdb (\<lambda>n. None)"] sample_plan
    by (auto simp: sample_mgdb_view)
  then show ?thesis
    by (simp add: NewPostgres_def NewWithConfig_def Ping_def on_mig_def try_call_def sample_pgx_def sample_pgserver_def)
qed

lemma sample_loads: "\<exists>cfg. Load default_list (\<lambda>x. []) = Inr cfg"
  by (simp add: Load_def Let_def read_config_def getEnvInt_def getEnvFloat_def f64_less_def f64_one_def)

definition sample_web :: web_libs where
  "sample_web = \<lparr>wl_uuid_Parse = \<lambda>x. Inr 9, wl_scrape = \<lambda>r w. w\<rparr>"

definition sample_db :: pgdb where
  "sample_db = calm_db [sample_tx 5 TxStatusPending (Some [])] [] (Inl (Foreign ''null''))"

theorem main_never_returns_witness:
  "\<exists>s'. main default_list (\<lambda>x. []) sample_pgx sample_mig (sample_deploy (Error EOF)) sample_web [ServerStops EOF]
      (sample_process sample_db) = (Some (ExitCode 1), s') \<and> pgs_pools (ps_pg s') 0 \<noteq> None"
proof -
  obtain cfg where l: "Load default_list (\<lambda>x. []) = Inr cfg" using sample_loads by blast
  obtain pg where n: "NewPostgres sample_pgx sample_mig (cfg_DatabaseURL cfg) (ps_pg (sample_process sample_db)) = (Ok 0, pg)"
    using sample_opens by (auto simp: sample_process_def)
  obtain s' where m: "main default_list (\<lambda>x. []) sample_pgx sample_mig (sample_deploy (Error EOF)) sample_web
      [ServerStops EOF] (sample_process sample_db) = (Some (ExitCode 1), s')"
    by (simp add: main_def l n main_ends_def Start_def)
  from main_never_returns [OF m l n] m show ?thesis by auto
qed

text \<open>
  A poll interval of zero, in whatever unit, passes the validation and ends the process: the
  queue processor panics when it makes its ticker.
\<close>

lemma zero_interval_crashes:
  assumes "Load gs env = Inr cfg" "env ''QUEUE_POLL_INTERVAL'' = ''0'' @ u" "(u, k) \<in> set unitMap"
    and "NewPostgres px menv (cfg_DatabaseURL cfg) (ps_pg s) = (Ok p, pg)"
  shows "fst (main gs env px menv D wl (QueueTick # evs) s) = Some Crash"
proof -
  have "dec_digits 0 = ''0''" by code_simp
  then have "ParseDuration (''0'' @ u) = Some 0"
    using duration_units [OF assms(3), of 0] by simp
  then have "cfg_QueuePollInterval cfg = 0"
    using assms(2) Load_config [OF assms(1)] by (simp add: read_config_def getEnvDuration_def Let_def)
  then show ?thesis
    using assms(1,4) by (simp add: main_def dp_engine_def ProcessQueue_def)
qed

section \<open>What the API and the queue keep\<close>

text \<open>
  C35. Whatever requests arrive, on whatever routes and connections, however many event streams are
  open and whatever rounds they make, in any order, whatever fails, up to the server's end: without the
  queue's ticks, the API does no more than append untried pending transactions. It changes no stored
  row and no account.
\<close>

theorem requests_only_add:
  fixes D :: "('n, 'sb, 'fb) deploy"
  assumes "QueueTick \<notin> set evs" "serve D wl p evs s = (x, s')"
  shows "\<exists>rs. pg_transactions (sys_db (ps_app s')) = pg_transactions (sys_db (ps_app s)) @ rs \<and>
      (\<forall>r \<in> set rs. tr_status r = TxStatusPending \<and> tr_retry_count r = 0) \<and>
      pg_channel_accounts (sys_db (ps_app s')) = pg_channel_accounts (sys_db (ps_app s))"
proof -
  have "db_rel only_adds (ps_app s) (ps_app (snd (serve D wl p evs s)))"
    unfolding db_rel_def
  proof (rule serve_keeps)
    show "preorder_on_worlds (\<lambda>(w :: ('n, 'sb) sys) w'. only_adds (sys_db w) (sys_db w'))"
      using db_rel_preorder [OF preorder_only_adds] by (simp add: db_rel_def [abs_def])
    show "only_adds (sys_db w) (sys_db (serve_http D wl m rt r cn w))" for m rt r cn w
      by (rule served_requests) (rule adds_served.served_store_axioms)
    show "only_adds (sys_db w) (sys_db (snd (stream_event D wl ev sm w)))" for ev sm w
      by (rule served_streams) (rule adds_served.served_store_axioms)
  qed (use assms(1) in simp)
  then show ?thesis using assms(2) by (auto simp: only_adds_def db_rel_def)
qed

theorem requests_only_add_witness:
  "\<exists>x s' rs. serve (sample_deploy (Error EOF)) sample_web 0
       [HttpEv (EnqueueEndpoint, True) (sample_request ''Bearer key'' ''AAAA'') \<lparr>cn_fails = \<lambda>n. None, cn_flush = True\<rparr>,
        HttpEv (StreamEndpoint, True) (sample_request ''Bearer key'' []) \<lparr>cn_fails = \<lambda>n. None, cn_flush = True\<rparr>,
        StreamEv 0 Tick, ServerStops EOF] (sample_process sample_db) = (x, s') \<and>
     pg_transactions (sys_db (ps_app s')) = pg_transactions sample_db @ rs \<and> (\<forall>r \<in> set rs. tr_retry_count r = 0)"
proof -
  let ?evs = "[HttpEv (EnqueueEndpoint, True) (sample_request ''Bearer key'' ''AAAA'') \<lparr>cn_fails = \<lambda>n. None, cn_flush = True\<rparr>,
        HttpEv (StreamEndpoint, True) (sample_request ''Bearer key'' []) \<lparr>cn_fails = \<lambda>n. None, cn_flush = True\<rparr>,
        StreamEv 0 Tick, ServerStops EOF]"
  obtain x s' where s: "serve (sample_deploy (Error EOF)) sample_web 0 ?evs (sample_process sample_db) = (x, s')"
    by fastforce
  have "QueueTick \<notin> set ?evs" by simp
  from requests_only_add [OF this s] show ?thesis using s by (auto simp: sample_process_def)
qed

text \<open>
  C16. Over any run of the process, from its start on: the tables stay well formed, and no transaction
  is lost, has its envelope or creation time changed or its retry counter lowered.
\<close>

theorem main_run_keeps:
  assumes "main gs env px menv D wl evs s = (x, s')"
  shows "(db_ok (sys_db (ps_app s)) \<longrightarrow> db_ok (sys_db (ps_app s'))) \<and>
    tx_history (sys_db (ps_app s)) (sys_db (ps_app s'))"
proof -
  have "tx_history (sys_db (ps_app s)) (sys_db (ps_app (snd (main gs env px menv D wl evs s))))"
    by (rule main_keeps [OF preorder_tx_history])
       (simp_all add: dp_engine_def history.eng.keeps_ProcessQueue history_served.served_store_axioms)
  moreover have "keeps_ok (sys_db (ps_app s)) (sys_db (ps_app (snd (main gs env px menv D wl evs s))))"
    by (rule main_keeps [OF preorder_keeps_ok])
       (simp_all add: dp_engine_def wf.eng.keeps_ProcessQueue wf_served.served_store_axioms)
  ultimately show ?thesis using assms by (simp add: keeps_ok_def)
qed

theorem main_run_keeps_witness:
  "db_ok sample_db \<and> (\<exists>x s'. main default_list (\<lambda>x. []) sample_pgx sample_mig (sample_deploy (Error EOF)) sample_web
      [QueueTick, ServerStops EOF] (sample_process sample_db) = (x, s') \<and> db_ok (sys_db (ps_app s')))"
proof -
  obtain x s' where m: "main default_list (\<lambda>x. []) sample_pgx sample_mig (sample_deploy (Error EOF)) sample_web
      [QueueTick, ServerStops EOF] (sample_process sample_db) = (x, s')" by fastforce
  have "db_ok sample_db"
    by (simp add: db_ok_def keys_ok_def status_ok_def sample_db_def)
  then show ?thesis using main_run_keeps [OF m] m by (auto simp: sample_process_def)
qed

text \<open>
  C36. \<open>main\<close> starts no refill: a program whose table of channel accounts is empty never has an
  account, and so never confirms a transaction, however long it runs and whatever is posted.
\<close>

theorem no_accounts_no_confirmation:
  assumes "main gs env px menv D wl evs s = (x, s')" "pg_channel_accounts (sys_db (ps_app s)) = []"
    and "\<forall>r \<in> set (pg_transactions (sys_db (ps_app s))). tr_status r \<noteq> TxStatusConfirmed"
  shows "pg_channel_accounts (sys_db (ps_app s')) = [] \<and>
    (\<forall>r \<in> set (pg_transactions (sys_db (ps_app s'))). tr_status r \<noteq> TxStatusConfirmed)"
proof -
  have "stays_unserved (sys_db (ps_app s)) (sys_db (ps_app (snd (main gs env px menv D wl evs s))))"
    by (rule main_keeps [OF preorder_unserved])
       (simp_all add: dp_engine_def unserved_tick unserved_served.served_store_axioms)
  then show ?thesis using assms by (simp add: stays_unserved_def no_service_def)
qed

theorem no_accounts_no_confirmation_witness:
  "\<exists>x s'. main default_list (\<lambda>x. []) sample_pgx sample_mig (sample_deploy (Error EOF)) sample_web
      [QueueTick, QueueTick] (sample_process sample_db) = (x, s') \<and>
    (\<forall>r \<in> set (pg_transactions (sys_db (ps_app s'))). tr_status r \<noteq> TxStatusConfirmed)"
proof -
  obtain x s' where m: "main default_list (\<lambda>x. []) sample_pgx sample_mig (sample_deploy (Error EOF)) sample_web
      [QueueTick, QueueTick] (sample_process sample_db) = (x, s')" by fastforce
  from no_accounts_no_confirmation [OF m] show ?thesis
    using m by (auto simp: sample_process_def sample_db_def TxStatusPending_def TxStatusConfirmed_def)
qed

section \<open>Properties of the pool's opening\<close>

text \<open>
  C37. What opening the database comes to. On success the pool is open with the limits of the code and
  the migrations recorded are those there were and the numbered new files, each once, in order and all with different numbers. On
  an error every pool that was not open before is closed, unless it was the ping that failed: then the
  new pool is left open, and no migration has run.
\<close>

theorem NewPostgres_outcome:
  assumes "NewPostgres px env url s = (r, s')" "pgs_pools s (pgs_next s) = None"
  shows "case r of
      Ok p \<Rightarrow> (\<exists>cfg files. px_ParseConfig px url = Inr cfg \<and>
        pgs_pools s' = (pgs_pools s)(p \<mapsto> cfg\<lparr>pc_MaxConns := 10, pc_MinConns := 2\<rparr>) \<and>
        me_ReadDir env ''migrations'' = Inr files \<and>
        fst (mg_view (pgs_mig s')) = fst (mg_view (pgs_mig s)) @
          map (\<lambda>f. (fst (extractMigrationID f), f)) (pending_files (recorded (mg_view (pgs_mig s))) files) \<and>
        distinct (map (\<lambda>f. fst (extractMigrationID f)) (pending_files (recorded (mg_view (pgs_mig s))) files)))
    | Error e \<Rightarrow>
        (if pgs_next s' = pgs_next s \<or> px_PingError px (pgs_next s) = None then pgs_pools s' = pgs_pools s
         else \<exists>cfg. px_ParseConfig px url = Inr cfg \<and> px_PingError px (pgs_next s) = Some e \<and>
           pgs_pools s' = (pgs_pools s)(pgs_next s \<mapsto> cfg\<lparr>pc_MaxConns := 10, pc_MinConns := 2\<rparr>) \<and>
           pgs_mig s' = pgs_mig s)
    | Panic \<Rightarrow> False"
  using assms(1)
proof (cases rule: NewPostgres_cases)
  case (5 cfg d)
  then show ?thesis
    using migrations_ok_records [of env "pgs_mig s" d] by (simp add: limited_def)
qed (use assms(2) in \<open>auto simp: limited_def fun_upd_idem\<close>)

theorem NewPostgres_outcome_witness:
  "\<exists>s'. NewPostgres (sample_pgx\<lparr>px_PingError := \<lambda>p. Some EOF\<rparr>) sample_mig ''db'' sample_pgserver = (Error EOF, s') \<and>
     pgs_pools s' 0 \<noteq> None"
proof -
  obtain s' where s: "NewPostgres (sample_pgx\<lparr>px_PingError := \<lambda>p. Some EOF\<rparr>) sample_mig ''db'' sample_pgserver = (Error EOF, s')"
    "pgs_next s' \<noteq> 0"
    by (auto simp: NewPostgres_def NewWithConfig_def Ping_def try_call_def sample_pgx_def sample_pgserver_def)
  from NewPostgres_outcome [OF s(1)] s show ?thesis
    by (auto simp: sample_pgserver_def sample_pgx_def)
qed

end
