(* ===== verification/Streams.thy ===== *)
theory Streams
  imports Startup
begin

text \<open>
  Event streams that stay open while the queue processor and other requests work: what a client that
  watches a transaction sees.
\<close>

section \<open>Opening a stream\<close>

lemma auth_lets_in:
  "authMiddleware cfg nxt r =
     (if lets_in cfg r
      then nxt (if cfg_APIKeys cfg = [] then r else r\<lparr>rq_ctx_key := Some (trim_prefix (rq_auth r) bearer)\<rparr>)
      else http_Error
        (if rq_auth r = [] then ''authorization required''
         else if \<not> has_prefix (rq_auth r) bearer then ''invalid authorization header format''
         else ''invalid API key'') 401)"
  by (simp add: authMiddleware_def lets_in_def Let_def)

lemma stream_ignores_key: "streamHandler lb fails fl st evs (r\<lparr>rq_ctx_key := k\<rparr>) = streamHandler lb fails fl st evs r"
  by (simp add: streamHandler_def)

text \<open>A stream that is opened has written what the route's handler has written so far.\<close>

lemma open_stream_dispatched:
  assumes "open_stream D wl r cn w = [sm]"
  shows "\<exists>w'. dispatch (hv_server (NewServer (dp_cfg D) sys_TxStore)) (main_http_env D wl m cn) (StreamEndpoint, True) r
      (w, new_response) = (Ok (), (w', sm_response sm)) \<and> wl_uuid_Parse wl (rq_param_id r) = Inr (sm_id sm) \<and> sm_open sm"
  using assms
  by (auto simp: open_stream_def dispatch_def auth_lets_in NewServer_def handler_of_def main_http_env_def
      stream_ignores_key log_err_def try_call_def split: if_splits prod.splits res.splits bool.splits sum.splits)

section \<open>A row that no event of the process changes\<close>

text \<open>For a settled row: the table stays well formed, the row and the driver's behaviour stay.\<close>

definition row_fixed :: "tx_row \<Rightarrow> pgdb \<Rightarrow> pgdb \<Rightarrow> bool" where
  "row_fixed r d d' \<longleftrightarrow>
     (db_ok d \<and> find_tx (tr_id r) (pg_transactions d) = Some r \<longrightarrow>
      db_ok d' \<and> find_tx (tr_id r) (pg_transactions d') = Some r \<and> pg_scan_null d' = pg_scan_null d)"

lemma preorder_row_fixed: "preorder_on_worlds (row_fixed r)"
  by (rule preorder_on_worldsI) (auto simp: row_fixed_def)

lemma row_fixedI: "keeps_ok d d' \<Longrightarrow> null_kept d d' \<Longrightarrow> rows_stay d d' \<Longrightarrow> row_fixed r d d'"
  by (simp add: row_fixed_def keeps_ok_def null_kept_def rows_stay_def)

lemma only_adds_rows_stay: "only_adds d d' \<Longrightarrow> rows_stay d d'"
  by (auto simp: only_adds_def rows_stay_def find_tx_def find_append)

lemma get_rows_stay: "keeps rows_stay (Store_GetTransaction i)"
  using only_adds_get [of i] by (simp add: keeps_def only_adds_rows_stay)

interpretation rows_served: served_store sys_TxStore "db_rel rows_stay" "on_net new" for new
  by unfold_locales
     (simp_all add: db_rel_preorder preorder_rows_stay keeps_on_db get_rows_stay save_rows_stay keeps_on_net)

lemma row_fixed_events:
  "row_fixed r (sys_db w) (sys_db (serve_http D wl m rt rq cn w))"
  "row_fixed r (sys_db w) (sys_db (snd (stream_event D wl ev sm w)))"
  by (intro row_fixedI served_requests served_streams wf_served.served_store_axioms
      null_served.served_store_axioms rows_served.served_store_axioms)+

lemma row_fixed_tick:
  assumes "tr_status r \<noteq> TxStatusPending"
  shows "row_fixed r (sys_db w) (sys_db (snd (ProcessQueue us now (main_engine parse net cfg) [Tick] w)))"
proof -
  let ?w = "snd (ProcessQueue us now (main_engine parse net cfg) [Tick] w)"
  have k: "keeps_ok (sys_db w) (sys_db ?w)" "null_kept (sys_db w) (sys_db ?w)"
    using wf.eng.keeps_ProcessQueue [where us = us and now = now and parse = parse and net = net and cfg = cfg and evs = "[Tick]" and w = w]
      null.eng.keeps_ProcessQueue [where us = us and now = now and parse = parse and net = net and cfg = cfg and evs = "[Tick]" and w = w]
    by (simp_all add: db_rel_def)
  have "find_tx (tr_id r) (pg_transactions (sys_db ?w)) = Some r"
    if "db_ok (sys_db w)" "find_tx (tr_id r) (pg_transactions (sys_db w)) = Some r"
    using batch_same_row [OF that assms, of us now parse net cfg] that(2)
      tick_run [of us now "main_engine parse net cfg" w]
    by (auto simp: same_row_def)
  then show ?thesis using k by (simp add: row_fixed_def keeps_ok_def null_kept_def)
qed

section \<open>What one round of a stream writes\<close>

lemma get_transaction_row:
  assumes "Store_GetTransaction i d = (Ok tx, d')"
  shows "\<exists>r. find_tx i (pg_transactions d) = Some r \<and> scan_tx (pg_scan_null d) r = Ok tx"
  using assms
  by (auto simp: Store_GetTransaction_def wrap_err_def try_call_def pg_stmt_def sql_select_tx_def
      split: option.splits fault.splits res.splits prod.splits)

definition error_event :: "string \<times> json" where
  "error_event = (''error'', JObj [(''message'', JStr ''transaction not found'')])"

definition row_event :: "(uuid \<Rightarrow> string) \<Rightarrow> tx_row \<Rightarrow> string \<Rightarrow> string \<times> json" where
  "row_event us r txt = (''status'', JObj [(''id'', JStr (us (tr_id r))), (''status'', JStr (tr_status r)),
     (''retry'', JNum (tr_retry_count r)), (''last_error'', JStr txt)])"

text \<open>The error text of a row, as a read yields it.\<close>

definition row_text :: "goerr + string \<Rightarrow> tx_row \<Rightarrow> string" where
  "row_text sn r = (case scan_tx sn r of Ok tx \<Rightarrow> tx_LastError tx | _ \<Rightarrow> [])"

text \<open>
  A round appends the frame of the row and goes on, or ends the stream, with at most a frame for the
  row or for an error before it.
\<close>

lemma stream_round:
  assumes "find_tx (sm_id sm) (pg_transactions (sys_db w)) = Some r" "stream_event D wl ev sm w = (sm', w')"
  shows "sm_id sm' = sm_id sm \<and> (sm_open sm' \<longrightarrow> sm_open sm) \<and>
    (\<exists>fs. rp_body (sm_response sm') = rp_body (sm_response sm) @ concat (map frame_of fs) \<and>
       (fs = [] \<or> fs = [error_event] \<and> \<not> sm_open sm' \<and> sm_open sm \<or>
        sm_open sm \<and> fs = [row_event (dp_us D) r (row_text (pg_scan_null (sys_db w)) r)]))"
proof (cases "sm_open sm \<and> ev = Tick")
  case False
  then show ?thesis using assms(2)
    by (auto simp: stream_event_def split: loop_event.splits if_splits intro: exI [of _ "[]"])
next
  case True
  let ?lb = "main_libs D wl" and ?f = "cn_fails (sm_conn sm)" and ?i = "sm_id sm"
  obtain g d where g: "Store_GetTransaction ?i (sys_db w) = (g, d)" by fastforce
  let ?w = "w\<lparr>sys_db := d\<rparr>"
  show ?thesis
  proof (cases g)
    case (Ok tx)
    obtain y w1 rp where y: "sendSSEEvent ?f ''status'' (status_json ?lb ?i tx) (?w, sm_response sm) = (y, w1, rp)"
      by (metis prod_cases3)
    have e: "(''status'', status_json ?lb ?i tx) = row_event (dp_us D) r (tx_LastError tx)"
      "row_text (pg_scan_null (sys_db w)) r = tx_LastError tx"
      using get_transaction_row [of ?i "sys_db w" tx d] g Ok assms(1) find_tx_id [OF assms(1)]
      by (auto simp: row_event_def status_json_def main_libs_def scan_tx_Ok row_text_def)
    obtain fs where fs: "set fs \<subseteq> {row_event (dp_us D) r (tx_LastError tx)}" "length fs \<le> 1" "y \<noteq> Panic"
      "rp_body rp = rp_body (sm_response sm) @ concat (map frame_of fs)" "y = Ok () \<longleftrightarrow> fs \<noteq> []"
      using send_run [where e = "''status''" and v = "status_json ?lb ?i tx" and fails = ?f and w = ?w and
          rp = "sm_response sm"] y e(1) by auto
    have "sm_response sm' = rp" "sm_id sm' = sm_id sm"
      using assms(2) True g Ok y
      by (cases y; auto simp: stream_event_def try_call_def on_store_def on_db_def)+
    moreover have "fs = [] \<or> fs = [row_event (dp_us D) r (tx_LastError tx)]"
      using fs(1,2) by (cases fs) auto
    ultimately show ?thesis
      using fs(4) True unfolding e(2) by (intro conjI exI [of _ fs]) (simp_all, blast)
  next
    case (Error e)
    obtain y w1 rp where y: "sendSSEEvent ?f ''error'' (JObj [(''message'', JStr ''transaction not found'')])
        (?w, sm_response sm) = (y, w1, rp)" by (metis prod_cases3)
    obtain fs where fs: "set fs \<subseteq> {error_event}" "length fs \<le> 1" "y \<noteq> Panic"
      "rp_body rp = rp_body (sm_response sm) @ concat (map frame_of fs)"
      using send_run [where e = "''error''" and v = "JObj [(''message'', JStr ''transaction not found'')]" and
          fails = ?f and w = ?w and rp = "sm_response sm"] y by (auto simp: error_event_def)
    have "sm_response sm' = rp" "sm_id sm' = sm_id sm" "\<not> sm_open sm'"
      using assms(2) True g Error y
      by (cases y; auto simp: stream_event_def try_call_def log_err_def on_store_def on_db_def)+
    moreover have "fs = [] \<or> fs = [error_event]" using fs(1,2) by (cases fs) auto
    ultimately show ?thesis using fs(4) True by (intro conjI exI [of _ fs]) (simp_all, blast)
  next
    case Panic
    then show ?thesis using assms(2) True g
      by (auto simp: stream_event_def try_call_def on_store_def on_db_def intro: exI [of _ "[]"])
  qed
qed

section \<open>A stream through a run\<close>

text \<open>
  What a stream on the settled row r can grow by: nothing once it is closed, else copies of one frame
  and perhaps an error that closes it.
\<close>

definition grows :: "(string \<times> json) \<Rightarrow> stream \<Rightarrow> stream \<Rightarrow> bool" where
  "grows F sm sm' \<longleftrightarrow> sm_id sm' = sm_id sm \<and> (sm_open sm' \<longrightarrow> sm_open sm) \<and>
     (\<exists>n e. rp_body (sm_response sm') = rp_body (sm_response sm) @ concat (map frame_of (replicate n F @ e)) \<and>
        (\<not> sm_open sm \<longrightarrow> n = 0 \<and> e = []) \<and> (e = [] \<or> e = [error_event] \<and> \<not> sm_open sm'))"

lemma grows_refl: "grows F sm sm"
  unfolding grows_def by (intro conjI exI [of _ 0] exI [of _ "[]"]) simp_all

lemma grows_trans:
  assumes "grows F a b" "grows F b c"
  shows "grows F a c"
proof -
  obtain n e where ab: "rp_body (sm_response b) = rp_body (sm_response a) @ concat (map frame_of (replicate n F @ e))"
    "\<not> sm_open a \<longrightarrow> n = 0 \<and> e = []" "e = [] \<or> e = [error_event] \<and> \<not> sm_open b"
    using assms(1) unfolding grows_def by blast
  obtain m f where bc: "rp_body (sm_response c) = rp_body (sm_response b) @ concat (map frame_of (replicate m F @ f))"
    "\<not> sm_open b \<longrightarrow> m = 0 \<and> f = []" "f = [] \<or> f = [error_event] \<and> \<not> sm_open c"
    using assms(2) unfolding grows_def by blast
  have o: "sm_id c = sm_id a" "sm_open c \<longrightarrow> sm_open b" "sm_open b \<longrightarrow> sm_open a"
    using assms by (auto simp: grows_def)
  show ?thesis
  proof (cases "sm_open b")
    case True
    then have "e = []" using ab(3) by simp
    then have "rp_body (sm_response c) = rp_body (sm_response a) @ concat (map frame_of (replicate (n + m) F @ f))"
      using ab(1) bc(1) by (simp add: replicate_add)
    then show ?thesis using o True bc(3) unfolding grows_def by blast
  next
    case False
    then have "rp_body (sm_response c) = rp_body (sm_response a) @ concat (map frame_of (replicate n F @ e))"
      "\<not> sm_open c" using ab(1) bc(1,2) o(2) by simp_all
    then show ?thesis using o ab(2,3) unfolding grows_def by blast
  qed
qed

lemma stream_event_grows:
  assumes "find_tx (sm_id sm) (pg_transactions (sys_db w)) = Some r" "stream_event D wl ev sm w = (sm', w')"
  shows "grows (row_event (dp_us D) r (row_text (pg_scan_null (sys_db w)) r)) sm sm'"
proof -
  let ?F = "row_event (dp_us D) r (row_text (pg_scan_null (sys_db w)) r)"
  obtain fs where fs: "sm_id sm' = sm_id sm" "sm_open sm' \<longrightarrow> sm_open sm"
    "rp_body (sm_response sm') = rp_body (sm_response sm) @ concat (map frame_of fs)"
    "fs = [] \<or> fs = [error_event] \<and> \<not> sm_open sm' \<and> sm_open sm \<or> fs = [?F] \<and> sm_open sm"
    using stream_round [OF assms] by blast
  have "\<exists>n e. fs = replicate n ?F @ e \<and> (\<not> sm_open sm \<longrightarrow> n = 0 \<and> e = []) \<and> (e = [] \<or> e = [error_event] \<and> \<not> sm_open sm')"
    using fs(4)
  proof (elim disjE conjE)
    assume "fs = [?F]" "sm_open sm"
    then show ?thesis by (intro exI [of _ 1] exI [of _ "[]"]) simp
  next
    assume "fs = [error_event]" "\<not> sm_open sm'" "sm_open sm"
    then show ?thesis by (intro exI [of _ 0] exI [of _ "[error_event]"]) simp
  qed (auto intro: exI [of _ 0])
  then show ?thesis using fs(1-3) unfolding grows_def by blast
qed

definition watches :: "tx_row \<Rightarrow> goerr + string \<Rightarrow> nat \<Rightarrow> ('n, 'sb, 'c, 'sch) process \<Rightarrow> bool" where
  "watches r sn k s \<longleftrightarrow> db_ok (sys_db (ps_app s)) \<and> find_tx (tr_id r) (pg_transactions (sys_db (ps_app s))) = Some r \<and>
     pg_scan_null (sys_db (ps_app s)) = sn \<and> k < length (ps_streams s) \<and> sm_id (ps_streams s ! k) = tr_id r"

lemma watches_fixed:
  assumes "watches r sn k s" "row_fixed r (sys_db (ps_app s)) (sys_db w)" "k < length sms"
    "sm_id (sms ! k) = sm_id (ps_streams s ! k)"
  shows "watches r sn k (s\<lparr>ps_app := w, ps_streams := sms\<rparr>)"
  using assms by (auto simp: watches_def row_fixed_def)

lemma serve_grows:
  assumes "serve D wl p evs s = (x, s')" "watches r sn k s" "tr_status r \<noteq> TxStatusPending"
  shows "grows (row_event (dp_us D) r (row_text sn r)) (ps_streams s ! k) (ps_streams s' ! k)"
  using assms(1,2)
proof (induction evs arbitrary: s)
  case Nil
  then show ?case by (simp add: grows_refl)
next
  case (Cons ev evs)
  note w = Cons.prems(2)
  show ?case
  proof (cases ev)
    case QueueTick
    obtain y v where q: "ProcessQueue (dp_us D) (dp_now D) (dp_engine D) [Tick] (ps_app s) = (y, v)"
      by fastforce
    have "row_fixed r (sys_db (ps_app s)) (sys_db v)"
      using row_fixed_tick [OF assms(3), of "ps_app s" "dp_us D" "dp_now D" "dp_parse D" "dp_net D" "dp_cfg D"] q
      by (simp add: dp_engine_def)
    then have "watches r sn k (s\<lparr>ps_app := v\<rparr>)" using w by (auto simp: watches_def row_fixed_def)
    then show ?thesis
      using Cons.prems(1) Cons.IH [of "s\<lparr>ps_app := v\<rparr>"] QueueTick q
      by (auto simp: grows_refl split: option.splits res.splits)
  next
    case (HttpEv rt rq cn)
    let ?v = "serve_http D wl (ps_metrics s) rt rq cn (ps_app s)"
    let ?sms = "ps_streams s @ (if fst rt = StreamEndpoint then open_stream D wl rq cn (ps_app s) else [])"
    have k: "k < length (ps_streams s)" using w by (simp add: watches_def)
    then have "watches r sn k (s\<lparr>ps_app := ?v, ps_streams := ?sms\<rparr>)"
      by (intro watches_fixed [OF w row_fixed_events(1)]) (simp_all add: nth_append)
    from Cons.IH [OF _ this] show ?thesis using Cons.prems(1) HttpEv k by (simp add: nth_append)
  next
    case (StreamEv j e)
    show ?thesis
    proof (cases "j < length (ps_streams s)")
      case True
      obtain sm v where e: "stream_event D wl e (ps_streams s ! j) (ps_app s) = (sm, v)" by fastforce
      let ?s = "s\<lparr>ps_app := v, ps_streams := (ps_streams s)[j := sm]\<rparr>"
      have k: "k < length (ps_streams s)" using w by (simp add: watches_def)
      have g: "grows (row_event (dp_us D) r (row_text sn r)) (ps_streams s ! k) (ps_streams ?s ! k)"
        using stream_event_grows [OF _ e, of r] w by (cases "j = k") (auto simp: watches_def grows_refl)
      then have "sm_id (ps_streams ?s ! k) = sm_id (ps_streams s ! k)" by (simp add: grows_def)
      then have "watches r sn k ?s"
        using row_fixed_events(2) [of r "ps_app s" D wl e "ps_streams s ! j"] e k
        by (intro watches_fixed [OF w]) simp_all
      then show ?thesis
        using Cons.IH [of ?s] Cons.prems(1) StreamEv True e grows_trans [OF g] by simp
    next
      case False
      then show ?thesis using Cons.IH [OF _ w] Cons.prems(1) StreamEv by simp
    qed
  next
    case (ServerStops e)
    then show ?thesis using Cons.prems(1) by (auto simp: main_ends_def Start_def grows_refl)
  qed
qed

text \<open>
  C19. A confirmation that a client watches is final. While a stream on a confirmed transaction is
  open, in any run of the process - queue ticks, other requests, other streams, ticks of this one -
  what it appends is the same frame over and over, with that status, retry counter and error text,
  and possibly one frame for an error, after which it is closed.
\<close>

theorem confirmed_stream_is_final:
  assumes "serve D wl p evs s = (x, s')" "k < length (ps_streams s)" "db_ok (sys_db (ps_app s))"
    and "find_tx (sm_id (ps_streams s ! k)) (pg_transactions (sys_db (ps_app s))) = Some r"
    and "tr_status r = TxStatusConfirmed"
  shows "\<exists>txt n e. rp_body (sm_response (ps_streams s' ! k)) = rp_body (sm_response (ps_streams s ! k)) @
      concat (replicate n (frame_of (''status'', JObj [(''id'', JStr (dp_us D (tr_id r))),
        (''status'', JStr TxStatusConfirmed), (''retry'', JNum (tr_retry_count r)), (''last_error'', JStr txt)]))) @
      concat (map frame_of e) \<and>
    (e = [] \<or> e = [(''error'', JObj [(''message'', JStr ''transaction not found'')])] \<and> \<not> sm_open (ps_streams s' ! k))"
proof -
  let ?sn = "pg_scan_null (sys_db (ps_app s))"
  have "watches r ?sn k s" using assms(2-4) find_tx_id [OF assms(4)] by (simp add: watches_def)
  from serve_grows [OF assms(1) this] assms(5)
  obtain n e where g: "rp_body (sm_response (ps_streams s' ! k)) = rp_body (sm_response (ps_streams s ! k)) @
      concat (map frame_of (replicate n (row_event (dp_us D) r (row_text ?sn r)) @ e))"
    "e = [] \<or> e = [error_event] \<and> \<not> sm_open (ps_streams s' ! k)"
    unfolding grows_def by auto
  show ?thesis
    using g(2) unfolding g(1)
    by (intro exI [of _ "row_text ?sn r"] exI [of _ n] exI [of _ e])
       (simp add: row_event_def error_event_def assms(5))
qed

definition sample_watched :: "(unit, string, string, string list) process" where
  "sample_watched = (sample_process (calm_db [sample_tx 5 TxStatusConfirmed (Some [])] [] (Inl (Foreign ''null''))))
     \<lparr>ps_streams := [\<lparr>sm_id = 5, sm_conn = \<lparr>cn_fails = \<lambda>n. None, cn_flush = True\<rparr>, sm_response = new_response,
       sm_open = True\<rparr>]\<rparr>"

theorem confirmed_stream_is_final_witness:
  "\<exists>x s' txt n e. serve (sample_deploy (Error EOF)) sample_web 0 [StreamEv 0 Tick, QueueTick, StreamEv 0 Tick] sample_watched
      = (x, s') \<and>
     rp_body (sm_response (ps_streams s' ! 0)) = concat (replicate n (frame_of (''status'', JObj [(''id'', JStr ''id''),
        (''status'', JStr TxStatusConfirmed), (''retry'', JNum 1), (''last_error'', JStr txt)]))) @ concat (map frame_of e) \<and>
     (e = [] \<or> \<not> sm_open (ps_streams s' ! 0))"
proof -
  let ?r = "sample_tx 5 TxStatusConfirmed (Some [])"
  obtain x s' where m: "serve (sample_deploy (Error EOF)) sample_web 0 [StreamEv 0 Tick, QueueTick, StreamEv 0 Tick]
      sample_watched = (x, s')" by fastforce
  have len: "0 < length (ps_streams sample_watched)" by (simp add: sample_watched_def)
  have ok: "db_ok (sys_db (ps_app sample_watched))"
    by (simp add: sample_watched_def sample_process_def db_ok_def keys_ok_def status_ok_def)
  have row: "find_tx (sm_id (ps_streams sample_watched ! 0)) (pg_transactions (sys_db (ps_app sample_watched))) = Some ?r"
    by (simp add: sample_watched_def sample_process_def find_tx_def)
  have "tr_status ?r = TxStatusConfirmed" by simp
  from confirmed_stream_is_final [OF m len ok row this]
  obtain tx n e where g: "rp_body (sm_response (ps_streams s' ! 0)) =
      rp_body (sm_response (ps_streams sample_watched ! 0)) @ concat (replicate n (frame_of (''status'', JObj [(''id'',
        JStr (dp_us (sample_deploy (Error EOF)) (tr_id ?r))), (''status'', JStr TxStatusConfirmed),
        (''retry'', JNum (tr_retry_count ?r)), (''last_error'', JStr tx)]))) @ concat (map frame_of e)"
    "e = [] \<or> \<not> sm_open (ps_streams s' ! 0)"
    by blast
  moreover have "rp_body (sm_response (ps_streams sample_watched ! 0)) = []"
    by (simp add: sample_watched_def new_response_def)
  ultimately have "rp_body (sm_response (ps_streams s' ! 0)) = concat (replicate n (frame_of (''status'',
      JObj [(''id'', JStr ''id''), (''status'', JStr TxStatusConfirmed), (''retry'', JNum 1), (''last_error'', JStr tx)]))) @
      concat (map frame_of e)" by (simp only: append_Nil sample_sel tx_row.select_convs)
  then show ?thesis using m g(2) by blast
qed

end
