(* ===== verification/Spec2Isabelle.thy ===== *)
theory Spec2Isabelle
  imports Streams
begin

text \<open>
  ForgeTSS, a service that submits Stellar transactions: clients post envelopes, a queue processor
  takes them from a Postgres table one by one, leases a channel account, submits the envelope to a
  Horizon or Soroban node and records the outcome. This development models the Go program under
  src/ (cmd/forgetss, internal, pkg/client, with the SQL of migrations/) and proves what its parts do.

  How the program is read. A Go call is a function from a world to an outcome and a world (\<open>op\<close>): the
  outcome is \<open>Ok\<close>, \<open>Error\<close> with a Go error value and its wrapping chain, or \<open>Panic\<close>; \<open>try_call\<close>,
  \<open>log_err\<close> and \<open>wrap_err\<close> are the three ways the code treats an error. Structs are records, Go
  interfaces are records of methods, \<open>int64\<close> is a 64-bit word read with \<open>sint\<close> where it can wrap and
  \<open>int\<close> an integer with its range checked where it is parsed, strings are sequences of bytes, float64
  is an exact dyadic value with rounding. \<open>context\<close> arguments are left out: a cancelled context is one
  of the faults of the call it is passed to.

  Theories, and the code they model:
  \<^item> \<open>Prelude\<close>: outcomes, Go errors, the calculus of relations kept by operations (\<open>keeps\<close>).
  \<^item> \<open>Strconv\<close>, \<open>Float64\<close>, \<open>GoNumbers\<close>, \<open>Bytes\<close>: what the program uses of strconv and of \<open>time\<close>,
    float64 arithmetic, strings and bytes; \<open>GoNumbers\<close> has \<open>ParseFloat\<close> with its rounding and
    \<open>ParseDuration\<close>. \<open>Utf8\<close>: text in UTF-8. \<open>Json\<close>, \<open>JsonDecode\<close>, \<open>JsonRoundTrip\<close>: the encoder of encoding/json, its
    scanner and decoder for the types the program decodes into, and what is decoded of what was encoded.
  \<^item> \<open>Interfaces\<close>: the structs that cross packages, the interfaces \<open>TxStore\<close>, \<open>Submitter\<close>, \<open>Store\<close>,
    \<open>HorizonClient\<close>, and the contracts a client relies on, as the locales \<open>tx_store\<close>, \<open>pool_store\<close> (what
    each call does when no fault strikes) and \<open>kept_by_store\<close> (relations every call keeps, under all
    faults).
  \<^item> \<open>Store\<close>: internal/store/transactions.go and channelaccounts.go on the tables of migrations/*.sql.
    Each statement is a numbered round trip that may fail before or after it took effect; row locks of
    other sessions and the server's clock are functions of that number. An envelope that a TEXT column
    does not take (a NUL byte, not UTF-8) is refused by its INSERT; an error text that \<open>last_error\<close>
    does not take is a fault of that UPDATE. It interprets the contracts.
  \<^item> \<open>Pool\<close>: internal/channelaccounts (pool.go, sync.go, refill.go), its lemmas in locales over the
    contract of the store.
  \<^item> \<open>Router\<close>: internal/rpc (router.go, horizon.go, soroban.go): routing, round robin, failover.
  \<^item> \<open>Config\<close>: internal/config/config.go.
  \<^item> \<open>Metrics\<close>: internal/metrics/metrics.go.
  \<^item> \<open>Engine\<close>: internal/submission (engine.go, retry.go): enqueue, the queue loop, one batch, retry with
    fee bump, backoff; the clients' lemmas are in locales over the contracts.
  \<^item> \<open>System\<close>: the wiring of cmd/forgetss/main.go. The world is the database, the router's counters and
    the network; the contracts are interpreted on it.
  \<^item> \<open>Runs\<close>: any sequence of enqueues, ticks, retries, reconciliations and refills (\<open>run_events\<close>). A
    retry is two events, its read and the end of its backoff wait, between which anything may happen,
    other retries of the same transaction included. The locale \<open>event_relation\<close> lifts what the
    statements keep to all runs. \<open>Samples\<close> is a concrete deployment for witnesses.
  \<^item> \<open>Api\<close>: internal/api (auth.go, handlers.go, the routes of server.go). \<open>Client\<close>: pkg/client/client.go.
    \<open>Service\<close>: the two against each other and on the whole program's store.
  \<^item> \<open>Migration\<close>: internal/store/migration.go on its tracking table, with faults at every round trip.
  \<^item> \<open>Startup\<close>: internal/store/postgres.go, the construction and start of the server (server.go) and
    \<open>main\<close>, from \<open>Load\<close> to the end of the process, with the queue goroutine, the requests and the open
    event streams interleaved. \<open>Streams\<close>: what a stream shows across such a run.
  \<^item> \<open>Replicas\<close>: several processes running \<open>processBatch\<close>, interleaved statement by statement.
    \<open>Interleaving\<close>: the handler of \<open>Engine\<close> on a database that other processes use, with their steps
    before each of its calls and their row locks, is one such process, call of the router included.

  What is shown. In this theory: the invariants of every run of one process under every fault
  (well-formed tables, history kept, confirmed is final, retries bounded by the maximum and the number
  of retries of a transaction that wait at once), the refinement of a batch
  and of a retry to one abstract step, the error paths of both, what reconciliation and refill change,
  and the runs that go wrong (a retry that ends in an error is stuck; overlapping retries exceed the
  maximum and submit what is confirmed; nothing is ever submitted if the driver refuses NULL). In \<open>Store\<close>: the lease picks the least recently used idle account and is atomic, the
  queue is read oldest first, what is written is read back. In \<open>Router\<close>: failover is one round robin
  turn and finds a healthy endpoint; which errors fail over; Soroban submissions never succeed; the
  counter wraps into a panic. In \<open>Service\<close>: who is let in, what a post stores, the client's round trip,
  the event stream from the handler to the callback. In \<open>Migration\<close>: each file is applied whole or not
  at all, an interrupted run can be repeated, file numbers are read back. In \<open>Replicas\<close>: no two
  processes ever hold one account, one process submits a transaction at most once, two can do it twice;
  in \<open>Interleaving\<close>: the handler of \<open>Engine\<close>, on the store of \<open>Store\<close>, refines that step relation
  whatever the other processes do, and its submission log is what it does with the router.
  \<open>Config\<close>, \<open>Engine\<close> and \<open>Metrics\<close> hold what a loaded configuration is, the backoff it leads to, the
  loop and the counters. In \<open>Startup\<close>: what opening the database comes to, what requests can change,
  which invariants hold over a run of \<open>main\<close>, how it ends, and that it never serves anything when there
  are no channel accounts, since it starts no refill. In \<open>Streams\<close>: a confirmation that a client
  watches is final.

  Bounds. No fuel is used: the loops over endpoints, files, rows and events are structural, the
  splitter and the trimmer terminate by measure, and a loop that waits for events takes the list of
  events it sees, ending with \<open>None\<close> or False when they run out.

  Parameters. Third-party code (the Stellar SDK, pgx's error values and its treatment of NULL, chi's
  matching, uuid, Prometheus), the network, HTTP transport, the wording of JSON errors, random bytes,
  the embedded files. \<open>getEnvStrings\<close>, which the code calls and nowhere defines, is a parameter too. A
  hypothesis about one of them names what it documents.

  Interleaving. In \<open>Runs\<close> and \<open>Startup\<close> a tick, a request, a round of a stream and each half of a retry
  are one event each; in \<open>Replicas\<close> the statements of the batches interleave. A theorem about a quiet
  database speaks of the calls on which no statement fails and no other session interferes.

  Not modelled: what chi's middlewares and \<open>net/http\<close> do around a handler, except that a panic does not
  end the server; logging; the accessors \<open>New\<close> and \<open>Pool\<close> of postgres.go; \<open>EventSource\<close> of the client,
  which nothing uses. \<open>main\<close> does not compile as it stands (see \<open>System\<close> and \<open>Startup\<close>); the model wires
  the parts as it means to.
\<close>


section \<open>Properties of every run\<close>

text \<open>
  C6. Well-formedness is an invariant of the whole program: whatever the events, the faults of the
  database and the answers of the network, the primary keys stay unique, every transaction is
  pending, submitting, failed or confirmed (never \<open>submitted\<close>), every account idle or leased.
\<close>

theorem runs_keep_well_formed:
  assumes "db_ok (sys_db w)"
  shows "db_ok (sys_db (fst (run_events D evs (w, ps))))"
  using wf_run.run [of w D evs ps] assms by (simp add: db_rel_def keeps_ok_def)

theorem runs_keep_well_formed_witness:
  "db_ok (sys_db (fst (run_events (sample_deploy (Ok None))
     [EnqueueEv \<lparr>rq_EnvelopeXDR = ''AAAA''\<rparr>, TickEv, RetryEv 4, SyncEv, WakeEv 0, RefillEv 2]
     (sample_world (Ok None) (calm_db [sample_tx 4 ''pending'' None] [sample_acct ''GA'' ''idle'' None]
        (Inr [])), []))))"
  by (rule runs_keep_well_formed)
     (simp add: db_ok_def keys_ok_def status_ok_def TxStatusPending_def AccountStatusIdle_def)

text \<open>
  No run deletes a transaction, changes its envelope or creation time, or lowers its retry
  counter.
\<close>

lemma runs_keep_history: "tx_history (sys_db w) (sys_db (fst (run_events D evs (w, ps))))"
  using history_run.run [of w D evs ps] by (simp add: db_rel_def)

text \<open>
  C2. Confirmed is final: once a transaction is confirmed, and no retry of it is in its backoff wait,
  no later event of any run changes its row in any column, so it is neither submitted again nor
  marked failed. (A retry that waits when another one confirms the transaction submits it again,
  \<open>overlapping_retries\<close> below.)
\<close>

theorem confirmed_is_final:
  assumes "db_ok (sys_db w)" "find_tx i (pg_transactions (sys_db w)) = Some r"
    "tr_status r = TxStatusConfirmed" "i \<notin> fst ` set ps"
  shows "find_tx i (pg_transactions (sys_db (fst (run_events D evs (w, ps))))) = Some r"
  using assms by (intro settled_run) simp_all

theorem confirmed_is_final_witness:
  "find_tx 4 (pg_transactions (sys_db (fst (run_events (sample_deploy (Error EOF)) [TickEv, RetryEv 4, WakeEv 0]
     (sample_world (Error EOF) (calm_db [sample_tx 4 ''confirmed'' (Some [])] [] (Inr [])), [(7, pending_tx 7 ''AAAA'')])))))
   = Some (sample_tx 4 ''confirmed'' (Some []))"
  by (rule confirmed_is_final)
     (simp_all add: db_ok_def keys_ok_def status_ok_def TxStatusConfirmed_def engine_targets_def
        find_tx_def)

text \<open>
  C15. The bound of the retry counter. A retry checks the counter against \<open>MAX_RETRY_ATTEMPTS\<close> before
  its backoff wait and increments it after, and holds no row lock in between. If at no point of a run
  more than K retries of a transaction are in their wait at once, every counter stays between zero and
  the maximum plus K - 1, under every fault of the database and every answer of the network; so the
  maximum is kept if the retries of a transaction do not overlap (K = 1). For K = 2 the bound is
  reached: the witness's run exceeds the maximum by one.
\<close>

theorem retries_bounded:
  assumes "retries_within (max 0 (cfg_MaxRetryAttempts (dp_cfg D))) (sys_db w)" "1 \<le> K"
    and "\<forall>n i. waiting_for i (run_events D (take n evs) (w, [])) \<le> K"
  shows "retries_within (max 0 (cfg_MaxRetryAttempts (dp_cfg D)) + int K - 1)
    (sys_db (fst (run_events D evs (w, []))))"
proof -
  let ?m = "cfg_MaxRetryAttempts (dp_cfg D)"
  have "retry_inv ?m K (w, [])"
    using assms(1,2)
    by (fastforce simp: retry_inv_def waiting_for_def counter_def retries_within_def)
  from retry_inv_run [OF this assms(2,3)] show ?thesis
    by (fastforce simp: retry_inv_def counter_def retries_within_def)
qed

theorem retries_bounded_witness:
  "let s = run_events (sample_deploy (Ok None)) [RetryEv 4, RetryEv 4, WakeEv 0, WakeEv 0] (last_attempt, [])
   in retries_within 4 (sys_db (fst s)) \<and> counter 4 (sys_db (fst s)) = Some 4"
proof -
  let ?D = "sample_deploy (Ok None)" and ?evs = "[RetryEv 4, RetryEv 4, WakeEv 0, WakeEv 0]"
  have start: "retries_within (max 0 (cfg_MaxRetryAttempts (dp_cfg ?D))) (sys_db last_attempt)"
    by (simp add: retries_within_def last_attempt_def find_tx_def)
  have "waiting_for i (run_events ?D (take n ?evs) (last_attempt, [])) \<le> 2" for n i
  proof -
    have "length (filter (\<lambda>e. e = RetryEv i) (take n ?evs)) + length (filter (\<lambda>e. e = RetryEv i) (drop n ?evs)) \<le> 2"
      by (simp only: length_append [symmetric] filter_append [symmetric] append_take_drop_id) simp
    then show ?thesis
      using waiting_for_read [of i ?D "take n ?evs" "(last_attempt, [])"] by (simp add: waiting_for_def)
  qed
  then have "retries_within 4 (sys_db (fst (run_events ?D ?evs (last_attempt, []))))"
    using retries_bounded [of ?D last_attempt 2 ?evs, OF start] by simp
  moreover have "counter 4 (sys_db (fst (run_events ?D ?evs (last_attempt, [])))) = Some 4" by code_simp
  ultimately show ?thesis by (simp only: Let_def)
qed

text \<open>
  Overlapping retries submit a transaction again that one of them has confirmed: after three events it
  is confirmed, with its attempts used up and one submission made; the fourth submits it once more.
\<close>

lemma overlapping_retries:
  "let s3 = run_events (sample_deploy (Ok None)) [RetryEv 4, RetryEv 4, WakeEv 0] (last_attempt, []);
       s4 = run_event (sample_deploy (Ok None)) (WakeEv 0) s3
   in map_option tr_status (find_tx 4 (pg_transactions (sys_db (fst s3)))) = Some TxStatusConfirmed \<and>
     counter 4 (sys_db (fst s3)) = Some 3 \<and> rt_horizonIdx (sys_router (fst s3)) = 1 \<and>
     counter 4 (sys_db (fst s4)) = Some 4 \<and> rt_horizonIdx (sys_router (fst s4)) = 2"
  by code_simp

section \<open>The queue\<close>

lemma on_router_side:
  "on_router m w = (r, w') \<longleftrightarrow>
     (\<exists>rt nw. m (sys_side w) = (r, (rt, nw)) \<and> w' = w\<lparr>sys_router := rt, sys_net := nw\<rparr>)"
  by (auto simp: on_router_def sys_side_def split: prod.splits)

text \<open>
  C1. A tick on a readable queue with an idle account refines the abstract step: one pending
  transaction, the head of the queue, is handed to the router once, with its own envelope; it ends as
  \<open>outcome_of\<close> says, under the account that was used; that account was idle, is idle again with its
  sequence number one higher and a fresh use time; every other row is unchanged, and router and
  network move as that one submission moves them. If the router panics, the transaction stays
  submitting and the account leased.
\<close>

theorem batch_refines:
  assumes "sys_quiet w"
    and "Store_GetPendingTransactions 1 (sys_db w) = (Ok (tx # rest), d)"
    and "sys_accts w k0 = Some v0" "aw_status v0 = AccountStatusIdle"
    and "Router_SubmitTransaction parse net (tx_EnvelopeXDR tx) (sys_router w, sys_net w) = (rep, (rt, nw))"
  shows "\<exists>t k v time w'. sys_txs w (tx_ID tx) = Some t \<and> av_status t = TxStatusPending \<and>
    sys_accts w k = Some v \<and> aw_status v = AccountStatusIdle \<and>
    processBatch us now (main_engine parse net cfg) w = (batch_result rep, w') \<and> sys_quiet w' \<and>
    sys_txs w' = (sys_txs w)(tx_ID tx \<mapsto> tx_after us rep k t) \<and>
    sys_accts w' = (sys_accts w)(k \<mapsto> account_after time rep v) \<and>
    sys_router w' = rt \<and> sys_net w' = nw"
proof -
  have g: "ts_GetPendingTransactions sys_TxStore 1 w = (Ok (tx # rest), w\<lparr>sys_db := d\<rparr>)"
    using assms(2) by (simp add: on_db_def)
  obtain t k v w1 rep' w2 w' where r: "sys_txs w (tx_ID tx) = Some t" "av_status t = TxStatusPending"
    "sys_accts w k = Some v" "aw_status v = AccountStatusIdle"
    "sm_SubmitTransaction (eg_router (main_engine parse net cfg)) (av_env t) w1 = (rep', w2)"
    "processBatch us now (main_engine parse net cfg) w = (batch_result rep', w')"
    "sys_side w1 = sys_side w" "sys_side w' = sys_side w2" "sys_quiet w'"
    "sys_txs w' = (sys_txs w)(tx_ID tx \<mapsto> tx_after us rep' k t)"
    "sys_accts w' = (sys_accts w)(k \<mapsto> account_after (now w2) rep' v)"
    using main_eng.batch_run [OF assms(1) g assms(3,4), where us = us and now = now and parse = parse
        and net = net and cfg = cfg] by blast
  have "av_env t = tx_EnvelopeXDR tx"
    using sys_tx.pending_sound [OF assms(1) g, of tx] r(1) by auto
  then have "rep' = rep" "sys_side w2 = (rt, nw)"
    using r(5,7) assms(5) by (auto simp: sys_Submitter_def on_router_side sys_side_def)
  then show ?thesis
    using r by (intro exI [of _ t] exI [of _ k] exI [of _ v] exI [of _ "now w2"] exI [of _ w'])
      (simp add: sys_side_def)
qed

theorem batch_refines_witness:
  "\<exists>w' t. processBatch (\<lambda>_. ''id'') (\<lambda>_. 77) (main_engine sample_parse (sample_net (Ok None)) sample_cfg)
       (sample_world (Ok None) (calm_db [sample_tx 4 ''pending'' (Some [])]
          [sample_acct ''GA'' ''idle'' None] (Inr []))) = (Ok (), w') \<and> sys_txs w' 4 = Some t \<and>
     av_status t = TxStatusConfirmed"
proof -
  let ?w = "sample_world (Ok None) (calm_db [sample_tx 4 ''pending'' (Some [])]
          [sample_acct ''GA'' ''idle'' None] (Inr []))"
  have q: "sys_quiet ?w" by (simp add: sys_quiet_def)
  obtain tx d where g: "Store_GetPendingTransactions 1 (sys_db ?w) = (Ok [tx], d)" "tx_ID tx = 4"
    by (auto simp: Store_GetPendingTransactions_def try_call_def wrap_err_def quiet_pg_query
        sql_select_pending_def pending_rows_def scan_tx_def)
  have a: "sys_accts ?w ''GA'' =
      Some \<lparr>aw_secret = ''S'', aw_status = AccountStatusIdle, aw_seq = 7, aw_last = None\<rparr>"
    by (simp add: sys_accts_def db_accts_def find_account_def view_of_acct_row_def AccountStatusIdle_def)
  have r: "Router_SubmitTransaction sample_parse (sample_net (Ok None)) (tx_EnvelopeXDR tx)
      (sys_router ?w, sys_net ?w) =
      (Ok None, ((main_router (sample_net (Ok None)) sample_cfg)\<lparr>rt_horizonIdx := 1\<rparr>, ()))"
    by (rule sample_submit)
  from batch_refines [OF q g(1) a _ r, of "\<lambda>_. ''id''" "\<lambda>_. 77" sample_cfg] g(2)
  show ?thesis by (auto simp: batch_result_def tx_after_def outcome_of_def settle_def)
qed

text \<open>
  C22. With no idle account the transaction at the head of the queue is failed at once, with the
  text \<open>no channel account: ...\<close>: nothing reaches the router or the network, which are as before the
  batch; every account and every other transaction is unchanged.
\<close>

theorem batch_without_account_fails:
  assumes "sys_quiet w"
    and "Store_GetPendingTransactions 1 (sys_db w) = (Ok (tx # rest), d)"
    and "\<forall>k v. sys_accts w k = Some v \<longrightarrow> aw_status v \<noteq> AccountStatusIdle"
  shows "\<exists>t err w'. sys_txs w (tx_ID tx) = Some t \<and>
    processBatch us now (main_engine parse net cfg) w = (Ok (), w') \<and> sys_accts w' = sys_accts w \<and>
    sys_router w' = sys_router w \<and> sys_net w' = sys_net w \<and>
    sys_txs w' = (sys_txs w)(tx_ID tx \<mapsto>
      settle (TxStatusFailed, ''no channel account: '' @ err_msg us err) [] t)"
proof -
  have g: "ts_GetPendingTransactions sys_TxStore 1 w = (Ok (tx # rest), w\<lparr>sys_db := d\<rparr>)"
    using assms(2) by (simp add: on_db_def)
  show ?thesis
    using assms(3) main_eng.batch_no_account [OF assms(1) g, where us = us and now = now and
        parse = parse and net = net and cfg = cfg] by (simp add: sys_side_def) blast
qed

theorem batch_without_account_fails_witness:
  "\<exists>t w'. processBatch (\<lambda>_. ''id'') (\<lambda>_. 77) (main_engine sample_parse (sample_net (Ok None)) sample_cfg)
       (sample_world (Ok None) (calm_db [sample_tx 4 ''pending'' (Some [])] [] (Inr []))) = (Ok (), w') \<and>
     sys_txs w' 4 = Some t \<and> av_status t = TxStatusFailed"
proof -
  let ?w = "sample_world (Ok None) (calm_db [sample_tx 4 ''pending'' (Some [])] [] (Inr []))"
  have q: "sys_quiet ?w" by (simp add: sys_quiet_def)
  obtain tx d where g: "Store_GetPendingTransactions 1 (sys_db ?w) = (Ok [tx], d)" "tx_ID tx = 4"
    by (auto simp: Store_GetPendingTransactions_def try_call_def wrap_err_def quiet_pg_query
        sql_select_pending_def pending_rows_def scan_tx_def)
  have none: "\<forall>k v. sys_accts ?w k = Some v \<longrightarrow> aw_status v \<noteq> AccountStatusIdle"
    by (simp add: sys_accts_def db_accts_def find_account_def)
  from batch_without_account_fails [OF q g(1) none, where us = "\<lambda>_. ''id''" and now = "\<lambda>_. 77" and
      parse = sample_parse and net = "sample_net (Ok None)" and cfg = sample_cfg] g(2)
  show ?thesis by (auto simp: settle_def)
qed

lemma retry_run_main:
  assumes "sys_quiet w" "sys_txs w i = Some t" "may_retry cfg t" "0 \<le> av_retry t"
    "av_retry t < int4_max" "av_chan t = Some ch" "av_err t = Some er"
    and "createFeeBump parse fb (pending_tx 0 (av_env t)) = Inr x"
    and "wait (backoffDuration conv (av_retry t) (cfg_RetryBaseDelay cfg) (cfg_RetryMultiplier cfg))
           (sys_net w) = (Ok (), nw)"
    and "Router_SubmitTransaction parse net x (sys_router w, nw) = (rep, (rt', nw'))"
  shows "\<exists>w'. Retry (main_retry_env parse fb conv wait) (main_engine parse net cfg) i w
      = (retry_result i rep, w') \<and> sys_quiet w' \<and> sys_accts w' = sys_accts w \<and>
    sys_txs w' = (sys_txs w)(i \<mapsto> settle (retry_outcome rep) [] (t\<lparr>av_retry := av_retry t + 1\<rparr>)) \<and>
    sys_router w' = rt' \<and> sys_net w' = nw'"
proof -
  let ?v = "main_retry_env parse fb conv wait" and ?E = "main_engine parse net cfg"
  have fb: "fee_bumped ?v (av_env t) = Inr x"
    using assms(8) by (simp add: fee_bumped_def main_retry_env_def)
  have wt: "re_wait ?v (backoffDuration (re_conv ?v) (av_retry t) (cfg_RetryBaseDelay (eg_cfg ?E))
      (cfg_RetryMultiplier (eg_cfg ?E))) w = (Ok (), w\<lparr>sys_net := nw\<rparr>)"
    using assms(9) by (simp add: main_retry_env_def on_net_def)
  have may: "may_retry (eg_cfg ?E) t" using assms(3) by simp
  obtain w1 rep' w2 w' where r:
    "sm_SubmitTransaction (eg_router ?E) x w1 = (rep', w2)" "Retry ?v ?E i w = (retry_result i rep', w')"
    "sys_side w1 = sys_side (w\<lparr>sys_net := nw\<rparr>)" "sys_side w' = sys_side w2" "sys_quiet w'"
    "sys_accts w' = sys_accts w"
    "sys_txs w' = (sys_txs w)(i \<mapsto> settle (retry_outcome rep') [] (t\<lparr>av_retry := av_retry t + 1\<rparr>))"
    using main_ret.Retry_run [OF assms(1,2) may assms(4-7) fb wt] by blast
  have "rep' = rep" "sys_side w2 = (rt', nw')"
    using r(1,3) assms(10) by (auto simp: sys_Submitter_def on_router_side sys_side_def)
  then show ?thesis using r by (intro exI [of _ w']) (simp add: sys_side_def)
qed

text \<open>
  C8. An admitted retry on a quiet store, once the backoff is over, hands the fee-bumped envelope to
  the router once and counts one attempt; the transaction is confirmed, failed or, when the router
  answers with an error, left submitting, and the call's result says which.
\<close>

theorem retry_refines:
  assumes "sys_quiet w" "sys_txs w i = Some t" "may_retry cfg t" "0 \<le> av_retry t"
    "av_retry t < int4_max" "av_chan t = Some ch" "av_err t = Some er"
    and "createFeeBump parse fb (pending_tx 0 (av_env t)) = Inr x"
    and "wait (backoffDuration conv (av_retry t) (cfg_RetryBaseDelay cfg) (cfg_RetryMultiplier cfg))
           (sys_net w) = (Ok (), nw)"
    and "Router_SubmitTransaction parse net x (sys_router w, nw) = (rep, (rt', nw'))"
  shows "\<exists>w'. Retry (main_retry_env parse fb conv wait) (main_engine parse net cfg) i w
      = (retry_result i rep, w') \<and> sys_quiet w' \<and> sys_accts w' = sys_accts w \<and>
    sys_txs w' = (sys_txs w)(i \<mapsto> settle (retry_outcome rep) [] (t\<lparr>av_retry := av_retry t + 1\<rparr>)) \<and>
    sys_router w' = rt' \<and> sys_net w' = nw'"
  using assms by (rule retry_run_main)

lemma sample_bump: "createFeeBump sample_parse sample_feebump (pending_tx 0 ''AAAA'') = Inr ''bumpGA''"
  by (simp add: createFeeBump_def sample_parse_def sample_feebump_def pending_tx_def Let_def)

lemma sample_failed_view:
  "sys_txs (sample_world rep (calm_db [sample_tx 4 ''failed'' (Some [])] [] sn)) 4 =
     Some \<lparr>av_env = ''AAAA'', av_status = TxStatusFailed, av_chan = Some [], av_retry = 1, av_err = Some []\<rparr>"
  by (simp add: sys_txs_def db_txs_def find_tx_def view_of_tx_row_def TxStatusFailed_def)

theorem retry_refines_witness:
  "\<exists>w'. Retry (main_retry_env sample_parse sample_feebump (\<lambda>_. 0) (\<lambda>d. ret (Ok ())))
      (main_engine sample_parse (sample_net (Ok None)) sample_cfg) 4
      (sample_world (Ok None) (calm_db [sample_tx 4 ''failed'' (Some [])] [] (Inr []))) = (Ok (), w') \<and>
    map_option av_status (sys_txs w' 4) = Some TxStatusConfirmed \<and>
    map_option av_retry (sys_txs w' 4) = Some 2"
proof -
  let ?w = "sample_world (Ok None) (calm_db [sample_tx 4 ''failed'' (Some [])] [] (Inr []))"
  let ?t = "\<lparr>av_env = ''AAAA'', av_status = TxStatusFailed, av_chan = Some [], av_retry = 1, av_err = Some []\<rparr>"
  have q: "sys_quiet ?w" by (simp add: sys_quiet_def)
  have may: "may_retry sample_cfg ?t" by (simp add: may_retry_def)
  have b: "createFeeBump sample_parse sample_feebump (pending_tx 0 (av_env ?t)) = Inr ''bumpGA''"
    by (simp add: sample_bump)
  show ?thesis
    using retry_refines [OF q sample_failed_view may _ _ _ _ b _ sample_submit, where ch = "[]" and
        er = "[]" and wait = "\<lambda>d. ret (Ok ())" and conv = "\<lambda>_. 0"]
    by (auto simp: int4_max_def retry_result_def retry_outcome_def settle_def)
qed

text \<open>
  C23. A transaction that is not failed, or has used up \<open>MAX_RETRY_ATTEMPTS\<close>, or does not exist, is
  refused: the call returns an error and changes no transaction, no account, and neither the router
  nor the network.
\<close>

theorem retry_refused:
  assumes "sys_quiet w" "\<forall>t. sys_txs w i = Some t \<longrightarrow> \<not> may_retry cfg t"
    and "Retry (main_retry_env parse fb conv wait) (main_engine parse net cfg) i w = (r, w')"
  shows "(\<exists>e. r = Error e) \<and> sys_txs w' = sys_txs w \<and> sys_accts w' = sys_accts w \<and> sys_side w' = sys_side w"
proof -
  let ?E = "main_engine parse net cfg"
  have no: "\<not> may_retry (eg_cfg ?E) t" if "sys_txs w i = Some t" for t
    using assms(2) that by simp
  have f: "sys_txs w' = sys_txs w \<and> sys_accts w' = sys_accts w"
    using main_ret.Retry_refused [OF assms(1) no assms(3)] by blast
  obtain g w1 where g: "ts_GetTransactionForRetry sys_TxStore i w = (g, w1)"
    by (cases "ts_GetTransactionForRetry sys_TxStore i w")
  have s: "sys_side w1 = sys_side w" using keeps_result [OF main_side.kept_for_retry g] .
  have np: "g \<noteq> Panic"
    using g panic_freeD [OF panic_free_get(2), of i "sys_db w"] by (auto simp: on_db_iff)
  have stop: "\<not> (tx_Status tx = TxStatusFailed \<and> tx_RetryCount tx < cfg_MaxRetryAttempts cfg)"
    if "g = Ok tx" for tx
    using sys_tx.for_retry_sound [OF assms(1), of i tx w1] g that no by (auto simp: may_retry_def)
  have "(\<exists>e. r = Error e) \<and> w' = w1"
    using assms(3) g np stop by (cases g) (auto simp: Retry_defs try_call_def not_less split: if_splits)
  then show ?thesis using f s by simp
qed

theorem retry_refused_witness:
  "\<exists>e w'. Retry (main_retry_env sample_parse sample_feebump (\<lambda>_. 0) (\<lambda>d. ret (Ok ())))
      (main_engine sample_parse (sample_net (Ok None)) sample_cfg) 4
      (sample_world (Ok None) (calm_db [sample_tx 4 ''submitting'' (Some [])] [] (Inr []))) = (Error e, w') \<and>
    map_option av_status (sys_txs w' 4) = Some ''submitting''"
proof -
  let ?w = "sample_world (Ok None) (calm_db [sample_tx 4 ''submitting'' (Some [])] [] (Inr []))"
  let ?v = "main_retry_env sample_parse sample_feebump (\<lambda>_. 0) (\<lambda>d. ret (Ok ()))"
  let ?E = "main_engine sample_parse (sample_net (Ok None)) sample_cfg"
  obtain r w' where r: "Retry ?v ?E 4 ?w = (r, w')" by (cases "Retry ?v ?E 4 ?w")
  have t: "sys_txs ?w 4 = Some \<lparr>av_env = ''AAAA'', av_status = ''submitting'', av_chan = Some [],
      av_retry = 1, av_err = Some []\<rparr>"
    by (simp add: sys_txs_def db_txs_def find_tx_def view_of_tx_row_def)
  have "\<forall>t. sys_txs ?w 4 = Some t \<longrightarrow> \<not> may_retry sample_cfg t"
    by (simp add: t may_retry_def TxStatusFailed_def)
  from retry_refused [OF _ this r] show ?thesis using r t by (auto simp: sys_quiet_def)
qed

text \<open>
  C20. A retry that the router answers with an error is a dead end: the transaction is left
  submitting, and no later event of any run, no tick and no retry, ever changes its row again, unless
  another retry of it was already in its wait.
\<close>

theorem failed_retry_is_stuck:
  assumes "db_ok (sys_db w)" "sys_quiet w" "sys_txs w i = Some t" "may_retry (dp_cfg D) t"
    "0 \<le> av_retry t" "av_retry t < int4_max" "av_chan t = Some ch" "av_err t = Some er"
    and "createFeeBump (dp_parse D) (dp_feebump D) (pending_tx 0 (av_env t)) = Inr x"
    and "dp_wait D (backoffDuration (dp_conv D) (av_retry t) (cfg_RetryBaseDelay (dp_cfg D))
           (cfg_RetryMultiplier (dp_cfg D))) (sys_net w) = (Ok (), nw)"
    and "Router_SubmitTransaction (dp_parse D) (dp_net D) x (sys_router w, nw) = (Error e, s)"
    and "i \<notin> fst ` set ps" and s1: "s1 = run_events D [RetryEv i, WakeEv (length ps)] (w, ps)"
  shows "map_option av_status (sys_txs (fst s1) i) = Some TxStatusSubmitting \<and>
    sys_txs (fst (run_events D evs s1)) i = sys_txs (fst s1) i"
proof -
  let ?w = "snd (Retry (dp_retry D) (dp_engine D) i w)"
  have run: "s1 = (?w, ps)" using retry_read_then_wake [of D ps i w] by (simp add: s1)
  have t1: "sys_txs ?w i = Some (settle (TxStatusSubmitting, []) [] (t\<lparr>av_retry := av_retry t + 1\<rparr>))"
  proof -
    obtain rt' nw' where s: "s = (rt', nw')" by (cases s)
    obtain w' where "Retry (dp_retry D) (dp_engine D) i w = (retry_result i (Error e :: TransactionResult option res), w')"
      "sys_txs w' = (sys_txs w)(i \<mapsto> settle (retry_outcome (Error e)) [] (t\<lparr>av_retry := av_retry t + 1\<rparr>))"
      using retry_run_main [where wait = "dp_wait D" and conv = "dp_conv D" and cfg = "dp_cfg D" and
          net = "dp_net D" and rep = "Error e", OF assms(2-10)] assms(11) s
      by (auto simp: dp_retry_def dp_engine_def)
    then show ?thesis by (simp add: retry_outcome_def)
  qed
  then obtain r where r: "find_tx i (pg_transactions (sys_db ?w)) = Some r"
      "view_of_tx_row r = settle (TxStatusSubmitting, []) [] (t\<lparr>av_retry := av_retry t + 1\<rparr>)"
    unfolding sys_txs_def db_txs_Some by auto
  have st: "tr_status r = TxStatusSubmitting"
    using arg_cong [OF r(2), of av_status] by (simp add: view_of_tx_row_def settle_def)
  have "db_ok (sys_db ?w)"
    using wf_run.run [of w D "[RetryEv i, WakeEv (length ps)]" ps] assms(1) run
    by (simp only: s1 [symmetric]) (simp add: db_rel_def keeps_ok_def)
  then have "find_tx i (pg_transactions (sys_db (fst (run_events D evs (?w, ps))))) = Some r"
    using settled_run [OF _ r(1)] st assms(12) by simp
  then show ?thesis using t1 r(1) by (simp add: run sys_txs_def db_txs_def settle_def)
qed

lemma sample_submit_error:
  "Router_SubmitTransaction sample_parse (sample_net (Error (Foreign ''bad''))) x
      (sys_router (sample_world (Error (Foreign ''bad'')) d), sys_net (sample_world (Error (Foreign ''bad'')) d)) =
   (Error (Wrap [Lit ''submitting via horizon ('', Lit ''h2'', Lit ''): '']
      (Wrap [Lit ''submitting transaction via horizon ('', Lit ''h2'', Lit ''): ''] (Foreign ''bad''))),
    ((main_router (sample_net (Error (Foreign ''bad''))) sample_cfg)\<lparr>rt_horizonIdx := 1\<rparr>, ()))"
  by (simp add: Router_SubmitTransaction_def sample_route submitWithFailover_def sample_world_def
      main_world_def sample_router next_client_body_def go_index_def horizon_attempt_def
      attempt_call_def HorizonClient_SubmitTransaction_def wrap_err_def try_call_def isRetryable_def
      eval_nat_numeral Let_def signed_modulo_int_def signed_divide_int_def)

theorem failed_retry_is_stuck_witness:
  "map_option av_status (sys_txs (fst (run_events (sample_deploy (Error (Foreign ''bad''))) [RetryEv 4, WakeEv 0]
     (sample_world (Error (Foreign ''bad'')) (calm_db [sample_tx 4 ''failed'' (Some [])] [] (Inr [])), []))) 4)
   = Some TxStatusSubmitting"
proof -
  let ?w = "sample_world (Error (Foreign ''bad'')) (calm_db [sample_tx 4 ''failed'' (Some [])] [] (Inr []))"
  let ?D = "sample_deploy (Error (Foreign ''bad''))"
  let ?t = "\<lparr>av_env = ''AAAA'', av_status = TxStatusFailed, av_chan = Some [], av_retry = 1, av_err = Some []\<rparr>"
  have q: "db_ok (sys_db ?w)" "sys_quiet ?w" "may_retry (dp_cfg ?D) ?t" "0 \<le> av_retry ?t"
      "av_retry ?t < int4_max" "av_chan ?t = Some []" "av_err ?t = Some []"
    by (simp_all add: sys_quiet_def may_retry_def db_ok_def keys_ok_def status_ok_def int4_max_def
        engine_targets_def TxStatusFailed_def)
  have b: "createFeeBump (dp_parse ?D) (dp_feebump ?D) (pending_tx 0 (av_env ?t)) = Inr ''bumpGA''"
    using sample_bump by (simp add: sample_deploy_def)
  have wt: "dp_wait ?D d (sys_net ?w) = (Ok (), sys_net ?w)" for d
    by (simp add: sample_deploy_def)
  have p: "dp_parse ?D = sample_parse" "dp_net ?D = sample_net (Error (Foreign ''bad''))" by simp_all
  show ?thesis
    using failed_retry_is_stuck [OF q(1,2) sample_failed_view q(3-7) b wt
        sample_submit_error [folded p], of "[]"] by simp
qed

section \<open>The pool\<close>

text \<open>
  Leasing an account and releasing it gives every account back as it was, the leased one with a
  new use time and nothing else changed, and touches no transaction.
\<close>

lemma lease_then_release:
  assumes "sys_quiet w" "Pool_Lease (main_pool net cfg) w = (Ok a, w1)"
    and "Pool_Release now (main_pool net cfg) a w1 = (r, w2)"
  shows "r = Ok () \<and> sys_quiet w2 \<and> sys_txs w2 = sys_txs w \<and>
    (\<exists>v. sys_accts w (acc_PublicKey a) = Some v \<and>
       sys_accts w2 = (sys_accts w)(acc_PublicKey a \<mapsto> v\<lparr>aw_last := Some (now w1)\<rparr>))"
  using assms by (rule main_lease.lease_release)

text \<open>
  C24. Reconciliation against a network that answers the same throughout raises the stored sequence
  number of exactly the idle accounts the network is ahead of, to the network's number; leased
  accounts, accounts the network fails on and accounts ahead of the network keep theirs. The call
  succeeds even when some accounts fail.
\<close>

theorem sync_raises_idle_sequences:
  assumes "sys_quiet w"
  shows "\<exists>w'. SyncSequenceNumbers (main_pool (steady_net answers net) cfg) w = (Ok (), w') \<and>
    sys_quiet w' \<and> sys_txs w' = sys_txs w \<and>
    (\<forall>k. sys_accts w' k = (case sys_accts w k of
        None \<Rightarrow> None
      | Some v \<Rightarrow> (case answers k of
            Inl e \<Rightarrow> Some v
          | Inr q \<Rightarrow> Some (if aw_status v = AccountStatusIdle \<and> sint (aw_seq v) < sint q
                         then v\<lparr>aw_seq := q\<rparr> else v))))"
proof -
  obtain w' where w': "SyncSequenceNumbers (main_pool (steady_net answers net) cfg) w = (Ok (), w')"
    "sys_quiet w'" "sys_txs w' = sys_txs w"
    "sys_accts w' = sync_some (seen_answers (main_endpoint (steady_net answers net) cfg) answers) UNIV (sys_accts w)"
    using main_sync.Sync_run [OF assms] by blast
  have "sys_accts w' k = (case sys_accts w k of
        None \<Rightarrow> None
      | Some v \<Rightarrow> (case answers k of
            Inl e \<Rightarrow> Some v
          | Inr q \<Rightarrow> Some (if aw_status v = AccountStatusIdle \<and> sint (aw_seq v) < sint q
                         then v\<lparr>aw_seq := q\<rparr> else v)))" for k
    by (simp add: w'(4) sync_some_def sync_seq_def seen_answers_def split: option.split sum.split)
  with w' show ?thesis by blast
qed

theorem sync_raises_idle_sequences_witness:
  "\<exists>w'. SyncSequenceNumbers (main_pool (steady_net (\<lambda>k. Inr 40) (sample_net (Ok None))) sample_cfg)
      (sample_world (Ok None) (calm_db [] [sample_acct ''GA'' ''idle'' None,
         sample_acct ''GB'' ''leased'' None] (Inr []))) = (Ok (), w') \<and>
    map_option aw_seq (sys_accts w' ''GA'') = Some 40 \<and> map_option aw_seq (sys_accts w' ''GB'') = Some 7"
proof -
  let ?w = "sample_world (Ok None) (calm_db [] [sample_acct ''GA'' ''idle'' None,
         sample_acct ''GB'' ''leased'' None] (Inr []))"
  have q: "sys_quiet ?w" by (simp add: sys_quiet_def)
  have a: "sys_accts ?w ''GA'' = Some \<lparr>aw_secret = ''S'', aw_status = AccountStatusIdle, aw_seq = 7, aw_last = None\<rparr>"
    "sys_accts ?w ''GB'' = Some \<lparr>aw_secret = ''S'', aw_status = AccountStatusLeased, aw_seq = 7, aw_last = None\<rparr>"
    by (simp_all add: sys_accts_def db_accts_def find_account_def view_of_acct_row_def AccountStatusIdle_def
        AccountStatusLeased_def)
  obtain w' where w': "SyncSequenceNumbers (main_pool (steady_net (\<lambda>k. Inr 40) (sample_net (Ok None)))
      sample_cfg) ?w = (Ok (), w')"
    and e: "\<forall>k. sys_accts w' k = (case sys_accts ?w k of
        None \<Rightarrow> None
      | Some v \<Rightarrow> (case Inr 40 :: goerr + i64 of
            Inl e \<Rightarrow> Some v
          | Inr q \<Rightarrow> Some (if aw_status v = AccountStatusIdle \<and> sint (aw_seq v) < sint q
                         then v\<lparr>aw_seq := q\<rparr> else v)))"
    using sync_raises_idle_sequences [OF q, of "\<lambda>k. Inr 40" "sample_net (Ok None)" sample_cfg] by blast
  show ?thesis
    using w' spec [OF e, of "''GA''"] spec [OF e, of "''GB''"] a by (intro exI [of _ w']) simp
qed

text \<open>
  C25. A successful refill adds exactly the requested number of accounts, with distinct new public
  keys, each idle at sequence number zero, never used, holding as \<open>encrypted_secret\<close> the private key
  as derived; it changes nothing that was there.
\<close>

theorem refill_adds_fresh_accounts:
  assumes "sys_quiet w" "Refill (main_keys rand derive) (main_pool net cfg) n w = (Ok (), w')"
  shows "\<exists>kps. length kps = nat n \<and> 1 \<le> n \<and> distinct (map fst kps) \<and>
    (\<forall>kp \<in> set kps. \<exists>seed. derive seed = Inr kp) \<and> fst ` set kps \<inter> dom (sys_accts w) = {} \<and>
    sys_txs w' = sys_txs w \<and>
    sys_accts w' = sys_accts w ++ map_of (map (\<lambda>(k, s). (k,
      \<lparr>aw_secret = s, aw_status = AccountStatusIdle, aw_seq = 0, aw_last = None\<rparr>)) kps)"
proof -
  have "1 \<le> n" using assms(2) by (auto simp: Refill_def split: if_splits)
  then show ?thesis
    using main_refill.Refill_ok [OF assms]
    by (auto simp: derived_def main_keys_def fresh_accounts_def fresh_account_def)
qed

theorem refill_adds_fresh_accounts_witness:
  "\<exists>w'. Refill (main_keys (ret (Ok [1, 2])) (\<lambda>seed. Inr (''GNEW'', ''SNEW'')))
      (main_pool (sample_net (Ok None)) sample_cfg) 1
      (sample_world (Ok None) (calm_db [] [sample_acct ''GA'' ''idle'' None] (Inr []))) = (Ok (), w') \<and>
    (\<exists>kps. length kps = 1 \<and> sys_accts w' = sys_accts (sample_world (Ok None)
        (calm_db [] [sample_acct ''GA'' ''idle'' None] (Inr []))) ++ map_of (map (\<lambda>(k, s). (k,
      \<lparr>aw_secret = s, aw_status = AccountStatusIdle, aw_seq = 0, aw_last = None\<rparr>)) kps))"
proof -
  let ?ks = "main_keys (ret (Ok [1, 2])) (\<lambda>seed. Inr (''GNEW'', ''SNEW''))"
  let ?p = "main_pool (sample_net (Ok None)) sample_cfg"
  let ?w = "sample_world (Ok None) (calm_db [] [sample_acct ''GA'' ''idle'' None] (Inr []))"
  have q: "sys_quiet ?w" by (simp add: sys_quiet_def)
  have "fst (Refill ?ks ?p 1 ?w) = Ok ()"
    by (simp add: Refill_def refillOne_def try_call_def wrap_err_def main_keys_def on_net_def on_db_def
        Store_SaveChannelAccount_def pg_stmt_def pg_fault_now_def sql_insert_account_def split: prod.split)
  then obtain w' where r: "Refill ?ks ?p 1 ?w = (Ok (), w')" by (cases "Refill ?ks ?p 1 ?w") auto
  from refill_adds_fresh_accounts [OF q r] show ?thesis using r by auto
qed

section \<open>Enqueueing, and the queue while the driver refuses NULL\<close>

text \<open>
  C21. \<open>Enqueue\<close>, with the database at rest, on every branch. An empty envelope and one that does not
  parse are refused, each with its own message, and nothing changes, no id is drawn. Otherwise the
  call succeeds exactly when the drawn id is not in use and the text is one the TEXT column takes: then
  it returns the id, under which one new pending transaction holds that envelope, with no attempts
  and NULL account and error. Else it returns an error and stores nothing. Accounts and the router
  are not touched.
\<close>

theorem enqueue_spec:
  assumes "sys_quiet w" "new (sys_net w) = (Ok i, nw)"
  shows "\<exists>r w'. Enqueue parse (on_net new) (main_engine parse' net cfg) req w = (r, w') \<and>
    sys_accts w' = sys_accts w \<and> sys_router w' = sys_router w \<and>
    (if rq_EnvelopeXDR req = [] then r = Error (ErrText [Lit ''envelope XDR is required'']) \<and> w' = w
     else case parse (rq_EnvelopeXDR req) of
       Inl e \<Rightarrow> r = Error (Wrap [Lit ''envelope XDR is not valid: ''] e) \<and> w' = w
     | Inr env \<Rightarrow>
         sys_net w' = nw \<and>
         (if pg_text_ok (rq_EnvelopeXDR req) \<and> sys_txs w i = None
          then r = Ok i \<and> sys_txs w' = (sys_txs w)(i \<mapsto> \<lparr>av_env = rq_EnvelopeXDR req,
            av_status = TxStatusPending, av_chan = None, av_retry = 0, av_err = None\<rparr>)
          else (\<exists>e. r = Error (Wrap [Lit ''enqueuing transaction: ''] e)) \<and> sys_txs w' = sys_txs w))"
  (is "\<exists>r w'. ?run w = (r, w') \<and> ?rest r w'")
proof (cases "rq_EnvelopeXDR req = [] \<or> (\<exists>e. parse (rq_EnvelopeXDR req) = Inl e)")
  case True
  then show ?thesis by (intro exI [of _ "fst (?run w)"] exI [of _ "snd (?run w)"]) (auto simp: Enqueue_def)
next
  case False
  then obtain env where env: "rq_EnvelopeXDR req \<noteq> []" "parse (rq_EnvelopeXDR req) = Inr env"
    by (cases "parse (rq_EnvelopeXDR req)") auto
  obtain y d where y: "Store_SaveTransaction (pending_tx i (rq_EnvelopeXDR req)) (sys_db w) = (y, d)"
    by (cases "Store_SaveTransaction (pending_tx i (rq_EnvelopeXDR req)) (sys_db w)")
  have q: "db_quiet (sys_db w)" using assms(1) by (simp add: sys_quiet_def)
  note v = save_tx_views [OF q y] and o = save_outcome [OF q y]
  have "Enqueue parse (on_net new) (main_engine parse' net cfg) req w =
      ((case y of Ok u \<Rightarrow> Ok i | Error e \<Rightarrow> Error (Wrap [Lit ''enqueuing transaction: ''] e) | Panic \<Rightarrow> Panic),
       w\<lparr>sys_net := nw, sys_db := d\<rparr>)"
    using assms(2) env y by (cases y) (simp_all add: Enqueue_def on_net_def try_call_def on_db_def)
  then show ?thesis
    using v o env by (cases y) (auto simp: sys_views split: if_splits)
qed

theorem enqueue_spec_witness:
  "\<exists>w'. Enqueue sample_parse (on_net (ret (Ok 9))) (main_engine sample_parse (sample_net (Ok None)) sample_cfg)
      \<lparr>rq_EnvelopeXDR = ''AAAA''\<rparr> (sample_world (Ok None) (calm_db [] [] (Inr []))) = (Ok 9, w') \<and>
    map_option av_status (sys_txs w' 9) = Some TxStatusPending"
proof -
  let ?w = "sample_world (Ok None) (calm_db [] [] (Inr []))"
  have q: "sys_quiet ?w" by (simp add: sys_quiet_def)
  have n: "ret (Ok (9 :: uuid)) (sys_net ?w) = (Ok 9, sys_net ?w)" "sys_txs ?w 9 = None"
    by (simp_all add: sys_txs_def db_txs_def find_tx_def)
  from enqueue_spec [where new = "ret (Ok 9)", OF q n(1), of sample_parse sample_parse "sample_net (Ok None)" sample_cfg "\<lparr>rq_EnvelopeXDR = ''AAAA''\<rparr>"]
  show ?thesis using n(2) by (auto simp: sample_parse_def)
qed

text \<open>
  C17. The queue stops for good when the driver refuses to scan NULL. If every pending and every failed
  row still has the NULL account it was inserted with, and no retry is in its wait, then in every run,
  under every fault: rows are only appended, as pending with a NULL account, and no stored row ever
  changes; the router is never called; and nothing is ever submitted, as the run is the same
  whatever the network would do with a submission through Horizon or Soroban.
\<close>

theorem queue_stalls_on_null:
  assumes "\<forall>r \<in> set (pg_transactions (sys_db w)).
      tr_status r \<in> {TxStatusPending, TxStatusFailed} \<longrightarrow> tr_channel_account r = None"
    and "pg_scan_null (sys_db w) = Inl ne"
  shows "\<exists>w' new. run_events D evs (w, []) = (w', []) \<and>
    pg_transactions (sys_db w') = pg_transactions (sys_db w) @ new \<and>
    (\<forall>r \<in> set new. tr_status r = TxStatusPending \<and> tr_channel_account r = None) \<and>
    sys_router w' = sys_router w \<and>
    run_events (D\<lparr>dp_net := (dp_net D)\<lparr>net_SubmitTransactionXDR := horizon, net_Simulate := simulate,
      net_Send := send\<rparr>\<rparr>) evs (w, []) = (w', [])"
proof -
  have "served_null (sys_db w)" using assms(1) by (simp add: served_null_def)
  from stalled_run [OF this assms(2), of D evs horizon simulate send] obtain w' where
    "run_events D evs (w, []) = (w', [])" "same_router w w'" "appends_null (sys_db w) (sys_db w')"
    "run_events (other_submissions horizon simulate send D) evs (w, []) = (w', [])" by blast
  then show ?thesis unfolding other_submissions_def same_router_def appends_null_def by blast
qed

theorem queue_stalls_on_null_witness:
  "\<exists>w' new. run_events (sample_deploy (Ok None)) [EnqueueEv \<lparr>rq_EnvelopeXDR = ''AAAA''\<rparr>, TickEv, RetryEv 4]
       (sample_world (Ok None) (calm_db [sample_tx 4 ''failed'' None] [sample_acct ''GA'' ''idle'' None]
          (Inl (Foreign ''null''))), []) = (w', []) \<and>
     pg_transactions (sys_db w') = sample_tx 4 ''failed'' None # new \<and>
     sys_router w' = main_router (sample_net (Ok None)) sample_cfg"
proof -
  let ?w = "sample_world (Ok None) (calm_db [sample_tx 4 ''failed'' None] [sample_acct ''GA'' ''idle'' None]
      (Inl (Foreign ''null'')))"
  have "pg_scan_null (sys_db ?w) = Inl (Foreign ''null'')"
    "\<forall>r \<in> set (pg_transactions (sys_db ?w)).
       tr_status r \<in> {TxStatusPending, TxStatusFailed} \<longrightarrow> tr_channel_account r = None"
    by simp_all
  moreover have "sys_router ?w = main_router (sample_net (Ok None)) sample_cfg"
    by (simp add: sample_world_def main_world_def)
  ultimately show ?thesis
    using queue_stalls_on_null [of ?w "Foreign ''null''" "sample_deploy (Ok None)"
        "[EnqueueEv \<lparr>rq_EnvelopeXDR = ''AAAA''\<rparr>, TickEv, RetryEv 4]"] by fastforce
qed

end
